(* ===== verification/Prelude.thy ===== *)
theory Prelude
  imports Main "HOL-Library.Word" "HOL-Library.Multiset"
begin

text \<open>
  What the components share: the names of the machine types of \<open>common/types.hpp\<close>, the
  collections of facts the proofs of the components refer to, and generic lemmas on lists, folds
  over schedules and words.  Nothing in this theory models a particular piece of code.
\<close>

unbundle bit_operations_syntax

section \<open>Machine types\<close>

text \<open>
  The unsigned integers of the code keep their width.  \<open>std::size_t\<close> is \<open>nat\<close>: sizes and ring
  positions stay far below \<open>2 ^ 64\<close>, and the one operation that could leave the range, a
  decrement at zero, is written out by \<open>size_dec\<close>.
\<close>

type_synonym Byte = "8 word"
type_synonym HalfWord = "16 word"
type_synonym Word = "32 word"
type_synonym Address = "32 word"
type_synonym InstructionBits = "32 word"
type_synonym RegisterIndex = "8 word"
type_synonym CycleCount = "64 word"
type_synonym RobIndex = "32 word"
type_synonym TagGeneration = "32 word"

definition size_dec :: "nat \<Rightarrow> nat" where
  "size_dec n = (if n = 0 then 2 ^ 64 - 1 else n - 1)"

lemma size_dec_pos [simp]: "0 < n \<Longrightarrow> size_dec n = n - 1"
  by (simp add: size_dec_def)

lemma size_dec_Suc [simp]: "size_dec (Suc n) = n"
  by (simp add: size_dec_def)

section \<open>Collections\<close>

text \<open>
  \<open>code_defs\<close> unfolds a component's operations, \<open>default_defs\<close> its value-initialised objects,
  \<open>inv_defs\<close> its invariants.
\<close>

named_theorems code_defs "definitions that translate the code"
named_theorems default_defs "value-initialised objects"
named_theorems inv_defs "invariants of the components"
named_theorems bit_access "the bits of the values the code computes"

section \<open>Lists\<close>

lemma map_update_nth:
  "i < length xs \<Longrightarrow> map f (xs[i := v]) = (map f xs)[i := f v]"
  by (simp add: map_update)

lemma filter_replicate_False:
  "\<not> P x \<Longrightarrow> filter P (replicate n x) = []"
  by (induction n) auto

section \<open>Schedules\<close>

text \<open>
  A phase of a cycle runs a list of modules in an order that the code shuffles.  When the steps
  of different modules commute, only the set of modules counts.
\<close>

lemma fold_schedule_perm:
  assumes "mset xs = mset ys"
    and "\<And>a b s. a \<in> set xs \<Longrightarrow> b \<in> set xs \<Longrightarrow> f a (f b s) = f b (f a s)"
  shows "fold f xs s = fold f ys s"
proof -
  have "fold f xs = fold f ys"
    by (rule fold_multiset_equiv) (use assms in \<open>auto simp: fun_eq_iff\<close>)
  then show ?thesis by simp
qed

section \<open>Words\<close>

lemma unat_less_2p_8 [simp]: "unat (r :: 8 word) < 256"
proof -
  have "unat r < 2 ^ LENGTH(8)" by (rule unsigned_less)
  then show ?thesis by simp
qed

lemma unat_less_2p_32 [simp]: "unat (r :: 32 word) < 4294967296"
proof -
  have "unat r < 2 ^ LENGTH(32)" by (rule unsigned_less)
  then show ?thesis by simp
qed

lemma word_and_mask_take_bit: "(x :: 'a::len word) AND mask n = take_bit n x"
  by (simp add: take_bit_eq_mask)

lemma unat_of_nat_32 [simp]: "n < 4294967296 \<Longrightarrow> unat (of_nat n :: 32 word) = n"
  by (simp add: unsigned_of_nat take_bit_nat_eq_self)

lemma and_0xff: "(x :: 'a::len word) AND 0xff = take_bit 8 x"
  by (simp add: take_bit_eq_mask mask_eq_exp_minus_1)

lemma and_0xffff: "(x :: 'a::len word) AND 0xffff = take_bit 16 x"
  by (simp add: take_bit_eq_mask mask_eq_exp_minus_1)

lemma bit_word_above: "LENGTH('a) \<le> n \<Longrightarrow> \<not> bit (w :: 'a::len word) n"
  using bit_imp_le_length [of w n] by auto

text \<open>Two words are equal when their 32 bits are, one by one: the positions are numerals.\<close>

lemma word_eq_32I:
  fixes a b :: "32 word"
  assumes "list_all (\<lambda>n. bit a n \<longleftrightarrow> bit b n)
      [0, 1, 2, 3, 4, 5, 6, 7, 8, 9, 10, 11, 12, 13, 14, 15, 16, 17, 18, 19, 20, 21,
       22, 23, 24, 25, 26, 27, 28, 29, 30, 31]"
  shows "a = b"
proof (rule bit_word_eqI)
  fix n :: nat assume "n < LENGTH(32)"
  then have "n \<in> {0..<32}" by simp
  also have "{0..<(32 :: nat)} = set
      [0, 1, 2, 3, 4, 5, 6, 7, 8, 9, 10, 11, 12, 13, 14, 15, 16, 17, 18, 19, 20, 21,
       22, 23, 24, 25, 26, 27, 28, 29, 30, 31]"
    by (simp add: atLeastLessThan_nat_numeral lessThan_atLeast0 [symmetric]) auto
  finally show "bit a n \<longleftrightarrow> bit b n"
    using assms unfolding list_all_iff by blast
qed

end
