(* ===== verification/Ring.thy ===== *)
theory Ring
  imports Prelude
begin

text \<open>
  The three circular buffers of the program (\<open>CircularQueue\<close>, the reorder buffer and the
  load/store queue) are an array with a head, a tail and a count.  \<open>ring_list\<close> reads the list of
  live elements out of such an array; the lemmas say what the array updates of the code do to it.
\<close>

definition ring_list :: "'a list \<Rightarrow> nat \<Rightarrow> nat \<Rightarrow> 'a list" where
  "ring_list xs h n = map (\<lambda>i. xs ! ((h + i) mod length xs)) [0..<n]"

lemma length_ring_list [simp]: "length (ring_list xs h n) = n"
  by (simp add: ring_list_def)

lemma ring_list_0 [simp]: "ring_list xs h 0 = []"
  by (simp add: ring_list_def)

lemma nth_ring_list [simp]: "i < n \<Longrightarrow> ring_list xs h n ! i = xs ! ((h + i) mod length xs)"
  by (simp add: ring_list_def)

lemma ring_list_eq_Nil [simp]: "ring_list xs h n = [] \<longleftrightarrow> n = 0"
  by (simp add: ring_list_def)

lemma ring_index_inj:
  assumes "(h + i) mod N = (h + j) mod N" and "i < N" and "j < (N :: nat)"
  shows "i = j"
proof -
  have "int N dvd (int h + int i) - (int h + int j)"
    using assms(1) by (metis mod_eq_dvd_iff of_nat_add of_nat_mod)
  then have "int N dvd int i - int j" by simp
  then have "int i mod int N = int j mod int N" by (simp add: mod_eq_dvd_iff)
  then show ?thesis using assms(2,3) by simp
qed

lemma ring_list_update:
  assumes "n \<le> length xs" and "i < n"
  shows "ring_list (xs[(h + i) mod length xs := v]) h n = (ring_list xs h n)[i := v]"
proof (rule nth_equalityI)
  fix j assume "j < length (ring_list (xs[(h + i) mod length xs := v]) h n)"
  then have j: "j < n" by simp
  have pos: "0 < length xs" using assms by linarith
  show "ring_list (xs[(h + i) mod length xs := v]) h n ! j = (ring_list xs h n)[i := v] ! j"
  proof (cases "i = j")
    case True
    with j pos show ?thesis by simp
  next
    case False
    then have "(h + i) mod length xs \<noteq> (h + j) mod length xs"
      using ring_index_inj assms j by (metis order_less_le_trans)
    with False j show ?thesis by simp
  qed
qed simp

lemma ring_list_update_other:
  assumes "\<And>i. i < n \<Longrightarrow> (h + i) mod length xs \<noteq> k"
  shows "ring_list (xs[k := v]) h n = ring_list xs h n"
proof (rule nth_equalityI)
  fix j assume "j < length (ring_list (xs[k := v]) h n)"
  then have j: "j < n" by simp
  with assms [OF this] show "ring_list (xs[k := v]) h n ! j = ring_list xs h n ! j" by simp
qed simp

lemma ring_list_push:
  assumes "n < length xs" and "t = (h + n) mod length xs"
  shows "ring_list (xs[t := v]) h (Suc n) = ring_list xs h n @ [v]"
proof (rule nth_equalityI)
  fix j assume "j < length (ring_list (xs[t := v]) h (Suc n))"
  then have j: "j < Suc n" by simp
  have pos: "0 < length xs" using assms by linarith
  show "ring_list (xs[t := v]) h (Suc n) ! j = (ring_list xs h n @ [v]) ! j"
  proof (cases "j = n")
    case True
    with pos show ?thesis by (simp add: assms(2) nth_append)
  next
    case False
    with j have jn: "j < n" by simp
    then have "t \<noteq> (h + j) mod length xs"
      using ring_index_inj [of h n "length xs" j] assms by auto
    with jn show ?thesis by (simp add: nth_append)
  qed
qed simp

lemma ring_list_pop:
  assumes "0 < n" and "0 < length xs"
  shows "ring_list xs ((h + 1) mod length xs) (n - 1) = tl (ring_list xs h n)"
  by (rule nth_equalityI) (use assms in \<open>auto simp: nth_tl mod_add_left_eq\<close>)

lemma hd_ring_list:
  "0 < n \<Longrightarrow> h < length xs \<Longrightarrow> hd (ring_list xs h n) = xs ! h"
  by (subst hd_conv_nth) auto

lemma ring_list_Suc:
  assumes "h < length xs"
  shows "ring_list xs h (Suc n) = xs ! h # ring_list xs ((h + 1) mod length xs) n"
proof -
  have pos: "0 < length xs" using assms by linarith
  have "ring_list xs h (Suc n) = hd (ring_list xs h (Suc n)) # tl (ring_list xs h (Suc n))"
    by (metis length_ring_list length_0_conv list.collapse nat.distinct(1))
  then show ?thesis
    using ring_list_pop [of "Suc n" xs h] hd_ring_list [of "Suc n" h xs] assms pos by simp
qed

lemma ring_list_map:
  assumes "0 < length xs"
  shows "ring_list (map f xs) h n = map f (ring_list xs h n)"
  by (rule nth_equalityI) (use assms in auto)

lemma ring_list_cong:
  assumes "length xs = length ys"
    and "\<And>i. i < n \<Longrightarrow> xs ! ((h + i) mod length ys) = ys ! ((h + i) mod length ys)"
  shows "ring_list xs h n = ring_list ys h n"
  by (rule nth_equalityI) (use assms in auto)

lemma in_set_ring_list:
  "x \<in> set (ring_list xs h n) \<longleftrightarrow> (\<exists>i < n. x = xs ! ((h + i) mod length xs))"
  by (auto simp: in_set_conv_nth)

lemma ring_tail_pop:
  assumes "h < N" and "0 < n"
  shows "((h + 1) mod N + (n - 1)) mod N = (h + n) mod (N :: nat)"
  using assms by (metis (no_types, lifting) One_nat_def Suc_pred' add.assoc add.commute
      mod_add_left_eq plus_1_eq_Suc)

section \<open>Positions in use\<close>

text \<open>
  The buffers that clear the slots they free keep every slot outside the ring at a default
  element; \<open>ring_ok\<close> says so, and states a condition on the elements inside that may depend on
  their position.
\<close>

lemma nth_update_cases: "xs[k := v] ! i = (if i = k \<and> i < length xs then v else xs ! i)"
  by (cases "k < length xs") (auto simp: nth_list_update list_update_beyond)

definition in_ring :: "nat \<Rightarrow> nat \<Rightarrow> nat \<Rightarrow> nat \<Rightarrow> bool" where
  "in_ring N h n i \<longleftrightarrow> (\<exists>k < n. i = (h + k) mod N)"

lemma in_ring_pop:
  assumes "0 < n" and "n \<le> N" and "i < N" and "h < N"
  shows "in_ring N ((h + 1) mod N) (n - 1) i \<longleftrightarrow> in_ring N h n i \<and> i \<noteq> h"
proof
  assume "in_ring N ((h + 1) mod N) (n - 1) i"
  then obtain k where k: "k < n - 1" "i = ((h + 1) mod N + k) mod N"
    by (auto simp: in_ring_def)
  then have i: "i = (h + Suc k) mod N" by (simp add: mod_add_left_eq)
  moreover have "i \<noteq> h"
  proof
    assume "i = h"
    then have "(h + Suc k) mod N = (h + 0) mod N" using i assms(4) by simp
    moreover have "Suc k < N" "0 < N" using k(1) assms(1,2) by linarith+
    ultimately have "Suc k = 0" by (rule ring_index_inj)
    then show False by simp
  qed
  ultimately show "in_ring N h n i \<and> i \<noteq> h"
    using k by (auto simp: in_ring_def intro: exI [of _ "Suc k"])
next
  assume a: "in_ring N h n i \<and> i \<noteq> h"
  then obtain k where k: "k < n" "i = (h + k) mod N" by (auto simp: in_ring_def)
  have "k \<noteq> 0"
  proof
    assume "k = 0"
    then have "i = h" using k(2) assms(4) by simp
    then show False using a by simp
  qed
  then obtain j where j: "k = Suc j" by (cases k) auto
  then show "in_ring N ((h + 1) mod N) (n - 1) i"
    using k by (auto simp: in_ring_def mod_add_left_eq intro!: exI [of _ j])
qed

lemma in_ring_push: "in_ring N h (Suc n) i \<longleftrightarrow> in_ring N h n i \<or> i = (h + n) mod N"
  by (auto simp: in_ring_def less_Suc_eq)

lemma next_not_in_ring:
  assumes "n < N"
  shows "\<not> in_ring N h n ((h + n) mod N)"
proof
  assume "in_ring N h n ((h + n) mod N)"
  then obtain k where k: "k < n" "(h + n) mod N = (h + k) mod N" by (auto simp: in_ring_def)
  have "n = k" using assms k(1) by (intro ring_index_inj [OF k(2)]) auto
  then show False using k(1) by simp
qed

definition ring_ok :: "(nat \<Rightarrow> 'a \<Rightarrow> bool) \<Rightarrow> 'a \<Rightarrow> 'a list \<Rightarrow> nat \<Rightarrow> nat \<Rightarrow> bool" where
  "ring_ok ok d xs h n \<longleftrightarrow>
     h < length xs \<and> n \<le> length xs
     \<and> (\<forall>i < length xs. if in_ring (length xs) h n i then ok i (xs ! i) else xs ! i = d)"

lemma ring_ok_nth:
  assumes "ring_ok ok d xs h n" and "k < n"
  shows "ok ((h + k) mod length xs) (ring_list xs h n ! k)"
proof -
  have "in_ring (length xs) h n ((h + k) mod length xs)"
    using assms(2) by (auto simp: in_ring_def)
  moreover have "(h + k) mod length xs < length xs"
    using assms(1) by (auto simp: ring_ok_def intro: mod_less_divisor)
  ultimately show ?thesis using assms by (auto simp: ring_ok_def)
qed

lemma ring_ok_map:
  assumes "ring_ok ok d xs h n" and "\<And>i x. ok i x \<Longrightarrow> ok' i (f x)" and "f d = d"
  shows "ring_ok ok' d (map f xs) h n"
    and "ring_list (map f xs) h n = map f (ring_list xs h n)"
proof -
  show "ring_ok ok' d (map f xs) h n"
    using assms by (auto simp: ring_ok_def)
  show "ring_list (map f xs) h n = map f (ring_list xs h n)"
    using assms(1) by (intro ring_list_map) (auto simp: ring_ok_def)
qed

lemma ring_ok_clear: "h < N \<Longrightarrow> ring_ok ok d (replicate N d) h 0"
  by (simp add: ring_ok_def in_ring_def)

lemma ring_ok_update:
  assumes "ring_ok ok d xs h n" and "k < n" and "ok ((h + k) mod length xs) v"
  shows "ring_ok ok d (xs[(h + k) mod length xs := v]) h n"
    and "ring_list (xs[(h + k) mod length xs := v]) h n = (ring_list xs h n)[k := v]"
proof -
  have "in_ring (length xs) h n ((h + k) mod length xs)"
    using assms(2) by (auto simp: in_ring_def)
  then show "ring_ok ok d (xs[(h + k) mod length xs := v]) h n"
    using assms by (auto simp: ring_ok_def nth_update_cases)
  show "ring_list (xs[(h + k) mod length xs := v]) h n = (ring_list xs h n)[k := v]"
    using assms by (intro ring_list_update) (auto simp: ring_ok_def)
qed

lemma ring_ok_pop:
  assumes "ring_ok ok d xs h n" and "0 < n"
  shows "ring_ok ok d (xs[h := d]) ((h + 1) mod length xs) (n - 1)"
    and "ring_list (xs[h := d]) ((h + 1) mod length xs) (n - 1) = tl (ring_list xs h n)"
proof -
  let ?N = "length xs"
  have h: "h < ?N" and n: "n \<le> ?N" using assms by (auto simp: ring_ok_def)
  show "ring_ok ok d (xs[h := d]) ((h + 1) mod ?N) (n - 1)"
    unfolding ring_ok_def length_list_update
  proof (intro conjI allI impI)
    fix i assume i: "i < ?N"
    show "if in_ring ?N ((h + 1) mod ?N) (n - 1) i then ok i (xs[h := d] ! i) else xs[h := d] ! i = d"
      using assms(1) i unfolding in_ring_pop [OF assms(2) n i h] ring_ok_def
      by (auto simp: nth_update_cases)
  qed (use h n in \<open>auto intro: mod_less_divisor\<close>)
  have "(((h + 1) mod ?N) + i) mod ?N \<noteq> h" if "i < n - 1" for i
    using in_ring_pop [OF assms(2) n h h] that by (auto simp: in_ring_def)
  then have "ring_list (xs[h := d]) ((h + 1) mod ?N) (n - 1) = ring_list xs ((h + 1) mod ?N) (n - 1)"
    by (intro ring_list_update_other) simp
  also have "\<dots> = tl (ring_list xs h n)"
    using h by (intro ring_list_pop assms(2)) linarith
  finally show "ring_list (xs[h := d]) ((h + 1) mod ?N) (n - 1) = tl (ring_list xs h n)" .
qed

lemma ring_ok_push:
  assumes "ring_ok ok d xs h n" and "n < length xs" and "t = (h + n) mod length xs"
    and "\<And>i x. i \<noteq> t \<Longrightarrow> ok i x \<Longrightarrow> ok' i x" and "ok' t v"
  shows "ring_ok ok' d (xs[t := v]) h (Suc n)"
    and "ring_list (xs[t := v]) h (Suc n) = ring_list xs h n @ [v]"
proof -
  have out: "\<not> in_ring (length xs) h n t"
    using next_not_in_ring [OF assms(2)] by (simp add: assms(3))
  show "ring_ok ok' d (xs[t := v]) h (Suc n)"
    using assms(1,2,4,5) out
    by (auto simp: ring_ok_def in_ring_push assms(3) [symmetric] nth_update_cases)
  show "ring_list (xs[t := v]) h (Suc n) = ring_list xs h n @ [v]"
    by (rule ring_list_push [OF assms(2,3)])
qed

end
