(* ===== verification/CircularQueue.thy ===== *)
theory CircularQueue
  imports Ring
begin

text \<open>
  \<open>common/circular_queue.hpp\<close>: a bounded first-in first-out queue on an array.  The template
  parameter \<open>Capacity\<close> is the length of the array; \<open>head\<close> and \<open>tail\<close>, which the code keeps in
  \<open>int\<close>, stay below it.  An assertion that fails is \<open>None\<close>.
\<close>

section \<open>Model\<close>

record 'a CircularQueue =
  storage :: "'a list"
  q_head :: nat
  q_tail :: nat
  q_size :: nat

definition queue_new :: "'a \<Rightarrow> nat \<Rightarrow> 'a CircularQueue" where
  "queue_new dflt Capacity =
     \<lparr>storage = replicate Capacity dflt, q_head = 0, q_tail = 0, q_size = 0\<rparr>"

definition queue_capacity :: "'a CircularQueue \<Rightarrow> nat" where
  "queue_capacity q = length (storage q)"

definition queue_empty :: "'a CircularQueue \<Rightarrow> bool" where
  "queue_empty q \<longleftrightarrow> q_size q = 0"

definition queue_full :: "'a CircularQueue \<Rightarrow> bool" where
  "queue_full q \<longleftrightarrow> q_size q = queue_capacity q"

definition queue_front :: "'a CircularQueue \<Rightarrow> 'a option" where
  "queue_front q = (if queue_empty q then None else Some (storage q ! q_head q))"

definition queue_back :: "'a CircularQueue \<Rightarrow> 'a option" where
  "queue_back q =
     (if queue_empty q then None
      else Some (storage q ! ((q_tail q + queue_capacity q - 1) mod queue_capacity q)))"

definition queue_push :: "'a \<Rightarrow> 'a CircularQueue \<Rightarrow> 'a CircularQueue \<times> bool" where
  "queue_push v q =
     (if queue_full q then (q, False)
      else (q\<lparr>storage := (storage q)[q_tail q := v],
              q_tail := (q_tail q + 1) mod queue_capacity q,
              q_size := q_size q + 1\<rparr>, True))"

definition queue_pop :: "'a CircularQueue \<Rightarrow> 'a CircularQueue \<times> bool" where
  "queue_pop q =
     (if queue_empty q then (q, False)
      else (q\<lparr>q_head := (q_head q + 1) mod queue_capacity q,
              q_size := size_dec (q_size q)\<rparr>, True))"

definition queue_clear :: "'a CircularQueue \<Rightarrow> 'a CircularQueue" where
  "queue_clear q = q\<lparr>q_head := 0, q_tail := 0, q_size := 0\<rparr>"

section \<open>The contract of a bounded queue\<close>

locale bounded_fifo =
  fixes capacity :: "'q \<Rightarrow> nat"
    and contents :: "'q \<Rightarrow> 'a list"
    and invar :: "'q \<Rightarrow> bool"
    and push :: "'a \<Rightarrow> 'q \<Rightarrow> 'q \<times> bool"
    and pop :: "'q \<Rightarrow> 'q \<times> bool"
    and front :: "'q \<Rightarrow> 'a option"
  assumes contents_bound: "invar q \<Longrightarrow> length (contents q) \<le> capacity q"
    and push_room: "invar q \<Longrightarrow> length (contents q) < capacity q \<Longrightarrow>
          contents (fst (push v q)) = contents q @ [v] \<and> snd (push v q)"
    and push_full: "invar q \<Longrightarrow> length (contents q) = capacity q \<Longrightarrow> push v q = (q, False)"
    and pop_some: "invar q \<Longrightarrow> contents q = x # xs \<Longrightarrow>
          contents (fst (pop q)) = xs \<and> snd (pop q)"
    and pop_none: "invar q \<Longrightarrow> contents q = [] \<Longrightarrow> pop q = (q, False)"
    and front_contents: "invar q \<Longrightarrow>
          front q = (case contents q of [] \<Rightarrow> None | x # _ \<Rightarrow> Some x)"
    and push_invar: "invar q \<Longrightarrow> invar (fst (push v q))"
    and pop_invar: "invar q \<Longrightarrow> invar (fst (pop q))"
    and push_capacity: "capacity (fst (push v q)) = capacity q"
    and pop_capacity: "capacity (fst (pop q)) = capacity q"
begin

text \<open>A burst of pushes that fits is accepted whole, in order.\<close>

lemma push_all:
  "invar q \<Longrightarrow> length (contents q) + length vs \<le> capacity q \<Longrightarrow>
   invar (fold (\<lambda>v q. fst (push v q)) vs q)
   \<and> contents (fold (\<lambda>v q. fst (push v q)) vs q) = contents q @ vs
   \<and> capacity (fold (\<lambda>v q. fst (push v q)) vs q) = capacity q"
proof (induction vs arbitrary: q)
  case Nil
  then show ?case by simp
next
  case (Cons v vs)
  from Cons.prems have room: "length (contents q) < capacity q" by simp
  have q': "invar (fst (push v q))" "contents (fst (push v q)) = contents q @ [v]"
    "capacity (fst (push v q)) = capacity q"
    using push_invar push_room push_capacity Cons.prems room by auto
  show ?case using Cons.IH [OF q'(1)] Cons.prems(2) q' by simp
qed

text \<open>Popping a full drain gives back the elements in the order of their arrival.\<close>

fun drain :: "nat \<Rightarrow> 'q \<Rightarrow> 'a list" where
  "drain 0 q = []"
| "drain (Suc n) q = (case front q of None \<Rightarrow> [] | Some x \<Rightarrow> x # drain n (fst (pop q)))"

lemma drain_contents:
  "invar q \<Longrightarrow> length (contents q) \<le> n \<Longrightarrow> drain n q = contents q"
proof (induction n arbitrary: q)
  case 0
  then show ?case by simp
next
  case (Suc n)
  show ?case
  proof (cases "contents q")
    case Nil
    then show ?thesis using front_contents [OF Suc.prems(1)] by simp
  next
    case (Cons x xs)
    have "contents (fst (pop q)) = xs" using pop_some [OF Suc.prems(1) Cons] by simp
    moreover have "drain n (fst (pop q)) = contents (fst (pop q))"
      by (rule Suc.IH) (use Suc.prems Cons pop_invar pop_some [OF Suc.prems(1) Cons] in auto)
    ultimately show ?thesis using front_contents [OF Suc.prems(1)] Cons by simp
  qed
qed

lemma drain_push_all:
  assumes "invar q" and "contents q = []" and "length vs \<le> capacity q"
  shows "drain (length vs) (fold (\<lambda>v q. fst (push v q)) vs q) = vs"
  using drain_contents [of "fold (\<lambda>v q. fst (push v q)) vs q" "length vs"] push_all [of q vs] assms
  by simp

end

section \<open>The ring implements it\<close>

definition queue_contents :: "'a CircularQueue \<Rightarrow> 'a list" where
  "queue_contents q = ring_list (storage q) (q_head q) (q_size q)"

definition queue_invar :: "'a CircularQueue \<Rightarrow> bool" where
  "queue_invar q \<longleftrightarrow>
     q_head q < length (storage q) \<and> q_size q \<le> length (storage q)
     \<and> q_tail q = (q_head q + q_size q) mod length (storage q)"

lemmas queue_defs = queue_capacity_def queue_empty_def queue_full_def queue_front_def
  queue_back_def queue_push_def queue_pop_def queue_clear_def

lemma queue_push_contents:
  "queue_invar q \<Longrightarrow> q_size q < length (storage q) \<Longrightarrow>
   queue_contents (fst (queue_push v q)) = queue_contents q @ [v]"
  by (simp add: queue_defs queue_contents_def queue_invar_def ring_list_push)

lemma queue_pop_contents:
  assumes "queue_invar q" and "0 < q_size q"
  shows "queue_contents (fst (queue_pop q)) = tl (queue_contents q)"
proof -
  have "0 < length (storage q)" using assms by (auto simp: queue_invar_def)
  with ring_list_pop [OF assms(2) this, of "q_head q"] assms show ?thesis
    by (simp add: queue_defs queue_contents_def)
qed

lemma queue_push_invar: "queue_invar q \<Longrightarrow> queue_invar (fst (queue_push v q))"
  by (auto simp: queue_defs queue_invar_def mod_Suc_eq)

lemma queue_pop_invar: "queue_invar q \<Longrightarrow> queue_invar (fst (queue_pop q))"
  using ring_tail_pop [of "q_head q" "length (storage q)" "q_size q"]
  by (auto simp: queue_defs queue_invar_def intro: mod_less_divisor order.strict_trans1)

lemma queue_contents_empty: "queue_invar q \<Longrightarrow> queue_contents q = [] \<longleftrightarrow> q_size q = 0"
  by (simp add: queue_contents_def)

lemma queue_contents_Cons:
  "queue_invar q \<Longrightarrow> queue_contents q = x # xs \<Longrightarrow>
   0 < q_size q \<and> storage q ! q_head q = x"
  using hd_ring_list [of "q_size q" "q_head q" "storage q"]
  by (cases "q_size q") (auto simp: queue_contents_def queue_invar_def)

interpretation cq: bounded_fifo queue_capacity queue_contents queue_invar queue_push queue_pop
  queue_front
proof (unfold_locales, goal_cases)
  case (1 q)
  then show ?case by (simp add: queue_contents_def queue_invar_def queue_capacity_def)
next
  case (2 q v)
  then show ?case
    using queue_push_contents [of q v] by (simp add: queue_contents_def queue_defs)
next
  case (3 q v)
  then show ?case by (simp add: queue_contents_def queue_defs)
next
  case (4 q x xs)
  then show ?case
    using queue_pop_contents [of q] queue_contents_Cons [of q x xs] by (simp add: queue_defs)
next
  case (5 q)
  then show ?case by (simp add: queue_contents_def queue_defs)
next
  case (6 q)
  then show ?case
    using queue_contents_Cons [of q] queue_contents_empty [of q]
    by (auto simp: queue_front_def queue_empty_def split: list.splits)
next
  case (7 q v)
  then show ?case by (rule queue_push_invar)
next
  case (8 q)
  then show ?case by (rule queue_pop_invar)
next
  case (9 v q)
  then show ?case by (simp add: queue_defs)
next
  case (10 q)
  then show ?case by (simp add: queue_defs)
qed

section \<open>Any sequence of operations\<close>

text \<open>
  The specification of the queue: a list that is never longer than its bound.  Every answer of the
  ring, in whatever order the operations come, is the answer of the list.
\<close>

datatype 'a queue_op = Push 'a | Pop | Front | Back | Clear

datatype 'a queue_answer = Flag bool | Element "'a option" | Done

fun queue_do :: "'a queue_op \<Rightarrow> 'a CircularQueue \<Rightarrow> 'a CircularQueue \<times> 'a queue_answer" where
  "queue_do (Push v) q = (case queue_push v q of (q', b) \<Rightarrow> (q', Flag b))"
| "queue_do Pop q = (case queue_pop q of (q', b) \<Rightarrow> (q', Flag b))"
| "queue_do Front q = (q, Element (queue_front q))"
| "queue_do Back q = (q, Element (queue_back q))"
| "queue_do Clear q = (queue_clear q, Done)"

fun list_do :: "nat \<Rightarrow> 'a queue_op \<Rightarrow> 'a list \<Rightarrow> 'a list \<times> 'a queue_answer" where
  "list_do n (Push v) xs = (if length xs = n then (xs, Flag False) else (xs @ [v], Flag True))"
| "list_do n Pop xs = (case xs of [] \<Rightarrow> ([], Flag False) | _ # ys \<Rightarrow> (ys, Flag True))"
| "list_do n Front xs = (xs, Element (case xs of [] \<Rightarrow> None | x # _ \<Rightarrow> Some x))"
| "list_do n Back xs = (xs, Element (if xs = [] then None else Some (last xs)))"
| "list_do n Clear xs = ([], Done)"

fun answers :: "('o \<Rightarrow> 's \<Rightarrow> 's \<times> 'b) \<Rightarrow> 'o list \<Rightarrow> 's \<Rightarrow> 'b list" where
  "answers f [] s = []"
| "answers f (a # as) s = (case f a s of (s', b) \<Rightarrow> b # answers f as s')"

lemma queue_back_contents:
  assumes "queue_invar q"
  shows "queue_back q = (if queue_contents q = [] then None else Some (last (queue_contents q)))"
proof (cases "q_size q")
  case 0
  then show ?thesis by (simp add: queue_defs queue_contents_def)
next
  case (Suc n)
  let ?N = "length (storage q)"
  have N: "0 < ?N" using assms by (auto simp: queue_invar_def)
  have "(q_tail q + ?N - 1) mod ?N = ((q_head q + Suc n) mod ?N + (?N - 1)) mod ?N"
    using N assms Suc by (simp add: queue_invar_def)
  also have "\<dots> = (q_head q + n) mod ?N"
  proof -
    have "((q_head q + Suc n) mod ?N + (?N - 1)) mod ?N = (q_head q + Suc n + (?N - 1)) mod ?N"
      by (rule mod_add_left_eq)
    also have "q_head q + Suc n + (?N - 1) = q_head q + n + ?N" using N by simp
    finally show ?thesis by simp
  qed
  finally show ?thesis
    using Suc by (simp add: queue_defs queue_contents_def last_conv_nth)
qed

lemma queue_clear_contents:
  assumes "queue_invar q"
  shows "queue_invar (queue_clear q)" "queue_contents (queue_clear q) = []"
    "length (storage (queue_clear q)) = length (storage q)"
  using assms by (auto simp: queue_clear_def queue_invar_def queue_contents_def)

lemma queue_do_list:
  assumes "queue_invar q"
  shows "queue_invar (fst (queue_do a q))"
    and "length (storage (fst (queue_do a q))) = length (storage q)"
    and "list_do (length (storage q)) a (queue_contents q)
       = (queue_contents (fst (queue_do a q)), snd (queue_do a q))"
proof -
  note laws = cq.push_full [OF assms] cq.push_room [OF assms] cq.pop_some [OF assms]
    cq.pop_none [OF assms] cq.front_contents [OF assms] cq.contents_bound [OF assms]
  have cap: "queue_capacity q = length (storage q)" by (simp add: queue_capacity_def)
  show "queue_invar (fst (queue_do a q))"
    using queue_push_invar [OF assms] queue_pop_invar [OF assms] queue_clear_contents(1) [OF assms]
    by (cases a) (simp_all add: assms case_prod_beta)
  show "length (storage (fst (queue_do a q))) = length (storage q)"
    by (cases a) (auto simp: queue_defs case_prod_beta)
  show "list_do (length (storage q)) a (queue_contents q)
       = (queue_contents (fst (queue_do a q)), snd (queue_do a q))"
  proof (cases a)
    case (Push v)
    then show ?thesis
      using laws(1,2) [of v] laws(6)
      by (cases "length (queue_contents q) = length (storage q)") (auto simp: cap case_prod_beta)
  next
    case Pop
    then show ?thesis
      using laws(3,4) by (cases "queue_contents q") (auto simp: case_prod_beta)
  next
    case Front
    then show ?thesis using laws(5) by simp
  next
    case Back
    then show ?thesis using queue_back_contents [OF assms] by simp
  next
    case Clear
    then show ?thesis using queue_clear_contents [OF assms] by simp
  qed
qed

lemma answers_queue:
  "queue_invar q \<Longrightarrow> answers queue_do as q = answers (list_do (length (storage q))) as (queue_contents q)"
proof (induction as arbitrary: q)
  case (Cons a as)
  then show ?case
    using queue_do_list [OF Cons.prems, of a] by (simp add: case_prod_beta)
qed simp

text \<open>C40: the circular queue is a bounded list: whatever operations are called in whatever order
  on a new queue of positive capacity, every answer (accepted or refused, the element at the
  front or at the back) is that of a list that refuses to grow beyond the capacity.\<close>

theorem queue_refines_list:
  assumes "0 < N"
  shows "answers queue_do as (queue_new d N) = answers (list_do N) as []"
  using answers_queue [of "queue_new d N" as] assms
  by (simp add: queue_new_def queue_invar_def queue_contents_def)

theorem queue_refines_list_witness:
  "answers queue_do [Push 1, Push 2, Push 3, Back, Pop, Push 4, Front, Pop, Pop, Pop] (queue_new (0 :: int) 2)
   = [Flag True, Flag True, Flag False, Element (Some 2), Flag True, Flag True, Element (Some 2),
      Flag True, Flag True, Flag False]"
  using queue_refines_list [of 2 "[Push 1, Push 2, Push 3, Back, Pop, Push 4, Front, Pop, Pop, Pop]" "0 :: int"]
  by simp

end
