(* ===== verification/Types.thy ===== *)
theory Types
  imports Prelude
begin

text \<open>
  \<open>common/types.hpp\<close> and \<open>common/config.hpp\<close>: the tags of reorder buffer slots, the memory
  size, and the bit helpers of the decoder and the load path.
\<close>

section \<open>Constants\<close>

definition kMemorySize :: nat where
  "kMemorySize = 2 ^ 20"

definition kInstructionWidth :: nat where
  "kInstructionWidth = 4"

definition kMemoryAddressLimit :: nat where
  "kMemoryAddressLimit = unat (of_nat kMemorySize :: Address)"

lemma kMemorySize_val [simp]: "kMemorySize = 1048576"
  by (simp add: kMemorySize_def)

lemma kMemoryAddressLimit_val: "kMemoryAddressLimit = kMemorySize"
  by (simp add: kMemoryAddressLimit_def)

section \<open>Reorder buffer tags\<close>

record RobTag =
  tag_index :: RobIndex
  tag_generation :: TagGeneration
  tag_valid :: bool

definition no_tag :: RobTag where
  "no_tag = \<lparr>tag_index = 0, tag_generation = 0, tag_valid = False\<rparr>"

definition RobTag_eq :: "RobTag \<Rightarrow> RobTag \<Rightarrow> bool" where
  "RobTag_eq lhs rhs \<longleftrightarrow>
     tag_index lhs = tag_index rhs
     \<and> tag_generation lhs = tag_generation rhs
     \<and> tag_valid lhs = tag_valid rhs"

lemma RobTag_eq_iff [simp]: "RobTag_eq a b \<longleftrightarrow> a = b"
  by (cases a; cases b) (auto simp: RobTag_eq_def)

lemma no_tag_invalid [simp]: "\<not> tag_valid no_tag"
  by (simp add: no_tag_def)

section \<open>Bit helpers\<close>

text \<open>\<open>unsigned\<close> widths and positions are \<open>nat\<close>; a shift by 32 or more never happens.\<close>

definition bit_mask :: "nat \<Rightarrow> Word" where
  "bit_mask bit_width =
     (if bit_width = 0 then 0
      else if bit_width \<ge> 32 then 0xffffffff
      else push_bit bit_width 1 - 1)"

definition get_bit :: "Word \<Rightarrow> nat \<Rightarrow> bool" where
  "get_bit v position \<longleftrightarrow> position < 32 \<and> (drop_bit position v AND 1) \<noteq> 0"

definition extract_bits :: "Word \<Rightarrow> nat \<Rightarrow> nat \<Rightarrow> Word" where
  "extract_bits v high low =
     (if low \<ge> 32 \<or> high < low then 0
      else
        let bounded_high = (if high < 32 then high else 31);
            width = bounded_high - low + 1
        in drop_bit low v AND bit_mask width)"

definition sign_extend :: "Word \<Rightarrow> nat \<Rightarrow> Word" where
  "sign_extend v bit_width =
     (if bit_width = 0 then 0
      else if bit_width \<ge> 32 then v
      else
        let narrowed = v AND bit_mask bit_width;
            sign_bit = push_bit (bit_width - 1) 1
        in if narrowed AND sign_bit \<noteq> 0 then narrowed OR NOT (bit_mask bit_width) else narrowed)"

definition zero_extend :: "Word \<Rightarrow> nat \<Rightarrow> Word" where
  "zero_extend v bit_width = v AND bit_mask bit_width"

subsection \<open>What they compute\<close>

lemma bit_mask_eq_mask: "bit_mask n = mask n"
proof (cases "n < 32")
  case True
  then show ?thesis by (auto simp: bit_mask_def mask_eq_exp_minus_1 push_bit_eq_mult)
next
  case False
  have "(mask n :: Word) = mask 32"
    using False by (intro bit_word_eqI) (auto simp: bit_simps)
  with False show ?thesis by (simp add: bit_mask_def mask_eq_exp_minus_1)
qed

lemma get_bit_iff [bit_access]: "get_bit v n \<longleftrightarrow> bit v n"
proof -
  have "(drop_bit n v AND 1) \<noteq> 0 \<longleftrightarrow> bit v n"
    by (simp add: and_one_eq bit_iff_odd_drop_bit odd_iff_mod_2_eq_one)
  then show ?thesis by (auto simp: get_bit_def dest: bit_imp_le_length)
qed

lemma bit_extract_bits [bit_access]:
  "bit (extract_bits v high low) n \<longleftrightarrow> low + n \<le> high \<and> bit v (low + n)"
proof -
  have b: "bit v (low + n) \<Longrightarrow> low + n < 32"
    using bit_imp_le_length [of v "low + n"] by simp
  show ?thesis
    using b by (auto simp: extract_bits_def bit_mask_eq_mask Let_def bit_simps)
qed

lemma extract_bits_take_drop:
  "low \<le> high \<Longrightarrow> extract_bits v high low = take_bit (Suc high - low) (drop_bit low v)"
  by (rule bit_word_eqI) (auto simp: bit_access bit_simps)

lemma sign_extend_signed_take_bit_Suc: "sign_extend v (Suc m) = signed_take_bit m v"
proof (cases "m < 31")
  case True
  have sb: "(v AND bit_mask (Suc m)) AND push_bit m 1 = (if bit v m then push_bit m 1 else 0)"
    by (rule bit_word_eqI) (use True in \<open>auto simp: bit_mask_eq_mask bit_simps\<close>)
  have nz: "push_bit m (1 :: Word) \<noteq> 0"
  proof -
    have "bit (push_bit m (1 :: Word)) m"
      unfolding bit_push_bit_iff using True by simp
    then show ?thesis by (metis bit_0_eq bot_apply bot_bool_def)
  qed
  have "sign_extend v (Suc m) =
      (if bit v m then (v AND mask (Suc m)) OR NOT (mask (Suc m)) else v AND mask (Suc m))"
    using True sb nz by (simp add: sign_extend_def bit_mask_eq_mask Let_def)
  also have "\<dots> = signed_take_bit m v"
    by (rule bit_word_eqI) (use True in \<open>auto simp: bit_simps min_def less_Suc_eq not_less\<close>)
  finally show ?thesis .
next
  case False
  have "min m n = n" if "n < 32" for n
    using that False by simp
  then have "signed_take_bit m v = v"
    by (intro bit_word_eqI) (simp add: bit_signed_take_bit_iff)
  with False show ?thesis by (simp add: sign_extend_def)
qed

lemma sign_extend_signed_take_bit:
  "0 < n \<Longrightarrow> sign_extend v n = signed_take_bit (n - 1) v"
  using sign_extend_signed_take_bit_Suc [of v "n - 1"] by simp

lemma bit_sign_extend [bit_access]:
  "0 < n \<Longrightarrow> bit (sign_extend v n) i \<longleftrightarrow> i < 32 \<and> bit v (min i (n - 1))"
  by (auto simp: sign_extend_signed_take_bit bit_simps min.commute)

lemma zero_extend_take_bit: "zero_extend v n = take_bit n v"
  by (simp add: zero_extend_def bit_mask_eq_mask take_bit_eq_mask)

lemma bit_zero_extend [bit_access]: "bit (zero_extend v n) i \<longleftrightarrow> i < n \<and> bit v i"
  by (simp add: zero_extend_take_bit bit_take_bit_iff)

section \<open>Property\<close>

lemma signed_take_bit_value:
  "signed_take_bit m (u :: int) =
     (let r = u mod 2 ^ Suc m in if r < 2 ^ m then r else r - 2 ^ Suc m)"
proof -
  have t: "take_bit (Suc m) u = 2 ^ m * of_bool (bit u m) + take_bit m u"
    by (simp add: take_bit_Suc_from_most)
  have b: "0 \<le> take_bit m u" "take_bit m u < 2 ^ m" by simp_all
  have "bit u m \<longleftrightarrow> \<not> take_bit (Suc m) u < 2 ^ m"
    using b by (cases "bit u m") (simp_all add: t)
  then show ?thesis
    by (simp add: signed_take_bit_eq_take_bit_minus take_bit_eq_mod [symmetric] Let_def
        del: power_Suc)
qed

lemma sint_signed_take_bit:
  "m < 32 \<Longrightarrow> sint (signed_take_bit m (v :: Word)) = signed_take_bit m (uint v)"
  by (rule bit_eqI) (auto simp: bit_simps min_def not_le)

text \<open>\<open>sign_extend\<close> reads the low bits as a two's complement number: its signed value is the
  field's value, minus \<open>2 ^ n\<close> when the top bit of the field is set, for every width of the code.\<close>

theorem sign_extend_value:
  assumes "0 < n" and "n \<le> 32"
  shows "sint (sign_extend v n) =
     (let u = uint v mod 2 ^ n in if u < 2 ^ (n - 1) then u else u - 2 ^ n)"
  using assms
  by (cases n)
     (simp_all add: sign_extend_signed_take_bit_Suc sint_signed_take_bit signed_take_bit_value
       Let_def del: power_Suc)

theorem sign_extend_value_witness:
  "sint (sign_extend 0xabcff 8) =
     (let u = uint (0xabcff :: Word) mod 2 ^ 8 in if u < 2 ^ (8 - 1) then u else u - 2 ^ 8)"
  by (rule sign_extend_value) simp_all

end
