(* ===== verification/Instruction.thy ===== *)
theory Instruction
  imports Types
begin

text \<open>
  \<open>isa/instruction.hpp\<close>: the operations, the operand sources and the decoded form of an
  instruction.  A constructor \<open>OP_X\<close> is \<open>OP::X\<close> of the code.
\<close>

datatype OP =
    OP_LUI | OP_AUIPC | OP_ADDI | OP_SLTI | OP_SLTIU | OP_XORI | OP_ORI | OP_ANDI |
    OP_SLLI | OP_SRLI | OP_SRAI | OP_JALR | OP_LB | OP_LH | OP_LW | OP_LBU | OP_LHU |
    OP_ADD | OP_SUB | OP_AND | OP_XOR | OP_OR | OP_SLL | OP_SLT | OP_SLTU | OP_SRL |
    OP_SRA | OP_BEQ | OP_BNE | OP_BLT | OP_BGE | OP_BLTU | OP_BGEU | OP_SB | OP_SH |
    OP_SW | OP_JAL | OP_HALT | OP_INVALID

datatype OperandSource = Immediate | Register | ProgramCounter | Zero

instantiation OP :: enum
begin

definition enum_OP :: "OP list" where
  "enum_OP =
    [OP_LUI, OP_AUIPC, OP_ADDI, OP_SLTI, OP_SLTIU, OP_XORI, OP_ORI, OP_ANDI, OP_SLLI,
     OP_SRLI, OP_SRAI, OP_JALR, OP_LB, OP_LH, OP_LW, OP_LBU, OP_LHU, OP_ADD, OP_SUB,
     OP_AND, OP_XOR, OP_OR, OP_SLL, OP_SLT, OP_SLTU, OP_SRL, OP_SRA, OP_BEQ, OP_BNE,
     OP_BLT, OP_BGE, OP_BLTU, OP_BGEU, OP_SB, OP_SH, OP_SW, OP_JAL, OP_HALT, OP_INVALID]"

definition enum_all_OP :: "(OP \<Rightarrow> bool) \<Rightarrow> bool" where
  "enum_all_OP P \<longleftrightarrow> list_all P enum_class.enum"

definition enum_ex_OP :: "(OP \<Rightarrow> bool) \<Rightarrow> bool" where
  "enum_ex_OP P \<longleftrightarrow> list_ex P enum_class.enum"

instance
proof
  show univ: "(UNIV :: OP set) = set enum_class.enum"
  proof -
    have "x \<in> set enum_class.enum" for x :: OP
      by (cases x) (simp_all add: enum_OP_def)
    then show ?thesis by auto
  qed
  show "distinct (enum_class.enum :: OP list)"
    by (simp add: enum_OP_def)
  show "enum_class.enum_all P \<longleftrightarrow> Ball UNIV P" for P :: "OP \<Rightarrow> bool"
    by (simp add: enum_all_OP_def univ list_all_iff)
  show "enum_class.enum_ex P \<longleftrightarrow> Bex UNIV P" for P :: "OP \<Rightarrow> bool"
    by (simp add: enum_ex_OP_def univ list_ex_iff)
qed

end

record DecodedInstruction =
  di_op :: OP
  di_rd :: RegisterIndex
  di_rs1 :: RegisterIndex
  di_rs2 :: RegisterIndex
  di_immediate :: Word
  di_lhs_source :: OperandSource
  di_rhs_source :: OperandSource
  di_uses_rs1 :: bool
  di_uses_rs2 :: bool
  di_writes_rd :: bool
  di_is_load :: bool
  di_is_store :: bool
  di_is_branch :: bool
  di_is_jump :: bool

text \<open>The value-initialised \<open>DecodedInstruction{}\<close>.\<close>

definition decoded_default :: DecodedInstruction where
  "decoded_default =
     \<lparr>di_op = OP_INVALID, di_rd = 0, di_rs1 = 0, di_rs2 = 0, di_immediate = 0,
      di_lhs_source = Zero, di_rhs_source = Zero,
      di_uses_rs1 = False, di_uses_rs2 = False, di_writes_rd = False,
      di_is_load = False, di_is_store = False, di_is_branch = False, di_is_jump = False\<rparr>"

lemma decoded_default_op [simp]: "di_op decoded_default = OP_INVALID"
  by (simp add: decoded_default_def)

end
