(* ===== verification/Decoder.thy ===== *)
theory Decoder
  imports Instruction
begin

text \<open>
  \<open>isa/decoder.cpp\<close>: the static decoder, one function per format and one per immediate, with the
  same guards in the same order.
\<close>

section \<open>Model\<close>

definition kHaltEncoding :: InstructionBits where "kHaltEncoding = 0x0ff00513"
definition kLoadOpcode :: Word where "kLoadOpcode = 0x03"
definition kOpImmediateOpcode :: Word where "kOpImmediateOpcode = 0x13"
definition kAuipcOpcode :: Word where "kAuipcOpcode = 0x17"
definition kStoreOpcode :: Word where "kStoreOpcode = 0x23"
definition kOpOpcode :: Word where "kOpOpcode = 0x33"
definition kLuiOpcode :: Word where "kLuiOpcode = 0x37"
definition kBranchOpcode :: Word where "kBranchOpcode = 0x63"
definition kJalrOpcode :: Word where "kJalrOpcode = 0x67"
definition kJalOpcode :: Word where "kJalOpcode = 0x6f"
definition kBaseFunct7 :: Word where "kBaseFunct7 = 0x00"
definition kAlternateFunct7 :: Word where "kAlternateFunct7 = 0x20"

lemmas opcode_defs = kHaltEncoding_def kLoadOpcode_def kOpImmediateOpcode_def kAuipcOpcode_def
  kStoreOpcode_def kOpOpcode_def kLuiOpcode_def kBranchOpcode_def kJalrOpcode_def kJalOpcode_def
  kBaseFunct7_def kAlternateFunct7_def

definition decode_register :: "InstructionBits \<Rightarrow> nat \<Rightarrow> nat \<Rightarrow> RegisterIndex" where
  "decode_register bits high low = ucast (extract_bits bits high low)"

definition write_register :: "RegisterIndex \<Rightarrow> bool" where
  "write_register rd \<longleftrightarrow> rd \<noteq> 0"

definition decode_I_immediate :: "InstructionBits \<Rightarrow> Word" where
  "decode_I_immediate bits = sign_extend (extract_bits bits 31 20) 12"

definition decode_S_immediate :: "InstructionBits \<Rightarrow> Word" where
  "decode_S_immediate bits =
     (let high = extract_bits bits 31 25;
          low = extract_bits bits 11 7;
          immediate = push_bit 5 high OR low
      in sign_extend immediate 12)"

definition decode_B_immediate :: "InstructionBits \<Rightarrow> Word" where
  "decode_B_immediate bits =
     (let immediate = 0;
          immediate = (if get_bit bits 31 then immediate OR push_bit 12 1 else immediate);
          immediate = (if get_bit bits 7 then immediate OR push_bit 11 1 else immediate);
          immediate = immediate OR push_bit 5 (extract_bits bits 30 25);
          immediate = immediate OR push_bit 1 (extract_bits bits 11 8)
      in sign_extend immediate 13)"

definition decode_U_immediate :: "InstructionBits \<Rightarrow> Word" where
  "decode_U_immediate bits = bits AND 0xfffff000"

definition decode_J_immediate :: "InstructionBits \<Rightarrow> Word" where
  "decode_J_immediate bits =
     (let immediate = 0;
          immediate = (if get_bit bits 31 then immediate OR push_bit 20 1 else immediate);
          immediate = immediate OR push_bit 12 (extract_bits bits 19 12);
          immediate = (if get_bit bits 20 then immediate OR push_bit 11 1 else immediate);
          immediate = immediate OR push_bit 1 (extract_bits bits 30 21)
      in sign_extend immediate 21)"

definition decode_R_type :: "InstructionBits \<Rightarrow> DecodedInstruction" where
  "decode_R_type bits =
     (let funct3 = extract_bits bits 14 12;
          funct7 = extract_bits bits 31 25;
          opr = (if funct3 = 0x0 then
                   (if funct7 = kBaseFunct7 then OP_ADD
                    else if funct7 = kAlternateFunct7 then OP_SUB else OP_INVALID)
                 else if funct3 = 0x1 then (if funct7 = kBaseFunct7 then OP_SLL else OP_INVALID)
                 else if funct3 = 0x2 then (if funct7 = kBaseFunct7 then OP_SLT else OP_INVALID)
                 else if funct3 = 0x3 then (if funct7 = kBaseFunct7 then OP_SLTU else OP_INVALID)
                 else if funct3 = 0x4 then (if funct7 = kBaseFunct7 then OP_XOR else OP_INVALID)
                 else if funct3 = 0x5 then
                   (if funct7 = kBaseFunct7 then OP_SRL
                    else if funct7 = kAlternateFunct7 then OP_SRA else OP_INVALID)
                 else if funct3 = 0x6 then (if funct7 = kBaseFunct7 then OP_OR else OP_INVALID)
                 else if funct3 = 0x7 then (if funct7 = kBaseFunct7 then OP_AND else OP_INVALID)
                 else OP_INVALID)
      in if opr = OP_INVALID then decoded_default
         else decoded_default\<lparr>
           di_op := opr,
           di_rd := decode_register bits 11 7,
           di_rs1 := decode_register bits 19 15,
           di_rs2 := decode_register bits 24 20,
           di_lhs_source := Register,
           di_rhs_source := Register,
           di_uses_rs1 := True,
           di_uses_rs2 := True,
           di_writes_rd := write_register (decode_register bits 11 7)\<rparr>)"

definition decode_I_type :: "InstructionBits \<Rightarrow> DecodedInstruction" where
  "decode_I_type bits =
     (let opcode = extract_bits bits 6 0;
          funct3 = extract_bits bits 14 12;
          funct7 = extract_bits bits 31 25;
          result = decoded_default
      in
      if opcode = kOpImmediateOpcode then
        (let shifted = (\<lambda>opr. Some (result\<lparr>di_op := opr,
                                        di_immediate := extract_bits bits 24 20\<rparr>));
             selected =
               (if funct3 = 0x0 then Some (result\<lparr>di_op := OP_ADDI\<rparr>)
                else if funct3 = 0x1 then
                  (if funct7 \<noteq> kBaseFunct7 then None else shifted OP_SLLI)
                else if funct3 = 0x2 then Some (result\<lparr>di_op := OP_SLTI\<rparr>)
                else if funct3 = 0x3 then Some (result\<lparr>di_op := OP_SLTIU\<rparr>)
                else if funct3 = 0x4 then Some (result\<lparr>di_op := OP_XORI\<rparr>)
                else if funct3 = 0x5 then
                  (if funct7 = kBaseFunct7 then shifted OP_SRLI
                   else if funct7 = kAlternateFunct7 then shifted OP_SRAI
                   else None)
                else if funct3 = 0x6 then Some (result\<lparr>di_op := OP_ORI\<rparr>)
                else if funct3 = 0x7 then Some (result\<lparr>di_op := OP_ANDI\<rparr>)
                else None)
         in case selected of
              None \<Rightarrow> decoded_default
            | Some r \<Rightarrow>
                r\<lparr>di_rd := decode_register bits 11 7,
                  di_rs1 := decode_register bits 19 15,
                  di_immediate :=
                    (if di_op r \<noteq> OP_SLLI \<and> di_op r \<noteq> OP_SRLI \<and> di_op r \<noteq> OP_SRAI
                     then decode_I_immediate bits else di_immediate r),
                  di_lhs_source := Register,
                  di_rhs_source := Immediate,
                  di_uses_rs1 := True,
                  di_writes_rd := write_register (decode_register bits 11 7)\<rparr>)
      else if opcode = kLoadOpcode then
        (let selected =
               (if funct3 = 0x0 then Some OP_LB
                else if funct3 = 0x1 then Some OP_LH
                else if funct3 = 0x2 then Some OP_LW
                else if funct3 = 0x4 then Some OP_LBU
                else if funct3 = 0x5 then Some OP_LHU
                else None)
         in case selected of
              None \<Rightarrow> decoded_default
            | Some opr \<Rightarrow>
                result\<lparr>di_op := opr,
                  di_immediate := decode_I_immediate bits,
                  di_rd := decode_register bits 11 7,
                  di_rs1 := decode_register bits 19 15,
                  di_lhs_source := Register,
                  di_rhs_source := Immediate,
                  di_is_load := True,
                  di_uses_rs1 := True,
                  di_writes_rd := write_register (decode_register bits 11 7)\<rparr>)
      else if opcode = kJalrOpcode then
        (if funct3 \<noteq> 0x0 then decoded_default
         else result\<lparr>di_op := OP_JALR,
                di_rd := decode_register bits 11 7,
                di_rs1 := decode_register bits 19 15,
                di_immediate := decode_I_immediate bits,
                di_lhs_source := Register,
                di_rhs_source := Immediate,
                di_uses_rs1 := True,
                di_writes_rd := write_register (decode_register bits 11 7),
                di_is_jump := True\<rparr>)
      else decoded_default)"

definition decode_S_type :: "InstructionBits \<Rightarrow> DecodedInstruction" where
  "decode_S_type bits =
     (let funct3 = extract_bits bits 14 12;
          selected =
            (if funct3 = 0x0 then Some OP_SB
             else if funct3 = 0x1 then Some OP_SH
             else if funct3 = 0x2 then Some OP_SW
             else None)
      in case selected of
           None \<Rightarrow> decoded_default
         | Some opr \<Rightarrow>
             decoded_default\<lparr>di_op := opr,
               di_rs1 := decode_register bits 19 15,
               di_rs2 := decode_register bits 24 20,
               di_immediate := decode_S_immediate bits,
               di_lhs_source := Register,
               di_rhs_source := Immediate,
               di_uses_rs1 := True,
               di_uses_rs2 := True,
               di_is_store := True\<rparr>)"

definition decode_B_type :: "InstructionBits \<Rightarrow> DecodedInstruction" where
  "decode_B_type bits =
     (let funct3 = extract_bits bits 14 12;
          selected =
            (if funct3 = 0x0 then Some OP_BEQ
             else if funct3 = 0x1 then Some OP_BNE
             else if funct3 = 0x4 then Some OP_BLT
             else if funct3 = 0x5 then Some OP_BGE
             else if funct3 = 0x6 then Some OP_BLTU
             else if funct3 = 0x7 then Some OP_BGEU
             else None)
      in case selected of
           None \<Rightarrow> decoded_default
         | Some opr \<Rightarrow>
             decoded_default\<lparr>di_op := opr,
               di_rs1 := decode_register bits 19 15,
               di_rs2 := decode_register bits 24 20,
               di_immediate := decode_B_immediate bits,
               di_lhs_source := Register,
               di_rhs_source := Register,
               di_uses_rs1 := True,
               di_uses_rs2 := True,
               di_is_branch := True\<rparr>)"

definition decode_J_type :: "InstructionBits \<Rightarrow> DecodedInstruction" where
  "decode_J_type bits =
     decoded_default\<lparr>di_op := OP_JAL,
       di_rd := decode_register bits 11 7,
       di_immediate := decode_J_immediate bits,
       di_lhs_source := ProgramCounter,
       di_rhs_source := Immediate,
       di_writes_rd := write_register (decode_register bits 11 7),
       di_is_jump := True\<rparr>"

definition decode_U_type :: "InstructionBits \<Rightarrow> DecodedInstruction" where
  "decode_U_type bits =
     (let opcode = extract_bits bits 6 0;
          selected =
            (if opcode = kLuiOpcode then
               Some (decoded_default\<lparr>di_op := OP_LUI, di_lhs_source := Zero\<rparr>)
             else if opcode = kAuipcOpcode then
               Some (decoded_default\<lparr>di_op := OP_AUIPC, di_lhs_source := ProgramCounter\<rparr>)
             else None)
      in case selected of
           None \<Rightarrow> decoded_default
         | Some r \<Rightarrow>
             r\<lparr>di_rd := decode_register bits 11 7,
               di_immediate := decode_U_immediate bits,
               di_rhs_source := Immediate,
               di_writes_rd := write_register (decode_register bits 11 7)\<rparr>)"

definition decode :: "InstructionBits \<Rightarrow> DecodedInstruction" where
  "decode bits =
     (if bits = 0x0ff00513 then decoded_default\<lparr>di_op := OP_HALT\<rparr>
      else
        let opcode = extract_bits bits 6 0
        in if opcode = kOpOpcode then decode_R_type bits
           else if opcode = kLoadOpcode \<or> opcode = kOpImmediateOpcode \<or> opcode = kJalrOpcode
             then decode_I_type bits
           else if opcode = kStoreOpcode then decode_S_type bits
           else if opcode = kBranchOpcode then decode_B_type bits
           else if opcode = kLuiOpcode \<or> opcode = kAuipcOpcode then decode_U_type bits
           else if opcode = kJalOpcode then decode_J_type bits
           else decoded_default)"

end
