(* ===== verification/Encoding.thy ===== *)
theory Encoding
  imports Decoder
begin

text \<open>
  The RV32I instruction formats as the specification of the decoder: an instruction is a
  constructor with fields of their exact width, \<open>encode\<close> lays it out as the ISA manual does (the
  unit tests of the repository build their programs with the same layouts), and \<open>describe\<close> is the
  decoded form it must have.  Every encoding is proved to decode to its description.
\<close>

section \<open>The abstract instruction set\<close>

datatype r_op = RAdd | RSub | RSll | RSlt | RSltu | RXor | RSrl | RSra | ROr | RAnd
datatype i_op = IAddi | ISlti | ISltiu | IXori | IOri | IAndi
datatype sh_op = ISlli | ISrli | ISrai
datatype l_op = LByte | LHalf | LWord | LByteU | LHalfU
datatype s_op = SByte | SHalf | SWord
datatype b_op = BEq | BNe | BLt | BGe | BLtu | BGeu

datatype rv_instr =
    RV_R r_op "5 word" "5 word" "5 word"     \<comment> \<open>rd, rs1, rs2\<close>
  | RV_I i_op "5 word" "5 word" "12 word"    \<comment> \<open>rd, rs1, immediate\<close>
  | RV_Shift sh_op "5 word" "5 word" "5 word" \<comment> \<open>rd, rs1, shift amount\<close>
  | RV_Load l_op "5 word" "5 word" "12 word" \<comment> \<open>rd, rs1, offset\<close>
  | RV_Jalr "5 word" "5 word" "12 word"      \<comment> \<open>rd, rs1, offset\<close>
  | RV_Store s_op "5 word" "5 word" "12 word" \<comment> \<open>rs1, rs2, offset\<close>
  | RV_Branch b_op "5 word" "5 word" "12 word" \<comment> \<open>rs1, rs2, offset in half words\<close>
  | RV_Lui "5 word" "20 word"
  | RV_Auipc "5 word" "20 word"
  | RV_Jal "5 word" "20 word"                \<comment> \<open>rd, offset in half words\<close>

fun r_funct3 :: "r_op \<Rightarrow> 3 word" where
  "r_funct3 RAdd = 0" | "r_funct3 RSub = 0" | "r_funct3 RSll = 1" | "r_funct3 RSlt = 2"
| "r_funct3 RSltu = 3" | "r_funct3 RXor = 4" | "r_funct3 RSrl = 5" | "r_funct3 RSra = 5"
| "r_funct3 ROr = 6" | "r_funct3 RAnd = 7"

fun r_funct7 :: "r_op \<Rightarrow> 7 word" where
  "r_funct7 RSub = 0x20" | "r_funct7 RSra = 0x20" | "r_funct7 _ = 0"

fun r_OP :: "r_op \<Rightarrow> OP" where
  "r_OP RAdd = OP_ADD" | "r_OP RSub = OP_SUB" | "r_OP RSll = OP_SLL" | "r_OP RSlt = OP_SLT"
| "r_OP RSltu = OP_SLTU" | "r_OP RXor = OP_XOR" | "r_OP RSrl = OP_SRL" | "r_OP RSra = OP_SRA"
| "r_OP ROr = OP_OR" | "r_OP RAnd = OP_AND"

fun i_funct3 :: "i_op \<Rightarrow> 3 word" where
  "i_funct3 IAddi = 0" | "i_funct3 ISlti = 2" | "i_funct3 ISltiu = 3" | "i_funct3 IXori = 4"
| "i_funct3 IOri = 6" | "i_funct3 IAndi = 7"

fun i_OP :: "i_op \<Rightarrow> OP" where
  "i_OP IAddi = OP_ADDI" | "i_OP ISlti = OP_SLTI" | "i_OP ISltiu = OP_SLTIU"
| "i_OP IXori = OP_XORI" | "i_OP IOri = OP_ORI" | "i_OP IAndi = OP_ANDI"

fun sh_funct3 :: "sh_op \<Rightarrow> 3 word" where
  "sh_funct3 ISlli = 1" | "sh_funct3 ISrli = 5" | "sh_funct3 ISrai = 5"

fun sh_funct7 :: "sh_op \<Rightarrow> 7 word" where
  "sh_funct7 ISrai = 0x20" | "sh_funct7 _ = 0"

fun sh_OP :: "sh_op \<Rightarrow> OP" where
  "sh_OP ISlli = OP_SLLI" | "sh_OP ISrli = OP_SRLI" | "sh_OP ISrai = OP_SRAI"

fun l_funct3 :: "l_op \<Rightarrow> 3 word" where
  "l_funct3 LByte = 0" | "l_funct3 LHalf = 1" | "l_funct3 LWord = 2" | "l_funct3 LByteU = 4"
| "l_funct3 LHalfU = 5"

fun l_OP :: "l_op \<Rightarrow> OP" where
  "l_OP LByte = OP_LB" | "l_OP LHalf = OP_LH" | "l_OP LWord = OP_LW" | "l_OP LByteU = OP_LBU"
| "l_OP LHalfU = OP_LHU"

fun s_funct3 :: "s_op \<Rightarrow> 3 word" where
  "s_funct3 SByte = 0" | "s_funct3 SHalf = 1" | "s_funct3 SWord = 2"

fun s_OP :: "s_op \<Rightarrow> OP" where
  "s_OP SByte = OP_SB" | "s_OP SHalf = OP_SH" | "s_OP SWord = OP_SW"

fun b_funct3 :: "b_op \<Rightarrow> 3 word" where
  "b_funct3 BEq = 0" | "b_funct3 BNe = 1" | "b_funct3 BLt = 4" | "b_funct3 BGe = 5"
| "b_funct3 BLtu = 6" | "b_funct3 BGeu = 7"

fun b_OP :: "b_op \<Rightarrow> OP" where
  "b_OP BEq = OP_BEQ" | "b_OP BNe = OP_BNE" | "b_OP BLt = OP_BLT" | "b_OP BGe = OP_BGE"
| "b_OP BLtu = OP_BLTU" | "b_OP BGeu = OP_BGEU"

section \<open>Encoding\<close>

text \<open>The six fields of a word: funct7, rs2, rs1, funct3, rd, opcode.\<close>

definition rv_word ::
  "7 word \<Rightarrow> 5 word \<Rightarrow> 5 word \<Rightarrow> 3 word \<Rightarrow> 5 word \<Rightarrow> 7 word \<Rightarrow> InstructionBits" where
  "rv_word f7 rs2 rs1 f3 rd opc =
     push_bit 25 (ucast f7) OR push_bit 20 (ucast rs2) OR push_bit 15 (ucast rs1)
     OR push_bit 12 (ucast f3) OR push_bit 7 (ucast rd) OR ucast opc"

text \<open>The scattered immediate bits of branches and jumps.\<close>

definition b_hi :: "12 word \<Rightarrow> 7 word" where
  "b_hi imm = push_bit 6 (ucast (drop_bit 11 imm)) OR take_bit 6 (ucast (drop_bit 4 imm))"

definition b_lo :: "12 word \<Rightarrow> 5 word" where
  "b_lo imm = push_bit 1 (ucast imm) OR (if bit imm 10 then 1 else 0)"

definition j_hi :: "20 word \<Rightarrow> 7 word" where
  "j_hi imm = push_bit 6 (ucast (drop_bit 19 imm)) OR take_bit 6 (ucast (drop_bit 4 imm))"

definition j_lo :: "20 word \<Rightarrow> 5 word" where
  "j_lo imm = push_bit 1 (ucast imm) OR (if bit imm 10 then 1 else 0)"

fun encode :: "rv_instr \<Rightarrow> InstructionBits" where
  "encode (RV_R f rd rs1 rs2) = rv_word (r_funct7 f) rs2 rs1 (r_funct3 f) rd 0x33"
| "encode (RV_I f rd rs1 imm) =
     rv_word (ucast (drop_bit 5 imm)) (ucast imm) rs1 (i_funct3 f) rd 0x13"
| "encode (RV_Shift f rd rs1 shamt) = rv_word (sh_funct7 f) shamt rs1 (sh_funct3 f) rd 0x13"
| "encode (RV_Load f rd rs1 imm) =
     rv_word (ucast (drop_bit 5 imm)) (ucast imm) rs1 (l_funct3 f) rd 0x03"
| "encode (RV_Jalr rd rs1 imm) =
     rv_word (ucast (drop_bit 5 imm)) (ucast imm) rs1 0 rd 0x67"
| "encode (RV_Store f rs1 rs2 imm) =
     rv_word (ucast (drop_bit 5 imm)) rs2 rs1 (s_funct3 f) (ucast imm) 0x23"
| "encode (RV_Branch f rs1 rs2 imm) =
     rv_word (b_hi imm) rs2 rs1 (b_funct3 f) (b_lo imm) 0x63"
| "encode (RV_Lui rd imm) =
     rv_word (ucast (drop_bit 13 imm)) (ucast (drop_bit 8 imm)) (ucast (drop_bit 3 imm))
       (ucast imm) rd 0x37"
| "encode (RV_Auipc rd imm) =
     rv_word (ucast (drop_bit 13 imm)) (ucast (drop_bit 8 imm)) (ucast (drop_bit 3 imm))
       (ucast imm) rd 0x17"
| "encode (RV_Jal rd imm) =
     rv_word (j_hi imm) (j_lo imm) (ucast (drop_bit 14 imm)) (ucast (drop_bit 11 imm)) rd 0x6f"

fun describe :: "rv_instr \<Rightarrow> DecodedInstruction" where
  "describe (RV_R f rd rs1 rs2) = decoded_default\<lparr>di_op := r_OP f, di_rd := ucast rd,
     di_rs1 := ucast rs1, di_rs2 := ucast rs2, di_lhs_source := Register,
     di_rhs_source := Register, di_uses_rs1 := True, di_uses_rs2 := True,
     di_writes_rd := rd \<noteq> 0\<rparr>"
| "describe (RV_I f rd rs1 imm) = decoded_default\<lparr>di_op := i_OP f, di_rd := ucast rd,
     di_rs1 := ucast rs1, di_immediate := scast imm, di_lhs_source := Register,
     di_rhs_source := Immediate, di_uses_rs1 := True, di_writes_rd := rd \<noteq> 0\<rparr>"
| "describe (RV_Shift f rd rs1 shamt) = decoded_default\<lparr>di_op := sh_OP f, di_rd := ucast rd,
     di_rs1 := ucast rs1, di_immediate := ucast shamt, di_lhs_source := Register,
     di_rhs_source := Immediate, di_uses_rs1 := True, di_writes_rd := rd \<noteq> 0\<rparr>"
| "describe (RV_Load f rd rs1 imm) = decoded_default\<lparr>di_op := l_OP f, di_rd := ucast rd,
     di_rs1 := ucast rs1, di_immediate := scast imm, di_lhs_source := Register,
     di_rhs_source := Immediate, di_uses_rs1 := True, di_writes_rd := rd \<noteq> 0,
     di_is_load := True\<rparr>"
| "describe (RV_Jalr rd rs1 imm) = decoded_default\<lparr>di_op := OP_JALR, di_rd := ucast rd,
     di_rs1 := ucast rs1, di_immediate := scast imm, di_lhs_source := Register,
     di_rhs_source := Immediate, di_uses_rs1 := True, di_writes_rd := rd \<noteq> 0,
     di_is_jump := True\<rparr>"
| "describe (RV_Store f rs1 rs2 imm) = decoded_default\<lparr>di_op := s_OP f,
     di_rs1 := ucast rs1, di_rs2 := ucast rs2, di_immediate := scast imm,
     di_lhs_source := Register, di_rhs_source := Immediate, di_uses_rs1 := True,
     di_uses_rs2 := True, di_is_store := True\<rparr>"
| "describe (RV_Branch f rs1 rs2 imm) = decoded_default\<lparr>di_op := b_OP f,
     di_rs1 := ucast rs1, di_rs2 := ucast rs2, di_immediate := push_bit 1 (scast imm),
     di_lhs_source := Register, di_rhs_source := Register, di_uses_rs1 := True,
     di_uses_rs2 := True, di_is_branch := True\<rparr>"
| "describe (RV_Lui rd imm) = decoded_default\<lparr>di_op := OP_LUI, di_rd := ucast rd,
     di_immediate := push_bit 12 (ucast imm), di_rhs_source := Immediate,
     di_writes_rd := rd \<noteq> 0\<rparr>"
| "describe (RV_Auipc rd imm) = decoded_default\<lparr>di_op := OP_AUIPC, di_rd := ucast rd,
     di_immediate := push_bit 12 (ucast imm), di_lhs_source := ProgramCounter,
     di_rhs_source := Immediate, di_writes_rd := rd \<noteq> 0\<rparr>"
| "describe (RV_Jal rd imm) = decoded_default\<lparr>di_op := OP_JAL, di_rd := ucast rd,
     di_immediate := push_bit 1 (scast imm), di_lhs_source := ProgramCounter,
     di_rhs_source := Immediate, di_writes_rd := rd \<noteq> 0, di_is_jump := True\<rparr>"

section \<open>The fields of an encoded word\<close>

lemma bit_rv_word [bit_access]:
  "bit (rv_word f7 rs2 rs1 f3 rd opc) n \<longleftrightarrow>
     (if n < 7 then bit opc n
      else if n < 12 then bit rd (n - 7)
      else if n < 15 then bit f3 (n - 12)
      else if n < 20 then bit rs1 (n - 15)
      else if n < 25 then bit rs2 (n - 20)
      else n < 32 \<and> bit f7 (n - 25))"
proof -
  have "\<not> bit opc n" if "7 \<le> n" using bit_imp_le_length [of opc n] that by auto
  moreover have "\<not> bit rd (n - 7)" if "12 \<le> n" using bit_imp_le_length [of rd "n - 7"] that by auto
  moreover have "\<not> bit f3 (n - 12)" if "15 \<le> n"
    using bit_imp_le_length [of f3 "n - 12"] that by auto
  moreover have "\<not> bit rs1 (n - 15)" if "20 \<le> n"
    using bit_imp_le_length [of rs1 "n - 15"] that by auto
  moreover have "\<not> bit rs2 (n - 20)" if "25 \<le> n"
    using bit_imp_le_length [of rs2 "n - 20"] that by auto
  ultimately show ?thesis
    by (auto simp: rv_word_def bit_simps not_less)
qed

lemma rv_word_opcode: "extract_bits (rv_word f7 rs2 rs1 f3 rd opc) 6 0 = ucast opc"
  by (rule bit_word_eqI) (auto simp: bit_access bit_simps bit_word_above)

lemma rv_word_funct3: "extract_bits (rv_word f7 rs2 rs1 f3 rd opc) 14 12 = ucast f3"
  by (rule bit_word_eqI) (auto simp: bit_access bit_simps bit_word_above)

lemma rv_word_funct7: "extract_bits (rv_word f7 rs2 rs1 f3 rd opc) 31 25 = ucast f7"
  by (rule bit_word_eqI) (auto simp: bit_access bit_simps dest: bit_imp_le_length)

lemma rv_word_rd: "extract_bits (rv_word f7 rs2 rs1 f3 rd opc) 11 7 = ucast rd"
  by (rule bit_word_eqI) (auto simp: bit_access bit_simps bit_word_above)

lemma rv_word_rs1: "extract_bits (rv_word f7 rs2 rs1 f3 rd opc) 19 15 = ucast rs1"
  by (rule bit_word_eqI) (auto simp: bit_access bit_simps bit_word_above)

lemma rv_word_rs2: "extract_bits (rv_word f7 rs2 rs1 f3 rd opc) 24 20 = ucast rs2"
  by (rule bit_word_eqI) (auto simp: bit_access bit_simps bit_word_above)

lemmas rv_word_fields = rv_word_opcode rv_word_funct3 rv_word_funct7 rv_word_rd rv_word_rs1
  rv_word_rs2

lemma ucast_5_8 [simp]: "(ucast (ucast (r :: 5 word) :: Word) :: RegisterIndex) = ucast r"
  by (rule bit_word_eqI) (auto simp: bit_simps)

lemma ucast_5_8_zero [simp]: "(ucast (r :: 5 word) :: RegisterIndex) = 0 \<longleftrightarrow> r = 0"
proof
  assume "(ucast r :: RegisterIndex) = 0"
  then have "\<not> bit (ucast r :: RegisterIndex) n" for n by simp
  then have "\<not> bit r n" for n
    using bit_imp_le_length [of r n] by (fastforce simp: bit_unsigned_iff)
  then show "r = 0" by (auto intro: bit_word_eqI)
qed simp

section \<open>The immediates\<close>

lemma bit_scast_12:
  "bit (scast (imm :: 12 word) :: Word) n \<longleftrightarrow> n < 32 \<and> bit imm (min n 11)"
  by (auto simp: bit_simps min_def)

lemma bit_scast_20:
  "bit (scast (imm :: 20 word) :: Word) n \<longleftrightarrow> n < 32 \<and> bit imm (min n 19)"
  by (auto simp: bit_simps min_def)

lemma I_immediate_rv_word:
  "decode_I_immediate (rv_word (ucast (drop_bit 5 (imm :: 12 word))) (ucast imm) rs1 f3 rd opc)
   = scast imm"
  by (rule word_eq_32I)
     (simp add: decode_I_immediate_def bit_access bit_scast_12 bit_simps)

lemma shamt_rv_word:
  "extract_bits (rv_word f7 shamt rs1 f3 rd opc) 24 20 = ucast shamt"
  by (rule rv_word_rs2)

lemma S_immediate_rv_word:
  "decode_S_immediate (rv_word (ucast (drop_bit 5 (imm :: 12 word))) rs2 rs1 f3 (ucast imm) opc)
   = scast imm"
  by (rule word_eq_32I)
     (simp add: decode_S_immediate_def Let_def bit_access bit_scast_12 bit_simps)

lemma B_immediate_rv_word:
  "decode_B_immediate (rv_word (b_hi imm) rs2 rs1 f3 (b_lo imm) opc) = push_bit 1 (scast imm)"
  by (rule word_eq_32I)
     (simp add: decode_B_immediate_def Let_def b_hi_def b_lo_def bit_access bit_scast_12 bit_simps
       del: push_bit_Suc push_bit_of_1)

lemma U_immediate_rv_word:
  "decode_U_immediate
     (rv_word (ucast (drop_bit 13 (imm :: 20 word))) (ucast (drop_bit 8 imm))
       (ucast (drop_bit 3 imm)) (ucast imm) rd opc)
   = push_bit 12 (ucast imm)"
  by (rule word_eq_32I)
     (simp add: decode_U_immediate_def bit_access bit_simps)

lemma J_immediate_rv_word:
  "decode_J_immediate
     (rv_word (j_hi imm) (j_lo imm) (ucast (drop_bit 14 imm)) (ucast (drop_bit 11 imm)) rd opc)
   = push_bit 1 (scast imm)"
  by (rule word_eq_32I)
     (simp add: decode_J_immediate_def Let_def j_hi_def j_lo_def bit_access bit_scast_20 bit_simps
       del: push_bit_Suc push_bit_of_1)

section \<open>Decoding an encoded instruction\<close>

lemma decode_not_halt:
  "w \<noteq> kHaltEncoding \<Longrightarrow> decode w =
     (let opcode = extract_bits w 6 0
      in if opcode = 0x33 then decode_R_type w
         else if opcode = 0x03 \<or> opcode = 0x13 \<or> opcode = 0x67 then decode_I_type w
         else if opcode = 0x23 then decode_S_type w
         else if opcode = 0x63 then decode_B_type w
         else if opcode = 0x37 \<or> opcode = 0x17 then decode_U_type w
         else if opcode = 0x6f then decode_J_type w
         else decoded_default)"
  by (simp add: decode_def opcode_defs Let_def)

lemmas decode_formats = decode_R_type_def decode_I_type_def decode_S_type_def decode_B_type_def
  decode_U_type_def decode_J_type_def

lemmas decode_rv_word = decode_formats rv_word_fields opcode_defs Let_def decode_register_def
  write_register_def I_immediate_rv_word S_immediate_rv_word B_immediate_rv_word
  U_immediate_rv_word J_immediate_rv_word

lemma decode_encode_word:
  assumes "encode i \<noteq> kHaltEncoding"
  shows "decode (encode i) = describe i"
proof -
  note d = decode_not_halt [OF assms]
  show ?thesis
  proof (cases i)
    case (RV_R f rd rs1 rs2)
    with d show ?thesis by (cases f) (simp_all add: decode_rv_word)
  next
    case (RV_I f rd rs1 imm)
    with d show ?thesis by (cases f) (simp_all add: decode_rv_word)
  next
    case (RV_Shift f rd rs1 shamt)
    with d show ?thesis by (cases f) (simp_all add: decode_rv_word)
  next
    case (RV_Load f rd rs1 imm)
    with d show ?thesis by (cases f) (simp_all add: decode_rv_word)
  next
    case (RV_Jalr rd rs1 imm)
    with d show ?thesis by (simp add: decode_rv_word)
  next
    case (RV_Store f rs1 rs2 imm)
    with d show ?thesis by (cases f) (simp_all add: decode_rv_word)
  next
    case (RV_Branch f rs1 rs2 imm)
    with d show ?thesis by (cases f) (simp_all add: decode_rv_word)
  next
    case (RV_Lui rd imm)
    with d show ?thesis by (simp add: decode_rv_word decoded_default_def)
  next
    case (RV_Auipc rd imm)
    with d show ?thesis by (simp add: decode_rv_word)
  next
    case (RV_Jal rd imm)
    with d show ?thesis by (simp add: decode_rv_word)
  qed
qed

section \<open>Property\<close>

text \<open>C16: the decoder inverts the encoding of every RV32I instruction format: operation, register
  numbers, sign-extended immediate, operand selectors and class flags.  The one word it treats
  otherwise is the \<open>addi\<close> the repository uses to stop the simulation.\<close>

theorem decode_encode:
  "decode (encode i) =
     (if encode i = kHaltEncoding then decoded_default\<lparr>di_op := OP_HALT\<rparr> else describe i)"
  using decode_encode_word [of i] by (simp add: decode_def kHaltEncoding_def)

end
