(* ===== verification/Image.thy ===== *)
theory Image
  imports Types
begin

text \<open>
  \<open>memory/image.cpp\<close>: the byte array of the simulated memory, with its bounds checks and its
  little-endian accesses, and the loader of the textual memory image.  The array
  \<open>std::array<Byte, 2^20>\<close> is a function from indices; every access of the code is behind
  \<open>in_bounds\<close>.  A failed access is \<open>None\<close>, or a \<open>False\<close> beside the unchanged image.
\<close>

section \<open>Model of the image\<close>

record MemoryImage =
  bytes :: "nat \<Rightarrow> Byte"
  load_byte_count :: nat
  highest_loaded_address :: "Address option"

definition image_clear :: "MemoryImage \<Rightarrow> MemoryImage" where
  "image_clear m = \<lparr>bytes = (\<lambda>_. 0), load_byte_count = 0, highest_loaded_address = None\<rparr>"

definition in_bounds :: "Address \<Rightarrow> nat \<Rightarrow> bool" where
  "in_bounds address width =
     (let start = unat address
      in if width > kMemorySize then False else start \<le> kMemorySize - width)"

definition read_byte :: "MemoryImage \<Rightarrow> Address \<Rightarrow> Byte option" where
  "read_byte m address =
     (if \<not> in_bounds address 1 then None else Some (bytes m (unat address)))"

definition read_half :: "MemoryImage \<Rightarrow> Address \<Rightarrow> HalfWord option" where
  "read_half m address =
     (if \<not> in_bounds address 2 then None
      else
        let start = unat address;
            low = ucast (bytes m start);
            high = ucast (bytes m (start + 1))
        in Some (low OR push_bit 8 high))"

definition read_word :: "MemoryImage \<Rightarrow> Address \<Rightarrow> Word option" where
  "read_word m address =
     (if \<not> in_bounds address 4 then None
      else
        let start = unat address
        in Some (ucast (bytes m start)
                 OR push_bit 8 (ucast (bytes m (start + 1)))
                 OR push_bit 16 (ucast (bytes m (start + 2)))
                 OR push_bit 24 (ucast (bytes m (start + 3)))))"

definition write_byte :: "MemoryImage \<Rightarrow> Address \<Rightarrow> Byte \<Rightarrow> MemoryImage \<times> bool" where
  "write_byte m address v =
     (if \<not> in_bounds address 1 then (m, False)
      else (m\<lparr>bytes := (bytes m)(unat address := v)\<rparr>, True))"

definition write_half :: "MemoryImage \<Rightarrow> Address \<Rightarrow> HalfWord \<Rightarrow> MemoryImage \<times> bool" where
  "write_half m address v =
     (if \<not> in_bounds address 2 then (m, False)
      else
        let start = unat address
        in (m\<lparr>bytes := (bytes m)(start := ucast (v AND 0xff),
                                  start + 1 := ucast (drop_bit 8 v AND 0xff))\<rparr>, True))"

definition write_word :: "MemoryImage \<Rightarrow> Address \<Rightarrow> Word \<Rightarrow> MemoryImage \<times> bool" where
  "write_word m address v =
     (if \<not> in_bounds address 4 then (m, False)
      else
        let start = unat address
        in (m\<lparr>bytes := (bytes m)(start := ucast (v AND 0xff),
                                  start + 1 := ucast (drop_bit 8 v AND 0xff),
                                  start + 2 := ucast (drop_bit 16 v AND 0xff),
                                  start + 3 := ucast (drop_bit 24 v AND 0xff))\<rparr>, True))"

lemmas image_defs = read_byte_def read_half_def read_word_def write_byte_def write_half_def
  write_word_def

section \<open>Bounds\<close>

lemma in_bounds_iff:
  "in_bounds a w \<longleftrightarrow> w \<le> kMemorySize \<and> unat a + w \<le> kMemorySize"
  by (auto simp: in_bounds_def Let_def)

lemma read_byte_None: "read_byte m a = None \<longleftrightarrow> \<not> in_bounds a 1"
  by (simp add: read_byte_def)

lemma read_half_None: "read_half m a = None \<longleftrightarrow> \<not> in_bounds a 2"
  by (simp add: read_half_def Let_def)

lemma read_word_None: "read_word m a = None \<longleftrightarrow> \<not> in_bounds a 4"
  by (simp add: read_word_def Let_def)

section \<open>Reading back what was written\<close>

lemma half_of_bytes:
  "ucast (ucast (v AND 0xff) :: Byte) OR push_bit 8 (ucast (ucast (drop_bit 8 v AND 0xff) :: Byte))
   = (v :: HalfWord)"
  by (rule bit_word_eqI) (auto simp: and_0xff bit_simps)

lemma word_of_bytes:
  "ucast (ucast (v AND 0xff) :: Byte)
   OR push_bit 8 (ucast (ucast (drop_bit 8 v AND 0xff) :: Byte))
   OR push_bit 16 (ucast (ucast (drop_bit 16 v AND 0xff) :: Byte))
   OR push_bit 24 (ucast (ucast (drop_bit 24 v AND 0xff) :: Byte))
   = (v :: Word)"
  by (rule word_eq_32I) (simp add: and_0xff bit_simps)

lemma read_write_byte:
  "in_bounds a 1 \<Longrightarrow> read_byte (fst (write_byte m a v)) a = Some v"
  by (simp add: image_defs)

lemma read_write_half:
  "in_bounds a 2 \<Longrightarrow> read_half (fst (write_half m a v)) a = Some v"
  by (simp add: image_defs Let_def half_of_bytes)

lemma read_write_word:
  "in_bounds a 4 \<Longrightarrow> read_word (fst (write_word m a v)) a = Some v"
  by (simp add: image_defs Let_def word_of_bytes)

section \<open>The contract of a byte memory\<close>

text \<open>
  What the interpreter and the memory unit rely on: an access succeeds exactly when its bytes are
  inside the memory, a failed write changes nothing, a write is read back, and it changes only the
  bytes it covers.
\<close>

locale byte_memory =
  fixes get :: "'m \<Rightarrow> Address \<Rightarrow> 'v option"
    and put :: "'m \<Rightarrow> Address \<Rightarrow> 'v \<Rightarrow> 'm \<times> bool"
    and byte_at :: "'m \<Rightarrow> nat \<Rightarrow> Byte"
    and width :: nat
    and size_limit :: nat
  assumes get_some: "(get m a \<noteq> None) = (unat a + width \<le> size_limit)"
    and put_ok: "snd (put m a v) = (unat a + width \<le> size_limit)"
    and put_fails: "\<not> snd (put m a v) \<Longrightarrow> fst (put m a v) = m"
    and read_back: "snd (put m a v) \<Longrightarrow> get (fst (put m a v)) a = Some v"
    and put_frame: "i < unat a \<or> unat a + width \<le> i \<Longrightarrow>
          byte_at (fst (put m a v)) i = byte_at m i"
    and get_local: "(\<And>i. unat a \<le> i \<Longrightarrow> i < unat a + width \<Longrightarrow>
          byte_at m i = byte_at m' i) \<Longrightarrow> get m a = get m' a"
begin

lemma get_disjoint:
  assumes "unat a + width \<le> unat b \<or> unat b + width \<le> unat a"
  shows "get (fst (put m a v)) b = get m b"
  by (rule get_local, rule put_frame) (use assms in auto)

lemma put_get:
  assumes "get m a \<noteq> None"
  shows "get (fst (put m a v)) a = Some v"
  by (rule read_back) (use assms get_some put_ok in auto)

end

interpretation mem8: byte_memory read_byte write_byte bytes 1 kMemorySize
  by unfold_locales (auto simp: image_defs in_bounds_iff split: if_splits)

interpretation mem16: byte_memory read_half write_half bytes 2 kMemorySize
proof (unfold_locales, goal_cases)
  case (6 a m m')
  then have "bytes m (unat a) = bytes m' (unat a)" "bytes m (Suc (unat a)) = bytes m' (Suc (unat a))"
    by simp_all
  then show ?case by (simp add: image_defs Let_def)
qed (auto simp: image_defs in_bounds_iff Let_def half_of_bytes split: if_splits)

interpretation mem32: byte_memory read_word write_word bytes 4 kMemorySize
proof (unfold_locales, goal_cases)
  case (6 a m m')
  then have "bytes m (unat a) = bytes m' (unat a)" "bytes m (unat a + 1) = bytes m' (unat a + 1)"
    "bytes m (unat a + 2) = bytes m' (unat a + 2)" "bytes m (unat a + 3) = bytes m' (unat a + 3)"
    by simp_all
  then show ?case by (simp add: image_defs Let_def)
qed (auto simp: image_defs in_bounds_iff Let_def word_of_bytes split: if_splits)

end
