(* ===== verification/Isa.thy ===== *)
theory Isa
  imports Decoder Image
begin

text \<open>
  The sequential semantics of the instruction set, the specification of the interpreter, of the
  functional unit, of the load path and of the whole out-of-order core: one instruction at a time
  on a program counter, a register file and the memory.  It is written by operation, with signed
  values read by \<open>sint\<close> and shifts as the arithmetic operations of the word library, and uses
  neither the operand selectors of the decoder nor the bit tricks of the code.
\<close>

section \<open>Arithmetic\<close>

definition shift_amount :: "Word \<Rightarrow> nat" where
  "shift_amount b = unat b mod 32"

fun isa_alu :: "OP \<Rightarrow> Word \<Rightarrow> Word \<Rightarrow> Word" where
  "isa_alu OP_ADD a b = a + b" | "isa_alu OP_ADDI a b = a + b"
| "isa_alu OP_SUB a b = a - b"
| "isa_alu OP_AND a b = a AND b" | "isa_alu OP_ANDI a b = a AND b"
| "isa_alu OP_OR a b = a OR b" | "isa_alu OP_ORI a b = a OR b"
| "isa_alu OP_XOR a b = a XOR b" | "isa_alu OP_XORI a b = a XOR b"
| "isa_alu OP_SLL a b = push_bit (shift_amount b) a"
| "isa_alu OP_SLLI a b = push_bit (shift_amount b) a"
| "isa_alu OP_SRL a b = drop_bit (shift_amount b) a"
| "isa_alu OP_SRLI a b = drop_bit (shift_amount b) a"
| "isa_alu OP_SRA a b = signed_drop_bit (shift_amount b) a"
| "isa_alu OP_SRAI a b = signed_drop_bit (shift_amount b) a"
| "isa_alu OP_SLT a b = (if sint a < sint b then 1 else 0)"
| "isa_alu OP_SLTI a b = (if sint a < sint b then 1 else 0)"
| "isa_alu OP_SLTU a b = (if unat a < unat b then 1 else 0)"
| "isa_alu OP_SLTIU a b = (if unat a < unat b then 1 else 0)"
| "isa_alu _ a b = 0"

fun isa_taken :: "OP \<Rightarrow> Word \<Rightarrow> Word \<Rightarrow> bool" where
  "isa_taken OP_BEQ a b \<longleftrightarrow> a = b" | "isa_taken OP_BNE a b \<longleftrightarrow> a \<noteq> b"
| "isa_taken OP_BLT a b \<longleftrightarrow> sint a < sint b" | "isa_taken OP_BGE a b \<longleftrightarrow> sint b \<le> sint a"
| "isa_taken OP_BLTU a b \<longleftrightarrow> unat a < unat b" | "isa_taken OP_BGEU a b \<longleftrightarrow> unat b \<le> unat a"
| "isa_taken _ a b \<longleftrightarrow> False"

definition load_op :: "OP \<Rightarrow> bool" where
  "load_op opr \<longleftrightarrow> opr \<in> {OP_LB, OP_LH, OP_LW, OP_LBU, OP_LHU}"

definition store_op :: "OP \<Rightarrow> bool" where
  "store_op opr \<longleftrightarrow> opr \<in> {OP_SB, OP_SH, OP_SW}"

definition branch_op :: "OP \<Rightarrow> bool" where
  "branch_op opr \<longleftrightarrow> opr \<in> {OP_BEQ, OP_BNE, OP_BLT, OP_BGE, OP_BLTU, OP_BGEU}"

definition jump_op :: "OP \<Rightarrow> bool" where
  "jump_op opr \<longleftrightarrow> opr \<in> {OP_JAL, OP_JALR}"

text \<open>Register-register operations take their second operand from \<open>rs2\<close>.\<close>

definition reg_op :: "OP \<Rightarrow> bool" where
  "reg_op opr \<longleftrightarrow> opr \<in> {OP_ADD, OP_SUB, OP_AND, OP_XOR, OP_OR, OP_SLL, OP_SLT, OP_SLTU,
     OP_SRL, OP_SRA}"

lemmas op_classes = load_op_def store_op_def branch_op_def jump_op_def reg_op_def

section \<open>Memory accesses\<close>

fun isa_load :: "OP \<Rightarrow> MemoryImage \<Rightarrow> Address \<Rightarrow> Word option" where
  "isa_load OP_LB m a = map_option scast (read_byte m a)"
| "isa_load OP_LBU m a = map_option ucast (read_byte m a)"
| "isa_load OP_LH m a = map_option scast (read_half m a)"
| "isa_load OP_LHU m a = map_option ucast (read_half m a)"
| "isa_load OP_LW m a = read_word m a"
| "isa_load _ m a = None"

fun isa_store :: "OP \<Rightarrow> MemoryImage \<Rightarrow> Address \<Rightarrow> Word \<Rightarrow> MemoryImage option" where
  "isa_store OP_SB m a v =
     (if snd (write_byte m a (ucast v)) then Some (fst (write_byte m a (ucast v))) else None)"
| "isa_store OP_SH m a v =
     (if snd (write_half m a (ucast v)) then Some (fst (write_half m a (ucast v))) else None)"
| "isa_store OP_SW m a v =
     (if snd (write_word m a v) then Some (fst (write_word m a v)) else None)"
| "isa_store _ m a v = None"

section \<open>One instruction\<close>

record isa_state =
  isa_pc :: Address
  isa_regs :: "RegisterIndex \<Rightarrow> Word"
  isa_mem :: MemoryImage

datatype isa_outcome = Step isa_state | Halted Word | FetchFault | Illegal | MemFault

definition set_reg :: "RegisterIndex \<Rightarrow> Word \<Rightarrow> (RegisterIndex \<Rightarrow> Word) \<Rightarrow> RegisterIndex \<Rightarrow> Word" where
  "set_reg rd v regs = (if rd = 0 then regs else regs(rd := v))"

definition isa_rs1 :: "DecodedInstruction \<Rightarrow> isa_state \<Rightarrow> Word" where
  "isa_rs1 d s = isa_regs s (di_rs1 d)"

definition isa_rs2 :: "DecodedInstruction \<Rightarrow> isa_state \<Rightarrow> Word" where
  "isa_rs2 d s = isa_regs s (di_rs2 d)"

definition isa_address :: "DecodedInstruction \<Rightarrow> isa_state \<Rightarrow> Address" where
  "isa_address d s = isa_rs1 d s + di_immediate d"

definition isa_next_pc :: "DecodedInstruction \<Rightarrow> isa_state \<Rightarrow> Address" where
  "isa_next_pc d s =
     (if di_op d = OP_JAL then isa_pc s + di_immediate d
      else if di_op d = OP_JALR then (isa_rs1 d s + di_immediate d) AND NOT 1
      else if branch_op (di_op d) \<and> isa_taken (di_op d) (isa_rs1 d s) (isa_rs2 d s)
        then isa_pc s + di_immediate d
      else isa_pc s + 4)"

text \<open>The value written to \<open>rd\<close> by an instruction that does not access memory.\<close>

definition isa_value :: "DecodedInstruction \<Rightarrow> isa_state \<Rightarrow> Word" where
  "isa_value d s =
     (if di_op d = OP_LUI then di_immediate d
      else if di_op d = OP_AUIPC then isa_pc s + di_immediate d
      else if jump_op (di_op d) then isa_pc s + 4
      else if reg_op (di_op d) then isa_alu (di_op d) (isa_rs1 d s) (isa_rs2 d s)
      else isa_alu (di_op d) (isa_rs1 d s) (di_immediate d))"

definition isa_exec :: "DecodedInstruction \<Rightarrow> isa_state \<Rightarrow> isa_outcome" where
  "isa_exec d s =
     (if di_op d = OP_HALT then Halted (isa_regs s 10 AND 0xff)
      else if di_op d = OP_INVALID then Illegal
      else if load_op (di_op d) then
        (case isa_load (di_op d) (isa_mem s) (isa_address d s) of
           None \<Rightarrow> MemFault
         | Some v \<Rightarrow> Step (s\<lparr>isa_pc := isa_next_pc d s,
                          isa_regs := set_reg (di_rd d) v (isa_regs s)\<rparr>))
      else if store_op (di_op d) then
        (case isa_store (di_op d) (isa_mem s) (isa_address d s) (isa_rs2 d s) of
           None \<Rightarrow> MemFault
         | Some m \<Rightarrow> Step (s\<lparr>isa_pc := isa_next_pc d s, isa_mem := m\<rparr>))
      else if branch_op (di_op d) then Step (s\<lparr>isa_pc := isa_next_pc d s\<rparr>)
      else Step (s\<lparr>isa_pc := isa_next_pc d s,
                   isa_regs := set_reg (di_rd d) (isa_value d s) (isa_regs s)\<rparr>))"

definition isa_step :: "isa_state \<Rightarrow> isa_outcome" where
  "isa_step s =
     (case read_word (isa_mem s) (isa_pc s) of
        None \<Rightarrow> FetchFault
      | Some w \<Rightarrow> isa_exec (decode w) s)"

text \<open>Runs of the sequential machine.\<close>

inductive isa_reach :: "isa_state \<Rightarrow> isa_state \<Rightarrow> bool" where
  isa_refl: "isa_reach s s"
| isa_more: "isa_reach s t \<Longrightarrow> isa_step t = Step u \<Longrightarrow> isa_reach s u"

inductive_cases isa_reachE: "isa_reach s t"

lemma isa_reach_trans: "isa_reach s t \<Longrightarrow> isa_reach t u \<Longrightarrow> isa_reach s u"
  by (rotate_tac, induction rule: isa_reach.induct) (auto intro: isa_reach.intros)

lemma isa_reach_step: "isa_step s = Step t \<Longrightarrow> isa_reach s t"
  by (rule isa_more [OF isa_refl])

fun isa_run :: "nat \<Rightarrow> isa_state \<Rightarrow> isa_outcome" where
  "isa_run 0 s = Step s"
| "isa_run (Suc n) s = (case isa_step s of Step t \<Rightarrow> isa_run n t | r \<Rightarrow> r)"

end
