(* ===== verification/ImageLoad.thy ===== *)
theory ImageLoad
  imports Image
begin

text \<open>
  The loader of \<open>memory/image.cpp\<close>.  An input stream is its characters and whether reading them
  ended in an I/O error (\<open>input.bad()\<close>).  \<open>std::getline\<close> splits at newlines, and \<open>operator>>\<close> into
  a string splits a line at white space; \<open>std::from_chars\<close> with base 16 reads a non-empty run of
  hexadecimal digits whose value fits 64 bits.
\<close>

section \<open>The stream\<close>

record istream =
  is_chars :: string
  is_bad :: bool

definition is_space :: "char \<Rightarrow> bool" where
  "is_space c \<longleftrightarrow> of_char c = (32 :: nat) \<or> (9 \<le> (of_char c :: nat) \<and> (of_char c :: nat) \<le> 13)"

text \<open>
  The lines that the loop over \<open>std::getline\<close> sees.  A last line without a newline is delivered at
  the end of the input, but not when the input ends in an error.
\<close>

fun getlines :: "bool \<Rightarrow> string \<Rightarrow> string \<Rightarrow> string list" where
  "getlines bad line [] = (if line = [] \<or> bad then [] else [rev line])"
| "getlines bad line (c # cs) =
     (if c = CHR 0x0A then rev line # getlines bad [] cs else getlines bad (c # line) cs)"

fun tokens :: "string \<Rightarrow> string \<Rightarrow> string list" where
  "tokens token [] = (if token = [] then [] else [rev token])"
| "tokens token (c # cs) =
     (if is_space c then (if token = [] then tokens [] cs else rev token # tokens [] cs)
      else tokens (c # token) cs)"

definition hex_digit :: "char \<Rightarrow> nat option" where
  "hex_digit c =
     (let n = of_char c in
      if 48 \<le> n \<and> n \<le> 57 then Some (n - 48)
      else if 97 \<le> n \<and> n \<le> 102 then Some (n - 87)
      else if 65 \<le> n \<and> n \<le> 70 then Some (n - 55)
      else None)"

fun hex_value :: "nat \<Rightarrow> string \<Rightarrow> nat option" where
  "hex_value v [] = Some v"
| "hex_value v (c # cs) =
     (case hex_digit c of None \<Rightarrow> None | Some d \<Rightarrow> hex_value (v * 16 + d) cs)"

definition parse_hex :: "string \<Rightarrow> nat option" where
  "parse_hex txt =
     (if txt = [] then None
      else case hex_value 0 txt of
             None \<Rightarrow> None
           | Some v \<Rightarrow> if v < 2 ^ 64 then Some v else None)"

section \<open>The loader\<close>

datatype ImageLoadStatus =
    kSuccess | kInvalidAddress | kInvalidByte | kMissingAddress | kAddressOutOfBounds | kStreamError

record ImageLoadResult =
  load_status :: ImageLoadStatus
  loaded_byte_count :: nat
  error_line :: nat
  error_token :: string

definition load_ok :: "ImageLoadResult \<Rightarrow> bool" where
  "load_ok r \<longleftrightarrow> load_status r = kSuccess"

text \<open>The local variables of \<open>MemoryImage::load\<close>, with the image they update.\<close>

record load_state =
  ls_image :: MemoryImage
  ls_current_address :: nat
  ls_bytes_loaded :: nat
  ls_has_current_address :: bool

definition make_result ::
  "load_state \<Rightarrow> ImageLoadStatus \<Rightarrow> nat \<Rightarrow> string \<Rightarrow> ImageLoadResult \<times> MemoryImage" where
  "make_result st status line token =
     (\<lparr>load_status = status, loaded_byte_count = ls_bytes_loaded st,
       error_line = line, error_token = token\<rparr>, ls_image st)"

definition store_loaded_byte :: "load_state \<Rightarrow> nat \<Rightarrow> load_state" where
  "store_loaded_byte st parsed_byte =
     (let m = ls_image st;
          current = ls_current_address st;
          loaded_address = of_nat current;
          loaded = ls_bytes_loaded st + 1;
          highest =
            (case highest_loaded_address m of
               None \<Rightarrow> Some loaded_address
             | Some h \<Rightarrow> if h < loaded_address then Some loaded_address else Some h)
      in st\<lparr>ls_image := m\<lparr>bytes := (bytes m)(current := of_nat parsed_byte),
                           load_byte_count := loaded,
                           highest_loaded_address := highest\<rparr>,
            ls_bytes_loaded := loaded,
            ls_current_address := current + 1\<rparr>)"

definition load_token ::
  "nat \<Rightarrow> string \<Rightarrow> load_state \<Rightarrow> (ImageLoadResult \<times> MemoryImage) + load_state" where
  "load_token line token st =
     (if token \<noteq> [] \<and> hd token = CHR 0x40 then
        (case parse_hex (tl token) of
           None \<Rightarrow> Inl (make_result st kInvalidAddress line token)
         | Some parsed_address \<Rightarrow>
             if parsed_address \<ge> kMemorySize then
               Inl (make_result st kAddressOutOfBounds line token)
             else
               Inr (st\<lparr>ls_current_address := parsed_address, ls_has_current_address := True\<rparr>))
      else if \<not> ls_has_current_address st then
        Inl (make_result st kMissingAddress line token)
      else
        (case parse_hex token of
           None \<Rightarrow> Inl (make_result st kInvalidByte line token)
         | Some parsed_byte \<Rightarrow>
             if parsed_byte > 0xff then Inl (make_result st kInvalidByte line token)
             else if ls_current_address st \<ge> kMemorySize then
               Inl (make_result st kAddressOutOfBounds line token)
             else Inr (store_loaded_byte st parsed_byte)))"

fun load_tokens ::
  "nat \<Rightarrow> string list \<Rightarrow> load_state \<Rightarrow> (ImageLoadResult \<times> MemoryImage) + load_state" where
  "load_tokens line [] st = Inr st"
| "load_tokens line (t # ts) st =
     (case load_token line t st of Inl r \<Rightarrow> Inl r | Inr st' \<Rightarrow> load_tokens line ts st')"

fun load_lines ::
  "nat \<Rightarrow> string list \<Rightarrow> load_state \<Rightarrow> (ImageLoadResult \<times> MemoryImage) + load_state" where
  "load_lines n [] st = Inr st"
| "load_lines n (l # ls) st =
     (case load_tokens (n + 1) (tokens [] l) st of
        Inl r \<Rightarrow> Inl r
      | Inr st' \<Rightarrow> load_lines (n + 1) ls st')"

definition image_load :: "istream \<Rightarrow> MemoryImage \<Rightarrow> ImageLoadResult \<times> MemoryImage" where
  "image_load input m =
     (let st = \<lparr>ls_image = image_clear m, ls_current_address = 0, ls_bytes_loaded = 0,
                ls_has_current_address = False\<rparr>
      in case load_lines 0 (getlines (is_bad input) [] (is_chars input)) st of
           Inl r \<Rightarrow> r
         | Inr st' \<Rightarrow>
             if is_bad input then make_result st' kStreamError 0 []
             else make_result st' kSuccess 0 [])"

end
