(* ===== verification/Interpreter.thy ===== *)
theory Interpreter
  imports Isa ImageLoad
begin

text \<open>
  \<open>reference/interpreter.cpp\<close>: the sequential interpreter the repository uses as the reference of
  its simulator.  \<open>execute\<close> is the switch of \<open>step\<close>: it yields either the status of an early
  return, or the write-back value, whether there is one, the next program counter and the memory.
\<close>

section \<open>Model\<close>

datatype Status =
    kNotLoaded | kReady | kRunning | kHalted | kLoadError | kFetchOutOfBounds
  | kInvalidInstruction | kMemoryOutOfBounds

record StepResult =
  sr_status :: Status
  sr_value :: Word

definition sr_halted :: "StepResult \<Rightarrow> bool" where
  "sr_halted r \<longleftrightarrow> sr_status r = kHalted"

definition sr_failed :: "StepResult \<Rightarrow> bool" where
  "sr_failed r \<longleftrightarrow> sr_status r = kLoadError \<or> sr_status r = kFetchOutOfBounds
     \<or> sr_status r = kInvalidInstruction \<or> sr_status r = kMemoryOutOfBounds"

record Interpreter =
  in_memory :: MemoryImage
  in_register :: "Word list"
  in_status :: Status
  in_pc :: Address
  in_instruction_count :: CycleCount
  in_exit_code :: Word

definition interpreter_new :: Interpreter where
  "interpreter_new =
     \<lparr>in_memory = \<lparr>bytes = (\<lambda>_. 0), load_byte_count = 0, highest_loaded_address = None\<rparr>,
      in_register = replicate 32 0, in_status = kNotLoaded, in_pc = 0,
      in_instruction_count = 0, in_exit_code = 0\<rparr>"

definition current_result :: "Interpreter \<Rightarrow> StepResult" where
  "current_result i = \<lparr>sr_status = in_status i, sr_value = in_exit_code i\<rparr>"

definition register_value :: "Interpreter \<Rightarrow> RegisterIndex \<Rightarrow> Word" where
  "register_value i idx =
     (if unat idx < length (in_register i) then in_register i ! unat idx else 0)"

definition arithmetic_shift_right :: "Word \<Rightarrow> Word \<Rightarrow> Word" where
  "arithmetic_shift_right v amount =
     (let amount = amount AND 31
      in if amount = 0 then v
         else
           let result = drop_bit (unat amount) v
           in if v AND 0x80000000 \<noteq> 0 then result OR push_bit (unat (32 - amount)) (NOT 0)
              else result)"

definition signed_less_than :: "Word \<Rightarrow> Word \<Rightarrow> bool" where
  "signed_less_than lhs rhs \<longleftrightarrow> sint lhs < sint rhs"

definition signed_greater_equal :: "Word \<Rightarrow> Word \<Rightarrow> bool" where
  "signed_greater_equal lhs rhs \<longleftrightarrow> sint lhs \<ge> sint rhs"

definition interpreter_load :: "istream \<Rightarrow> Interpreter \<Rightarrow> Interpreter \<times> ImageLoadResult" where
  "interpreter_load input i =
     (let i = i\<lparr>in_register := replicate 32 0, in_pc := 0, in_instruction_count := 0,
               in_exit_code := 0, in_status := kNotLoaded\<rparr>;
          (result, m) = image_load input (in_memory i)
      in (i\<lparr>in_memory := m, in_status := (if load_ok result then kReady else kLoadError)\<rparr>, result))"

text \<open>The effect of an instruction: \<open>(writeback_value, has_writeback, next_pc, memory)\<close>.\<close>

type_synonym effect = "Word \<times> bool \<times> Address \<times> MemoryImage"

definition load_effect ::
  "('v \<Rightarrow> Word) \<Rightarrow> 'v option \<Rightarrow> Address \<Rightarrow> MemoryImage \<Rightarrow> Status + effect" where
  "load_effect widen v next_pc m =
     (case v of None \<Rightarrow> Inl kMemoryOutOfBounds | Some x \<Rightarrow> Inr (widen x, True, next_pc, m))"

definition store_effect :: "MemoryImage \<times> bool \<Rightarrow> Address \<Rightarrow> Status + effect" where
  "store_effect w next_pc =
     (case w of (m, written) \<Rightarrow>
        if \<not> written then Inl kMemoryOutOfBounds else Inr (0, False, next_pc, m))"

definition execute ::
  "DecodedInstruction \<Rightarrow> Address \<Rightarrow> Word \<Rightarrow> Word \<Rightarrow> MemoryImage \<Rightarrow> Status + effect" where
  "execute instruction cur_pc rs1_value rs2_value m =
     (let immediate = di_immediate instruction;
          next_pc = cur_pc + of_nat kInstructionWidth;
          wb = (\<lambda>v. Inr (v, True, next_pc, m));
          branch = (\<lambda>c. Inr (0, False, if c then cur_pc + immediate else next_pc, m));
          address = rs1_value + immediate;
          shift_mask = (0x1f :: Word)
      in case di_op instruction of
           OP_LUI \<Rightarrow> wb immediate
         | OP_AUIPC \<Rightarrow> wb (cur_pc + immediate)
         | OP_ADDI \<Rightarrow> wb (rs1_value + immediate)
         | OP_SLT \<Rightarrow> wb (if signed_less_than rs1_value immediate then 1 else 0)
         | OP_SLTI \<Rightarrow> wb (if signed_less_than rs1_value immediate then 1 else 0)
         | OP_SLTU \<Rightarrow> wb (if rs1_value < immediate then 1 else 0)
         | OP_SLTIU \<Rightarrow> wb (if rs1_value < immediate then 1 else 0)
         | OP_XORI \<Rightarrow> wb (rs1_value XOR immediate)
         | OP_ORI \<Rightarrow> wb (rs1_value OR immediate)
         | OP_ANDI \<Rightarrow> wb (rs1_value AND immediate)
         | OP_SLLI \<Rightarrow> wb (push_bit (unat (immediate AND shift_mask)) rs1_value)
         | OP_SRLI \<Rightarrow> wb (drop_bit (unat (immediate AND shift_mask)) rs1_value)
         | OP_SRAI \<Rightarrow> wb (arithmetic_shift_right rs1_value (immediate AND shift_mask))
         | OP_ADD \<Rightarrow> wb (rs1_value + rs2_value)
         | OP_SUB \<Rightarrow> wb (rs1_value - rs2_value)
         | OP_AND \<Rightarrow> wb (rs1_value AND rs2_value)
         | OP_XOR \<Rightarrow> wb (rs1_value XOR rs2_value)
         | OP_OR \<Rightarrow> wb (rs1_value OR rs2_value)
         | OP_SLL \<Rightarrow> wb (push_bit (unat (rs2_value AND shift_mask)) rs1_value)
         | OP_SRL \<Rightarrow> wb (drop_bit (unat (rs2_value AND shift_mask)) rs1_value)
         | OP_SRA \<Rightarrow> wb (arithmetic_shift_right rs1_value (rs2_value AND shift_mask))
         | OP_JAL \<Rightarrow>
             Inr (cur_pc + of_nat kInstructionWidth, True, cur_pc + immediate, m)
         | OP_JALR \<Rightarrow>
             Inr (cur_pc + of_nat kInstructionWidth, True, (rs1_value + immediate) AND NOT 1, m)
         | OP_BEQ \<Rightarrow> branch (rs1_value = rs2_value)
         | OP_BNE \<Rightarrow> branch (rs1_value \<noteq> rs2_value)
         | OP_BLT \<Rightarrow> branch (signed_less_than rs1_value rs2_value)
         | OP_BGE \<Rightarrow> branch (signed_greater_equal rs1_value rs2_value)
         | OP_BLTU \<Rightarrow> branch (rs1_value < rs2_value)
         | OP_BGEU \<Rightarrow> branch (rs1_value \<ge> rs2_value)
         | OP_LB \<Rightarrow> load_effect (\<lambda>v. sign_extend (ucast v) 8) (read_byte m address) next_pc m
         | OP_LH \<Rightarrow> load_effect (\<lambda>v. sign_extend (ucast v) 16) (read_half m address) next_pc m
         | OP_LW \<Rightarrow> load_effect (\<lambda>v. v) (read_word m address) next_pc m
         | OP_LBU \<Rightarrow> load_effect ucast (read_byte m address) next_pc m
         | OP_LHU \<Rightarrow> load_effect ucast (read_half m address) next_pc m
         | OP_SB \<Rightarrow> store_effect (write_byte m address (ucast (rs2_value AND 0xff))) next_pc
         | OP_SH \<Rightarrow> store_effect (write_half m address (ucast (rs2_value AND 0xffff))) next_pc
         | OP_SW \<Rightarrow> store_effect (write_word m address rs2_value) next_pc
         | OP_INVALID \<Rightarrow> Inl kInvalidInstruction
         | OP_HALT \<Rightarrow> Inl kInvalidInstruction)"

definition step :: "Interpreter \<Rightarrow> Interpreter \<times> StepResult" where
  "step i =
     (let stop = (\<lambda>i. (i, current_result i))
      in if in_status i \<noteq> kReady \<and> in_status i \<noteq> kRunning then stop i
         else
           let cur_pc = in_pc i
           in case read_word (in_memory i) cur_pc of
                None \<Rightarrow> stop (i\<lparr>in_status := kFetchOutOfBounds\<rparr>)
              | Some fetched \<Rightarrow>
                  let instruction = decode fetched
                  in if di_op instruction = OP_HALT then
                       stop (i\<lparr>in_status := kHalted,
                               in_exit_code := (in_register i ! 10) AND 0xff\<rparr>)
                     else if di_op instruction = OP_INVALID then
                       stop (i\<lparr>in_status := kInvalidInstruction\<rparr>)
                     else
                       (case execute instruction cur_pc
                              (in_register i ! unat (di_rs1 instruction))
                              (in_register i ! unat (di_rs2 instruction)) (in_memory i) of
                         Inl status \<Rightarrow> stop (i\<lparr>in_status := status\<rparr>)
                       | Inr (writeback_value, has_writeback, next_pc, m) \<Rightarrow>
                           let regs = (if has_writeback \<and> di_rd instruction \<noteq> 0
                                       then (in_register i)[unat (di_rd instruction) := writeback_value]
                                       else in_register i)
                           in stop (i\<lparr>in_memory := m,
                                      in_register := regs[0 := 0],
                                      in_pc := next_pc,
                                      in_instruction_count := in_instruction_count i + 1,
                                      in_status := kRunning\<rparr>)))"

text \<open>The loop of \<open>run\<close>; a program that never stops has no result.\<close>

partial_function (option) run_loop :: "Interpreter \<Rightarrow> (Interpreter \<times> StepResult) option" where
  "run_loop i =
     (let r = step i
      in if sr_status (snd r) = kRunning then run_loop (fst r) else Some r)"

definition run :: "Interpreter \<Rightarrow> (Interpreter \<times> StepResult) option" where
  "run i =
     (if in_status i \<noteq> kReady \<and> in_status i \<noteq> kRunning then Some (i, current_result i)
      else run_loop i)"

end
