(* ===== verification/DecodeWf.thy ===== *)
theory DecodeWf
  imports Decoder Isa
begin

text \<open>
  What every decoded instruction satisfies, whatever the word: its register numbers address the
  register file, its class flags agree with its operation, and its operand selectors deliver the
  operands the operation needs.  The issue unit, the reservation station and the load/store queue
  rely on it without checking.
\<close>

definition writing_op :: "OP \<Rightarrow> bool" where
  "writing_op opr \<longleftrightarrow> \<not> store_op opr \<and> \<not> branch_op opr \<and> opr \<noteq> OP_HALT \<and> opr \<noteq> OP_INVALID"

definition registers_wf :: "DecodedInstruction \<Rightarrow> bool" where
  "registers_wf d \<longleftrightarrow> unat (di_rd d) < 32 \<and> unat (di_rs1 d) < 32 \<and> unat (di_rs2 d) < 32"

definition flags_wf :: "DecodedInstruction \<Rightarrow> bool" where
  "flags_wf d \<longleftrightarrow>
     di_is_load d = load_op (di_op d) \<and> di_is_store d = store_op (di_op d)
     \<and> di_is_branch d = branch_op (di_op d) \<and> di_is_jump d = jump_op (di_op d)
     \<and> di_writes_rd d = (writing_op (di_op d) \<and> di_rd d \<noteq> 0)"

fun operands_wf :: "OP \<Rightarrow> OperandSource \<Rightarrow> OperandSource \<Rightarrow> bool" where
  "operands_wf OP_LUI lhs rhs \<longleftrightarrow> lhs = Zero \<and> rhs = Immediate"
| "operands_wf OP_AUIPC lhs rhs \<longleftrightarrow> lhs = ProgramCounter \<and> rhs = Immediate"
| "operands_wf OP_JAL lhs rhs \<longleftrightarrow> lhs = ProgramCounter \<and> rhs = Immediate"
| "operands_wf OP_HALT lhs rhs \<longleftrightarrow> True"
| "operands_wf OP_INVALID lhs rhs \<longleftrightarrow> True"
| "operands_wf opr lhs rhs \<longleftrightarrow>
     lhs = Register \<and> rhs = (if reg_op opr \<or> branch_op opr then Register else Immediate)"

definition uses_wf :: "DecodedInstruction \<Rightarrow> bool" where
  "uses_wf d \<longleftrightarrow>
     (di_lhs_source d = Register \<longrightarrow> di_uses_rs1 d) \<and> (di_rhs_source d = Register \<longrightarrow> di_uses_rs2 d)
     \<and> (store_op (di_op d) \<longrightarrow> di_uses_rs2 d)"

definition decoded_wf :: "DecodedInstruction \<Rightarrow> bool" where
  "decoded_wf d \<longleftrightarrow> registers_wf d \<and> flags_wf d
     \<and> operands_wf (di_op d) (di_lhs_source d) (di_rhs_source d) \<and> uses_wf d"

lemmas decoded_wf_defs = decoded_wf_def registers_wf_def flags_wf_def uses_wf_def writing_op_def
  op_classes

lemma decode_register_bound:
  assumes "low \<le> high" and "high - low < 5"
  shows "unat (decode_register w high low) < 32"
proof -
  have "decode_register w high low = take_bit 5 (decode_register w high low)"
    by (rule bit_word_eqI)
       (use assms in \<open>auto simp: decode_register_def bit_simps bit_access\<close>)
  moreover have "unat (take_bit 5 (decode_register w high low)) < 2 ^ 5"
    by (simp only: unsigned_take_bit_eq take_bit_nat_less_exp)
  ultimately show ?thesis by simp
qed

lemma decode_register_bounds [simp]:
  "unat (decode_register w 11 7) < 32" "unat (decode_register w 19 15) < 32"
  "unat (decode_register w 24 20) < 32"
  by (simp_all add: decode_register_bound)

lemma decoded_default_wf: "decoded_wf decoded_default"
  by (simp add: decoded_wf_defs decoded_default_def)

lemma decode_halt_wf: "decoded_wf (decoded_default\<lparr>di_op := OP_HALT\<rparr>)"
  by (simp add: decoded_wf_defs decoded_default_def)

lemma decode_R_wf: "decoded_wf (decode_R_type w)"
  by (simp add: decode_R_type_def Let_def decoded_wf_defs decoded_default_def write_register_def)

lemma decode_S_wf: "decoded_wf (decode_S_type w)"
  by (simp add: decode_S_type_def Let_def decoded_wf_defs decoded_default_def)

lemma decode_B_wf: "decoded_wf (decode_B_type w)"
  by (simp add: decode_B_type_def Let_def decoded_wf_defs decoded_default_def)

lemma decode_J_wf: "decoded_wf (decode_J_type w)"
  by (simp add: decode_J_type_def decoded_wf_defs decoded_default_def write_register_def)

lemma decode_U_wf: "decoded_wf (decode_U_type w)"
  by (simp add: decode_U_type_def Let_def decoded_wf_defs decoded_default_def write_register_def)

text \<open>The decoder of the I format selects an operation by cases and completes it afterwards.\<close>

lemma decoded_wf_if: "decoded_wf d \<Longrightarrow> decoded_wf e \<Longrightarrow> decoded_wf (if b then d else e)"
  by simp

lemma decoded_wf_selected:
  assumes "pred_option P sel" and "\<And>r. P r \<Longrightarrow> decoded_wf (f r)"
  shows "decoded_wf (case sel of None \<Rightarrow> decoded_default | Some r \<Rightarrow> f r)"
  using assms decoded_default_wf by (cases sel) simp_all

lemma pred_option_if: "pred_option P x \<Longrightarrow> pred_option P y \<Longrightarrow> pred_option P (if b then x else y)"
  by simp

lemma pred_option_intros: "pred_option P None" "P r \<Longrightarrow> pred_option P (Some r)"
  by simp_all

definition immediate_op :: "DecodedInstruction \<Rightarrow> bool" where
  "immediate_op r \<longleftrightarrow> (\<exists>v. r = decoded_default\<lparr>di_op := di_op r, di_immediate := v\<rparr>)
     \<and> di_op r \<in> {OP_ADDI, OP_SLLI, OP_SLTI, OP_SLTIU, OP_XORI, OP_SRLI, OP_SRAI, OP_ORI, OP_ANDI}"

lemma immediate_op_intros:
  "opr \<in> {OP_ADDI, OP_SLLI, OP_SLTI, OP_SLTIU, OP_XORI, OP_SRLI, OP_SRAI, OP_ORI, OP_ANDI}
   \<Longrightarrow> immediate_op (decoded_default\<lparr>di_op := opr\<rparr>)"
  "opr \<in> {OP_ADDI, OP_SLLI, OP_SLTI, OP_SLTIU, OP_XORI, OP_SRLI, OP_SRAI, OP_ORI, OP_ANDI}
   \<Longrightarrow> immediate_op (decoded_default\<lparr>di_op := opr, di_immediate := v\<rparr>)"
  unfolding immediate_op_def by (auto simp: decoded_default_def)

lemma immediate_op_wf:
  assumes "immediate_op r"
  shows "decoded_wf (r\<lparr>di_rd := decode_register w 11 7, di_rs1 := decode_register w 19 15,
    di_immediate := v, di_lhs_source := Register, di_rhs_source := Immediate, di_uses_rs1 := True,
    di_writes_rd := write_register (decode_register w 11 7)\<rparr>)"
proof -
  obtain opr v where "r = decoded_default\<lparr>di_op := opr, di_immediate := v\<rparr>"
      "opr \<in> {OP_ADDI, OP_SLLI, OP_SLTI, OP_SLTIU, OP_XORI, OP_SRLI, OP_SRAI, OP_ORI, OP_ANDI}"
    using assms unfolding immediate_op_def by blast
  then show ?thesis
    by (auto simp: decoded_wf_defs decoded_default_def write_register_def)
qed

lemma load_op_wf:
  assumes "load_op opr"
  shows "decoded_wf (decoded_default\<lparr>di_op := opr, di_immediate := v, di_rd := decode_register w 11 7,
    di_rs1 := decode_register w 19 15, di_lhs_source := Register, di_rhs_source := Immediate,
    di_is_load := True, di_uses_rs1 := True, di_writes_rd := write_register (decode_register w 11 7)\<rparr>)"
  using assms by (auto simp: decoded_wf_defs decoded_default_def write_register_def)

lemma jalr_wf:
  "decoded_wf (decoded_default\<lparr>di_op := OP_JALR, di_rd := decode_register w 11 7,
    di_rs1 := decode_register w 19 15, di_immediate := v, di_lhs_source := Register,
    di_rhs_source := Immediate, di_uses_rs1 := True,
    di_writes_rd := write_register (decode_register w 11 7), di_is_jump := True\<rparr>)"
  by (simp add: decoded_wf_defs decoded_default_def write_register_def)

lemma decode_I_wf: "decoded_wf (decode_I_type w)"
  unfolding decode_I_type_def Let_def
  by (intro decoded_wf_if decoded_default_wf jalr_wf
        decoded_wf_selected [where P = immediate_op, OF _ immediate_op_wf]
        decoded_wf_selected [where P = load_op, OF _ load_op_wf]
        pred_option_if pred_option_intros immediate_op_intros)
     (simp_all add: load_op_def)

lemma decode_wf: "decoded_wf (decode w)"
  unfolding decode_def Let_def
  by (intro decoded_wf_if decode_R_wf decode_I_wf decode_S_wf decode_B_wf decode_U_wf
      decode_J_wf decoded_default_wf decode_halt_wf)

lemma decoded_wfD:
  assumes "decoded_wf d"
  shows "unat (di_rd d) < 32" "unat (di_rs1 d) < 32" "unat (di_rs2 d) < 32"
    and "di_is_load d = load_op (di_op d)" "di_is_store d = store_op (di_op d)"
    and "di_is_branch d = branch_op (di_op d)" "di_is_jump d = jump_op (di_op d)"
    and "di_writes_rd d = (writing_op (di_op d) \<and> di_rd d \<noteq> 0)"
    and "operands_wf (di_op d) (di_lhs_source d) (di_rhs_source d)"
  using assms by (simp_all add: decoded_wf_def registers_wf_def flags_wf_def)

lemmas decode_wfD = decoded_wfD [OF decode_wf]

section \<open>Property\<close>

text \<open>C19: whatever the instruction word, the decoder's output is well formed: registers below 32,
  class flags that agree with the operation, \<open>writes_rd\<close> exactly for operations with a destination
  other than \<open>x0\<close>, and operand selectors that match the operation.\<close>

theorem decode_well_formed: "decoded_wf (decode w)"
  by (rule decode_wf)

end
