(* ===== verification/Arithmetic.thy ===== *)
theory Arithmetic
  imports Isa
begin

text \<open>
  The bit tricks of the execution code against the arithmetic of the specification: masked shift
  amounts, the arithmetic right shift built from a logical shift and a mask, and the unsigned
  comparison of words.  The interpreter and the functional unit contain the same tricks.
\<close>

lemma unat_and_31: "unat ((b :: Word) AND 31) = shift_amount b"
proof -
  have "(b AND 31) = take_bit 5 b"
    by (simp add: take_bit_eq_mask mask_eq_exp_minus_1)
  then have "unat (b AND 31) = take_bit 5 (unat b)"
    by (simp add: unsigned_take_bit_eq)
  then show ?thesis by (simp add: shift_amount_def take_bit_eq_mod)
qed

lemma shift_amount_less [simp]: "shift_amount b < 32"
  by (simp add: shift_amount_def)

lemma sign_bit_iff: "(v AND 0x80000000 \<noteq> 0) = bit (v :: Word) 31"
proof -
  have m: "bit (0x80000000 :: Word) n = (n = 31)" if "n < 32" for n
  proof -
    have "bit (push_bit 31 (1 :: Word)) n = (n = 31)"
      unfolding bit_push_bit_iff using that by auto
    then show ?thesis by simp
  qed
  have "(v AND 0x80000000 \<noteq> 0) = (\<exists>n < 32. bit (v AND 0x80000000) n)"
    by (auto simp: bit_eq_iff [of "v AND 0x80000000"] bit_word_above intro: ccontr)
  also have "\<dots> = (\<exists>n < 32. bit v n \<and> n = 31)"
    unfolding bit_and_iff using m by blast
  also have "\<dots> = bit v 31" by simp
  finally show ?thesis .
qed

lemma shift_right_by_mask:
  assumes "n < 32"
  shows "(if n = 0 then v
          else if v AND 0x80000000 \<noteq> 0 then drop_bit n v OR push_bit (32 - n) (NOT 0)
          else drop_bit n v) = signed_drop_bit n (v :: Word)"
proof (rule bit_word_eqI)
  fix i assume "i < LENGTH(32)"
  then have i: "i < 32" by simp
  show "bit (if n = 0 then v
          else if v AND 0x80000000 \<noteq> 0 then drop_bit n v OR push_bit (32 - n) (NOT 0)
          else drop_bit n v) i = bit (signed_drop_bit n v) i"
    using i assms bit_word_above [of "n + i" v]
    by (auto simp: sign_bit_iff bit_simps min_def not_le)
qed

lemma unat_32_minus: "n < 32 \<Longrightarrow> n \<noteq> 0 \<Longrightarrow> unat ((32 :: Word) - of_nat n) = 32 - n"
  by (subst unat_sub) (simp_all add: word_le_nat_alt)

lemma shift_right_trick:
  "(let amount = (b AND 31) AND 31
    in if amount = 0 then v
       else
         let result = drop_bit (unat amount) v
         in if v AND 0x80000000 \<noteq> 0 then result OR push_bit (unat (32 - amount)) (NOT 0)
            else result) = signed_drop_bit (shift_amount b) (v :: Word)"
proof -
  have a: "b AND 31 = of_nat (shift_amount b)"
    by (simp only: unat_and_31 [symmetric] of_nat_unat ucast_id)
  have z: "(b AND 31 = 0) = (shift_amount b = 0)"
    by (metis unat_and_31 unat_eq_0)
  have s: "b AND 31 \<noteq> 0 \<Longrightarrow> unat (32 - (b AND 31)) = 32 - shift_amount b"
    using unat_32_minus [of "shift_amount b"] z a by simp
  have i: "(b AND 31) AND 31 = b AND 31"
    by (simp add: and.assoc)
  show ?thesis
    using shift_right_by_mask [of "shift_amount b" v] s z
    by (auto simp: Let_def i unat_and_31 split: if_splits)
qed

lemma word_less_unat: "((a :: Word) < b) = (unat a < unat b)"
  by (simp add: word_less_nat_alt)

section \<open>Narrow loads and stores\<close>

lemma sign_extend_byte: "sign_extend (ucast (v :: Byte)) 8 = scast v"
  by (rule bit_word_eqI)
     (auto simp: sign_extend_signed_take_bit bit_simps min_def not_le le_less)

lemma sign_extend_half: "sign_extend (ucast (v :: HalfWord)) 16 = scast v"
  by (rule bit_word_eqI)
     (auto simp: sign_extend_signed_take_bit bit_simps min_def not_le le_less)

lemma ucast_and_byte: "(ucast ((v :: Word) AND 0xff) :: Byte) = ucast v"
  by (rule bit_word_eqI) (simp add: and_0xff bit_simps)

lemma ucast_and_half: "(ucast ((v :: Word) AND 0xffff) :: HalfWord) = ucast v"
  by (rule bit_word_eqI) (simp add: and_0xffff bit_simps)

end
