(* ===== verification/InterpreterCorrect.thy ===== *)
theory InterpreterCorrect
  imports Interpreter DecodeWf Encoding Arithmetic
begin

text \<open>
  The interpreter against the specification: a step of the interpreter is a step of the sequential
  machine, outcome by outcome, for every instruction but \<open>SLT\<close> and \<open>SLTU\<close>, which compare \<open>rs1\<close>
  with the immediate field of an instruction that has none.
\<close>

definition interp_invar :: "Interpreter \<Rightarrow> bool" where [inv_defs]:
  "interp_invar i \<longleftrightarrow> length (in_register i) = 32 \<and> in_register i ! 0 = 0"

definition isa_of :: "Interpreter \<Rightarrow> isa_state" where
  "isa_of i = \<lparr>isa_pc = in_pc i, isa_regs = register_value i, isa_mem = in_memory i\<rparr>"

definition outcome_of :: "Interpreter \<times> StepResult \<Rightarrow> isa_outcome" where
  "outcome_of r =
     (case sr_status (snd r) of
        kHalted \<Rightarrow> Halted (sr_value (snd r))
      | kFetchOutOfBounds \<Rightarrow> FetchFault
      | kInvalidInstruction \<Rightarrow> Illegal
      | kMemoryOutOfBounds \<Rightarrow> MemFault
      | _ \<Rightarrow> Step (isa_of (fst r)))"

definition fetched_op :: "MemoryImage \<Rightarrow> Address \<Rightarrow> OP" where
  "fetched_op m pc = (case read_word m pc of None \<Rightarrow> OP_INVALID | Some w \<Rightarrow> di_op (decode w))"

section \<open>Registers\<close>

lemma unat_less_neq_0: "r \<noteq> 0 \<Longrightarrow> 0 < unat (r :: RegisterIndex)"
  using unat_gt_0 by blast

lemma register_value_zero:
  "interp_invar i \<Longrightarrow> register_value i 0 = 0"
  by (simp add: interp_invar_def register_value_def)

lemma register_value_nth:
  "interp_invar i \<Longrightarrow> unat r < 32 \<Longrightarrow> in_register i ! unat r = register_value i r"
  by (simp add: interp_invar_def register_value_def)

lemma writeback_registers:
  assumes "interp_invar i" and "unat rd < 32"
    and "in_register j = (if w \<and> rd \<noteq> 0 then (in_register i)[unat rd := v] else in_register i)[0 := 0]"
  shows "register_value j = (if w then set_reg rd v (register_value i) else register_value i)"
proof (rule ext)
  fix r
  show "register_value j r = (if w then set_reg rd v (register_value i) else register_value i) r"
    using assms unat_less_neq_0 [of r] unat_less_neq_0 [of rd]
    by (cases "r = 0")
       (auto simp: register_value_def set_reg_def interp_invar_def word_unat_eq_iff)
qed

section \<open>One instruction\<close>

definition isa_effect :: "DecodedInstruction \<Rightarrow> isa_state \<Rightarrow> Status + effect" where
  "isa_effect d s =
     (if load_op (di_op d) then
        (case isa_load (di_op d) (isa_mem s) (isa_address d s) of
           None \<Rightarrow> Inl kMemoryOutOfBounds
         | Some v \<Rightarrow> Inr (v, True, isa_next_pc d s, isa_mem s))
      else if store_op (di_op d) then
        (case isa_store (di_op d) (isa_mem s) (isa_address d s) (isa_rs2 d s) of
           None \<Rightarrow> Inl kMemoryOutOfBounds
         | Some m \<Rightarrow> Inr (0, False, isa_next_pc d s, m))
      else if branch_op (di_op d) then Inr (0, False, isa_next_pc d s, isa_mem s)
      else Inr (isa_value d s, True, isa_next_pc d s, isa_mem s))"

lemma interp_shift_right: "arithmetic_shift_right v (b AND 31) = signed_drop_bit (shift_amount b) v"
  unfolding arithmetic_shift_right_def by (rule shift_right_trick)

lemmas execute_simps = execute_def Let_def isa_effect_def isa_value_def isa_next_pc_def
  isa_address_def op_classes kInstructionWidth_def signed_less_than_def signed_greater_equal_def
  unat_and_31 interp_shift_right word_less_unat word_le_nat_alt not_less load_effect_def
  store_effect_def sign_extend_byte sign_extend_half ucast_and_byte ucast_and_half

lemma execute_effect:
  assumes "di_op d \<notin> {OP_SLT, OP_SLTU, OP_HALT, OP_INVALID}"
  shows "execute d (isa_pc s) (isa_rs1 d s) (isa_rs2 d s) (isa_mem s) = isa_effect d s"
  using assms
  by (cases "di_op d")
     (simp_all add: execute_simps split: option.splits prod.splits)

lemma exec_effect:
  assumes "di_op d \<noteq> OP_HALT" and "di_op d \<noteq> OP_INVALID"
  shows "isa_exec d s =
     (case isa_effect d s of
        Inl _ \<Rightarrow> MemFault
      | Inr (v, wb, pc, m) \<Rightarrow>
          Step (s\<lparr>isa_pc := pc, isa_regs := if wb then set_reg (di_rd d) v (isa_regs s) else isa_regs s,
                  isa_mem := m\<rparr>))"
  using assms by (simp add: isa_exec_def isa_effect_def split: option.splits)

text \<open>The successful end of a step: the new interpreter state and its abstraction.\<close>

definition stop_outcome :: "Interpreter \<Rightarrow> isa_outcome" where
  "stop_outcome i =
     (case in_status i of
        kHalted \<Rightarrow> Halted (in_exit_code i)
      | kFetchOutOfBounds \<Rightarrow> FetchFault
      | kInvalidInstruction \<Rightarrow> Illegal
      | kMemoryOutOfBounds \<Rightarrow> MemFault
      | _ \<Rightarrow> Step (isa_of i))"

lemma outcome_stop: "outcome_of (i, current_result i) = stop_outcome i"
  by (cases "in_status i") (simp_all add: outcome_of_def stop_outcome_def current_result_def)

lemma stop_status [simp]:
  "stop_outcome (i\<lparr>in_status := kFetchOutOfBounds\<rparr>) = FetchFault"
  "stop_outcome (i\<lparr>in_status := kInvalidInstruction\<rparr>) = Illegal"
  "stop_outcome (i\<lparr>in_status := kMemoryOutOfBounds\<rparr>) = MemFault"
  "stop_outcome (i\<lparr>in_status := kHalted, in_exit_code := v\<rparr>) = Halted v"
  "stop_outcome (i\<lparr>in_status := kRunning\<rparr>) = Step (isa_of i)"
  by (simp_all add: stop_outcome_def isa_of_def register_value_def fun_eq_iff)

lemma step_unfold:
  assumes "in_status i = kReady \<or> in_status i = kRunning"
  shows "outcome_of (step i) =
     (case read_word (in_memory i) (in_pc i) of
        None \<Rightarrow> FetchFault
      | Some w \<Rightarrow>
          let d = decode w in
          if di_op d = OP_HALT then Halted (in_register i ! 10 AND 0xff)
          else if di_op d = OP_INVALID then Illegal
          else (case execute d (in_pc i) (in_register i ! unat (di_rs1 d))
                  (in_register i ! unat (di_rs2 d)) (in_memory i) of
                 Inl st \<Rightarrow> stop_outcome (i\<lparr>in_status := st\<rparr>)
               | Inr (v, wb, pc, m) \<Rightarrow>
                   stop_outcome (i\<lparr>in_memory := m, in_register :=
                     (if wb \<and> di_rd d \<noteq> 0 then (in_register i)[unat (di_rd d) := v]
                      else in_register i)[0 := 0], in_pc := pc,
                     in_instruction_count := in_instruction_count i + 1, in_status := kRunning\<rparr>)))"
proof -
  have c: "\<not> (in_status i \<noteq> kReady \<and> in_status i \<noteq> kRunning)"
    using assms by simp
  show ?thesis
    unfolding step_def Let_def if_not_P [OF c]
    by (simp add: outcome_stop split: option.split sum.split prod.split)
qed

lemma effect_status: "isa_effect d s = Inl st \<Longrightarrow> st = kMemoryOutOfBounds"
  by (auto simp: isa_effect_def split: if_splits option.splits)

lemma interpreter_step_correct:
  assumes inv: "interp_invar i"
    and run: "in_status i = kReady \<or> in_status i = kRunning"
    and op: "fetched_op (in_memory i) (in_pc i) \<notin> {OP_SLT, OP_SLTU}"
  shows "outcome_of (step i) = isa_step (isa_of i)"
proof (cases "read_word (in_memory i) (in_pc i)")
  case None
  then show ?thesis by (simp add: step_unfold [OF run] isa_step_def isa_of_def)
next
  case (Some w)
  define d where "d = decode w"
  define s where "s = isa_of i"
  have regs: "in_register i ! unat (di_rs1 d) = isa_rs1 d s"
      "in_register i ! unat (di_rs2 d) = isa_rs2 d s" "in_register i ! 10 = isa_regs s 10"
    using register_value_nth [OF inv, of "di_rs1 d"] register_value_nth [OF inv, of "di_rs2 d"]
      register_value_nth [OF inv, of 10] decode_wfD(2) [of w] decode_wfD(3) [of w]
    by (simp_all add: d_def s_def isa_of_def isa_rs1_def isa_rs2_def)
  have s: "in_pc i = isa_pc s" "in_memory i = isa_mem s" "register_value i = isa_regs s"
    by (simp_all add: s_def isa_of_def)
  have rd: "unat (di_rd d) < 32" by (simp add: d_def decode_wfD(1))
  have step: "isa_step s = isa_exec d s"
    using Some by (simp add: isa_step_def d_def s)
  consider (halt) "di_op d = OP_HALT" | (inv) "di_op d = OP_INVALID"
    | (ok) "di_op d \<notin> {OP_SLT, OP_SLTU, OP_HALT, OP_INVALID}"
    using op Some by (auto simp: fetched_op_def d_def)
  then show ?thesis
  proof cases
    case halt
    then show ?thesis
      using Some step regs by (simp add: step_unfold [OF run] isa_exec_def d_def s_def)
  next
    case inv
    then show ?thesis
      using Some step by (simp add: step_unfold [OF run] isa_exec_def d_def s_def)
  next
    case ok
    then have e: "execute d (in_pc i) (isa_rs1 d s) (isa_rs2 d s) (in_memory i) = isa_effect d s"
      using execute_effect [of d s] by (simp add: s)
    have u: "outcome_of (step i) =
      (case isa_effect d s of
         Inl st \<Rightarrow> stop_outcome (i\<lparr>in_status := st\<rparr>)
       | Inr (v, wb, pc, m) \<Rightarrow>
           stop_outcome (i\<lparr>in_memory := m, in_register :=
             (if wb \<and> di_rd d \<noteq> 0 then (in_register i)[unat (di_rd d) := v]
              else in_register i)[0 := 0], in_pc := pc,
             in_instruction_count := in_instruction_count i + 1, in_status := kRunning\<rparr>))"
      using ok Some by (simp add: step_unfold [OF run] d_def [symmetric] regs e)
    show ?thesis
    proof (cases "isa_effect d s")
      case (Inl st)
      then show ?thesis
        using ok effect_status [OF Inl] step
        by (simp add: u exec_effect s_def [symmetric])
    next
      case (Inr e)
      obtain v wb pc m where e: "e = (v, wb, pc, m)" by (cases e)
      define j where "j = i\<lparr>in_memory := m, in_register :=
             (if wb \<and> di_rd d \<noteq> 0 then (in_register i)[unat (di_rd d) := v]
              else in_register i)[0 := 0], in_pc := pc,
             in_instruction_count := in_instruction_count i + 1, in_status := kRunning\<rparr>"
      have w: "register_value j
          = (if wb then set_reg (di_rd d) v (register_value i) else register_value i)"
        by (rule writeback_registers [OF inv rd]) (simp add: j_def)
      have "stop_outcome j = Step (isa_of j)"
        by (simp add: stop_outcome_def j_def)
      also have "isa_of j = s\<lparr>isa_pc := pc,
          isa_regs := if wb then set_reg (di_rd d) v (isa_regs s) else isa_regs s, isa_mem := m\<rparr>"
        by (simp add: isa_of_def w s) (simp add: j_def)
      finally have "stop_outcome j = isa_exec d s"
        using ok Inr e by (simp add: exec_effect)
      moreover have "outcome_of (step i) = stop_outcome j"
        unfolding u Inr e j_def by (simp only: sum.case prod.case)
      ultimately show ?thesis using step by (simp add: s_def)
    qed
  qed
qed

section \<open>Runs\<close>

definition runnable :: "Interpreter \<Rightarrow> bool" where
  "runnable i \<longleftrightarrow> in_status i = kReady \<or> in_status i = kRunning"

lemma step_stuck: "\<not> runnable i \<Longrightarrow> step i = (i, current_result i)"
  by (simp add: step_def runnable_def)

lemma step_result: "snd (step i) = current_result (fst (step i))"
  by (auto simp: step_def Let_def split: option.split sum.split prod.split)

lemma step_invar: "interp_invar i \<Longrightarrow> interp_invar (fst (step i))"
  by (auto simp: step_def Let_def interp_invar_def split: option.split sum.split prod.split)

lemma execute_status: "execute d pc a b m = Inl st \<Longrightarrow> st = kMemoryOutOfBounds \<or> st = kInvalidInstruction"
  by (cases "di_op d")
     (auto simp: execute_def Let_def load_effect_def store_effect_def split: option.splits prod.splits if_splits)

lemma step_status:
  assumes "runnable i"
  shows "in_status (fst (step i)) \<in> {kRunning, kHalted, kFetchOutOfBounds, kInvalidInstruction,
           kMemoryOutOfBounds}"
proof -
  have c: "\<not> (in_status i \<noteq> kReady \<and> in_status i \<noteq> kRunning)"
    using assms by (simp add: runnable_def)
  show ?thesis
    unfolding step_def Let_def if_not_P [OF c]
    by (auto dest!: execute_status split: option.split sum.split prod.split)
qed

lemma outcome_step_iff:
  assumes "runnable i"
  shows "(\<exists>s. outcome_of (step i) = Step s) \<longleftrightarrow> sr_status (snd (step i)) = kRunning"
    and "outcome_of (step i) = Step s \<Longrightarrow> isa_of (fst (step i)) = s"
  using step_status [OF assms] step_result [of i]
  by (auto simp: outcome_of_def current_result_def)

definition slt_free :: "isa_state \<Rightarrow> bool" where
  "slt_free s \<longleftrightarrow>
     (\<forall>t. isa_reach s t \<longrightarrow> fetched_op (isa_mem t) (isa_pc t) \<notin> {OP_SLT, OP_SLTU})"

lemma slt_free_here: "slt_free (isa_of i) \<Longrightarrow> fetched_op (in_memory i) (in_pc i) \<notin> {OP_SLT, OP_SLTU}"
  unfolding slt_free_def by (drule spec [of _ "isa_of i"]) (simp add: isa_refl isa_of_def)

lemma slt_free_step: "slt_free s \<Longrightarrow> isa_step s = Step t \<Longrightarrow> slt_free t"
  unfolding slt_free_def by (blast intro: isa_reach_trans isa_reach_step)

lemma run_loop_terminates:
  assumes "isa_run n (isa_of i) = r" and "\<forall>s. r \<noteq> Step s"
    and "interp_invar i" and "runnable i" and "slt_free (isa_of i)"
  shows "\<exists>j. run_loop i = Some j \<and> outcome_of j = r"
  using assms
proof (induction n arbitrary: i)
  case 0
  then show ?case by auto
next
  case (Suc n)
  have st: "outcome_of (step i) = isa_step (isa_of i)"
    using Suc.prems slt_free_here interpreter_step_correct by (simp add: runnable_def)
  show ?case
  proof (cases "isa_step (isa_of i)")
    case (Step t)
    let ?i = "fst (step i)"
    have k: "sr_status (snd (step i)) = kRunning" and t: "isa_of ?i = t"
      using outcome_step_iff [OF Suc.prems(4)] st Step by auto
    have "in_status ?i = kRunning"
      using k step_result [of i] by (simp add: current_result_def)
    then have "\<exists>j. run_loop ?i = Some j \<and> outcome_of j = r"
      using Suc.prems Step t slt_free_step
      by (intro Suc.IH) (auto simp: runnable_def step_invar)
    then show ?thesis
      using k by (simp add: run_loop.simps [of i] Let_def)
  qed (use Suc.prems st outcome_step_iff(1) [OF Suc.prems(4)]
       in \<open>auto simp: run_loop.simps [of i] Let_def\<close>)
qed

lemma run_loop_sound:
  assumes "run_loop i = Some j" and "interp_invar i" and "runnable i" and "slt_free (isa_of i)"
  shows "\<exists>n. isa_run n (isa_of i) = outcome_of j \<and> (\<forall>s. outcome_of j \<noteq> Step s)"
  using assms
proof (induction arbitrary: rule: run_loop.raw_induct [rotated, consumes 1])
  case (1 rl i j)
  have st: "outcome_of (step i) = isa_step (isa_of i)"
    using 1 slt_free_here interpreter_step_correct by (simp add: runnable_def)
  show ?case
  proof (cases "sr_status (snd (step i)) = kRunning")
    case True
    let ?i = "fst (step i)"
    obtain t where t: "isa_step (isa_of i) = Step t" "isa_of ?i = t"
      using outcome_step_iff [OF 1(4)] True st by metis
    have "in_status ?i = kRunning"
      using True step_result [of i] by (simp add: current_result_def)
    moreover have "rl ?i = Some j"
      using 1(2) True by (simp add: Let_def)
    ultimately obtain n where "isa_run n (isa_of ?i) = outcome_of j" "\<forall>s. outcome_of j \<noteq> Step s"
      using 1(1) [of ?i j] 1(3-5) t slt_free_step by (auto simp: runnable_def step_invar)
    then have "isa_run (Suc n) (isa_of i) = outcome_of j \<and> (\<forall>s. outcome_of j \<noteq> Step s)"
      using t by simp
    then show ?thesis by blast
  next
    case False
    then have "j = step i" using 1(2) by (simp add: Let_def)
    moreover have "\<forall>s. isa_step (isa_of i) \<noteq> Step s"
      using False outcome_step_iff(1) [OF 1(4)] st by auto
    ultimately have "isa_run 1 (isa_of i) = outcome_of j \<and> (\<forall>s. outcome_of j \<noteq> Step s)"
      using st by (auto split: isa_outcome.split)
    then show ?thesis by blast
  qed
qed

section \<open>Properties\<close>

text \<open>A program of one word: the image, and an interpreter about to run it.\<close>

definition word_image :: "Word \<Rightarrow> MemoryImage" where
  "word_image w = \<lparr>bytes = (\<lambda>_. 0)(0 := ucast w, 1 := ucast (drop_bit 8 w),
     2 := ucast (drop_bit 16 w), 3 := ucast (drop_bit 24 w)),
     load_byte_count = 4, highest_loaded_address = Some 3\<rparr>"

definition demo_interpreter :: "Word \<Rightarrow> Interpreter" where
  "demo_interpreter w = \<lparr>in_memory = word_image w, in_register = (replicate 32 0)[10 := 0x1234],
     in_status = kReady, in_pc = 0, in_instruction_count = 0, in_exit_code = 0\<rparr>"

lemma read_word_image: "read_word (word_image w) 0 = Some w"
proof -
  have "ucast (ucast w :: Byte)
     OR push_bit 8 (ucast (ucast (drop_bit 8 w) :: Byte))
     OR push_bit 16 (ucast (ucast (drop_bit 16 w) :: Byte))
     OR push_bit 24 (ucast (ucast (drop_bit 24 w) :: Byte)) = w"
    by (rule word_eq_32I) (simp add: bit_simps)
  then show ?thesis
    by (simp add: read_word_def in_bounds_def word_image_def)
qed

lemma demo_ready:
  "interp_invar (demo_interpreter w)" "runnable (demo_interpreter w)"
  "in_memory (demo_interpreter w) = word_image w" "in_pc (demo_interpreter w) = 0"
  "in_status (demo_interpreter w) = kReady"
  by (simp_all add: interp_invar_def runnable_def demo_interpreter_def)

text \<open>C15: a step of the interpreter is a step of the sequential instruction set semantics, with the
  same outcome: the next state, the exit value of a halt, and the fetch, decode and memory errors.
  This holds for every instruction except \<open>SLT\<close> and \<open>SLTU\<close>, which the interpreter executes wrongly:
  it does not look at \<open>rs2\<close>.\<close>

theorem interpreter_refines_isa:
  assumes "interp_invar i" and "runnable i"
    and "fetched_op (in_memory i) (in_pc i) \<notin> {OP_SLT, OP_SLTU}"
  shows "outcome_of (step i) = isa_step (isa_of i) \<and> interp_invar (fst (step i))"
  using assms interpreter_step_correct step_invar by (simp add: runnable_def)

theorem interpreter_refines_isa_witness:
  "outcome_of (step (demo_interpreter 0x00b50533)) = isa_step (isa_of (demo_interpreter 0x00b50533))
   \<and> interp_invar (fst (step (demo_interpreter 0x00b50533)))"
proof -
  have "di_op (decode 0x00b50533) = OP_ADD" by code_simp
  then show ?thesis
    by (intro interpreter_refines_isa demo_ready)
       (simp add: fetched_op_def demo_ready read_word_image)
qed

definition reg_op_immediate :: "DecodedInstruction \<Rightarrow> bool" where
  "reg_op_immediate d \<longleftrightarrow> (reg_op (di_op d) \<longrightarrow> di_immediate d = 0)"

lemma format_immediates:
  "reg_op_immediate (decode_R_type w)" "reg_op_immediate (decode_S_type w)"
  "reg_op_immediate (decode_B_type w)" "reg_op_immediate (decode_J_type w)"
  "reg_op_immediate (decode_U_type w)" "reg_op_immediate (decode_I_type w)"
  "reg_op_immediate decoded_default" "reg_op_immediate (decoded_default\<lparr>di_op := OP_HALT\<rparr>)"
  by (simp_all add: reg_op_immediate_def decode_formats Let_def reg_op_def decoded_default_def)

lemma R_type_immediate:
  "reg_op (di_op (decode w)) \<Longrightarrow> di_immediate (decode w) = 0"
proof -
  have "reg_op_immediate (decode w)"
    by (simp add: decode_def Let_def format_immediates)
  then show "reg_op (di_op (decode w)) \<Longrightarrow> di_immediate (decode w) = 0"
    by (simp add: reg_op_immediate_def)
qed

text \<open>C20: the interpreter executes \<open>SLT\<close> and \<open>SLTU\<close> without looking at \<open>rs2\<close>: the destination
  receives whether \<open>rs1\<close> is negative, or zero.\<close>

theorem interpreter_slt_ignores_rs2:
  assumes "interp_invar i" and "runnable i" and "read_word (in_memory i) (in_pc i) = Some w"
    and "di_op (decode w) \<in> {OP_SLT, OP_SLTU}"
  shows "outcome_of (step i) = Step ((isa_of i)\<lparr>isa_pc := in_pc i + 4,
     isa_regs := set_reg (di_rd (decode w))
       (if di_op (decode w) = OP_SLT \<and> sint (register_value i (di_rs1 (decode w))) < 0 then 1 else 0)
       (register_value i)\<rparr>)"
proof -
  define d where "d = decode w"
  define v :: Word where
    "v = (if di_op d = OP_SLT \<and> sint (register_value i (di_rs1 d)) < 0 then 1 else 0)"
  have opr: "di_op d = OP_SLT \<or> di_op d = OP_SLTU"
    using assms(4) by (simp add: d_def)
  then have "reg_op (di_op d)" by (auto simp: reg_op_def)
  then have imm: "di_immediate d = 0"
    unfolding d_def by (rule R_type_immediate)
  have rd: "unat (di_rd d) < 32" by (simp add: d_def decode_wfD(1))
  have rs1: "in_register i ! unat (di_rs1 d) = register_value i (di_rs1 d)"
    using register_value_nth [OF assms(1)] by (simp add: d_def decode_wfD(2))
  have e: "execute d (in_pc i) (in_register i ! unat (di_rs1 d))
      (in_register i ! unat (di_rs2 d)) (in_memory i) = Inr (v, True, in_pc i + 4, in_memory i)"
    using opr
    by (elim disjE)
       (simp_all add: execute_def Let_def rs1 imm v_def signed_less_than_def kInstructionWidth_def)
  have ne: "(di_op d = OP_HALT) = False" "(di_op d = OP_INVALID) = False"
    using opr by auto
  define j where "j = i\<lparr>in_memory := in_memory i, in_register :=
       (if True \<and> di_rd d \<noteq> 0 then (in_register i)[unat (di_rd d) := v] else in_register i)[0 := 0],
       in_pc := in_pc i + 4, in_instruction_count := in_instruction_count i + 1,
       in_status := kRunning\<rparr>"
  have w: "register_value j = set_reg (di_rd d) v (register_value i)"
    using writeback_registers [OF assms(1) rd, of j True v] by (simp add: j_def)
  have run: "in_status i = kReady \<or> in_status i = kRunning"
    using assms(2) by (simp add: runnable_def)
  have "outcome_of (step i) = stop_outcome j"
    by (simp only: step_unfold [OF run] assms(3) option.case Let_def d_def [symmetric] ne if_False
        e sum.case prod.case j_def)
  also have "\<dots> = Step (isa_of j)" by (simp add: stop_outcome_def j_def)
  also have "isa_of j = (isa_of i)\<lparr>isa_pc := in_pc i + 4,
      isa_regs := set_reg (di_rd d) v (register_value i)\<rparr>"
    by (simp add: isa_of_def w) (simp add: j_def)
  finally show ?thesis by (simp add: v_def d_def)
qed

text \<open>In the witness, \<open>slt x3, x0, x10\<close> with \<open>x10\<close> positive: the specification writes one, the
  interpreter zero.\<close>

theorem interpreter_slt_ignores_rs2_witness:
  "outcome_of (step (demo_interpreter 0x00a021b3)) = Step ((isa_of (demo_interpreter 0x00a021b3))
     \<lparr>isa_pc := 4, isa_regs := set_reg 3 0 (register_value (demo_interpreter 0x00a021b3))\<rparr>)
   \<and> isa_step (isa_of (demo_interpreter 0x00a021b3)) = Step ((isa_of (demo_interpreter 0x00a021b3))
     \<lparr>isa_pc := 4, isa_regs := set_reg 3 1 (register_value (demo_interpreter 0x00a021b3))\<rparr>)"
proof -
  let ?w = "0x00a021b3 :: Word"
  have d: "di_op (decode ?w) = OP_SLT \<and> di_rd (decode ?w) = 3 \<and> di_rs1 (decode ?w) = 0
      \<and> di_rs2 (decode ?w) = 10" by code_simp
  have r: "register_value (demo_interpreter ?w) 0 = 0" "register_value (demo_interpreter ?w) 10 = 0x1234"
    by (simp_all add: register_value_def demo_interpreter_def)
  show ?thesis
    using interpreter_slt_ignores_rs2 [OF demo_ready(1,2), of ?w ?w] d r
    by (simp add: demo_ready read_word_image isa_step_def isa_of_def isa_exec_def op_classes
        isa_next_pc_def isa_value_def isa_rs1_def isa_rs2_def)
qed

lemma run_iff:
  assumes "interp_invar i" and "runnable i" and "slt_free (isa_of i)" and "\<And>s. r \<noteq> Step s"
  shows "(\<exists>j. run i = Some j \<and> outcome_of j = r) \<longleftrightarrow> (\<exists>n. isa_run n (isa_of i) = r)"
proof -
  have run: "run i = run_loop i"
    using assms(2) by (auto simp: run_def runnable_def)
  show ?thesis
    using run_loop_sound [OF _ assms(1-3)] run_loop_terminates [OF _ _ assms(1-3)] assms(4)
    unfolding run by metis
qed

text \<open>C18: on every program whose sequential execution meets no \<open>SLT\<close> or \<open>SLTU\<close>, a run of the
  interpreter returns exactly when the sequential machine stops, and with its outcome.\<close>

theorem interpreter_run_correct:
  assumes "interp_invar i" and "runnable i" and "slt_free (isa_of i)" and "\<And>s. r \<noteq> Step s"
  shows "(\<exists>j. run i = Some j \<and> outcome_of j = r) \<longleftrightarrow> (\<exists>n. isa_run n (isa_of i) = r)"
  using assms by (rule run_iff)

theorem interpreter_run_correct_witness:
  "(\<exists>j. run (demo_interpreter kHaltEncoding) = Some j \<and> outcome_of j = Halted 0x34)
   \<longleftrightarrow> (\<exists>n. isa_run n (isa_of (demo_interpreter kHaltEncoding)) = Halted 0x34)"
proof -
  let ?s = "isa_of (demo_interpreter kHaltEncoding)"
  have halt: "di_op (decode kHaltEncoding) = OP_HALT" by (simp add: decode_def kHaltEncoding_def)
  have f: "read_word (isa_mem ?s) (isa_pc ?s) = Some kHaltEncoding"
    by (simp add: isa_of_def demo_ready read_word_image)
  then have stop: "isa_step ?s \<noteq> Step t" for t
    using halt by (simp add: isa_step_def isa_exec_def)
  have here: "t = ?s" if "isa_reach ?s t" for t
    using that by (induction ?s t rule: isa_reach.induct) (use stop in auto)
  have "fetched_op (isa_mem t) (isa_pc t) = OP_HALT" if "isa_reach ?s t" for t
    using here [OF that] f halt by (simp add: fetched_op_def)
  then have "slt_free ?s"
    by (simp add: slt_free_def)
  then show ?thesis
    by (intro interpreter_run_correct demo_ready) auto
qed

end
