(* ===== verification/Signals.thy ===== *)
theory Signals
  imports Instruction
begin

text \<open>\<open>tomasulo/signals.hpp\<close>: the messages between the modules of the core.\<close>

record Operand =
  opd_value :: Word
  opd_tag :: RobTag
  opd_ready :: bool

definition operand_default :: Operand where [default_defs]:
  "operand_default = \<lparr>opd_value = 0, opd_tag = no_tag, opd_ready = False\<rparr>"

record DecodePacket =
  dp_pc :: Address
  dp_instruction :: InstructionBits
  dp_decoded :: DecodedInstruction
  dp_predicted_pc :: Address
  dp_predicted_taken :: bool
  dp_valid :: bool

definition packet_default :: DecodePacket where [default_defs]:
  "packet_default = \<lparr>dp_pc = 0, dp_instruction = 0, dp_decoded = decoded_default,
     dp_predicted_pc = 0, dp_predicted_taken = False, dp_valid = False\<rparr>"

record CDBMsg =
  msg_tag :: RobTag
  msg_value :: Word
  msg_valid :: bool

definition msg_default :: CDBMsg where [default_defs]:
  "msg_default = \<lparr>msg_tag = no_tag, msg_value = 0, msg_valid = False\<rparr>"

record Execute =
  ex_op :: OP
  ex_operand1 :: Word
  ex_operand2 :: Word
  ex_immediate :: Word
  ex_pc :: Address
  ex_tag :: RobTag
  ex_valid :: bool

definition execute_default :: Execute where [default_defs]:
  "execute_default = \<lparr>ex_op = OP_INVALID, ex_operand1 = 0, ex_operand2 = 0, ex_immediate = 0,
     ex_pc = 0, ex_tag = no_tag, ex_valid = False\<rparr>"

record FUResult =
  fu_tag :: RobTag
  fu_value :: Word  \<comment> \<open>the field \<open>result\<close>\<close>
  fu_actual_next_pc :: Address
  fu_branch_taken :: bool
  fu_has_control_result :: bool
  fu_valid :: bool

definition fu_result_default :: FUResult where [default_defs]:
  "fu_result_default = \<lparr>fu_tag = no_tag, fu_value = 0, fu_actual_next_pc = 0,
     fu_branch_taken = False, fu_has_control_result = False, fu_valid = False\<rparr>"

end
