(* ===== verification/TwoPhase.thy ===== *)
theory TwoPhase
  imports Prelude
begin

text \<open>
  The discipline of every clocked module of the simulator.  During a cycle the other modules read
  its current state; \<open>apply\<close> computes the next state from the frozen inputs without touching the
  current one; \<open>latch\<close> installs it.  A module that keeps the contract is, cycle by cycle, the
  transition function \<open>nxt\<close> on its current state, and the junk left in its next state by an
  earlier cycle is never seen.
\<close>

locale two_phase =
  fixes cur :: "'s \<Rightarrow> 'c"
    and apply_module :: "'i \<Rightarrow> 's \<Rightarrow> 's"
    and latch_module :: "'s \<Rightarrow> 's"
    and nxt :: "'i \<Rightarrow> 'c \<Rightarrow> 'c"
  assumes apply_keeps_cur: "cur (apply_module i s) = cur s"
    and latch_installs: "cur (latch_module (apply_module i s)) = nxt i (cur s)"
begin

text \<open>A cycle's observers may read before or after the module's \<open>apply\<close>.\<close>

lemma observe_any_time: "f (cur (apply_module i s)) = f (cur s)"
  by (simp add: apply_keeps_cur)

text \<open>Applying twice before the clock edge is applying the last input.\<close>

lemma last_apply_wins: "cur (latch_module (apply_module j (apply_module i s))) = nxt j (cur s)"
  by (simp add: latch_installs apply_keeps_cur)

text \<open>A sequence of cycles is the fold of the transition function.\<close>

lemma run_cycles:
  "cur (fold (\<lambda>i s. latch_module (apply_module i s)) is s) = fold nxt is (cur s)"
  by (induction "is" arbitrary: s) (simp_all add: latch_installs)

lemma same_cur_same_future:
  assumes "cur s = cur t"
  shows "cur (fold (\<lambda>i s. latch_module (apply_module i s)) is s)
       = cur (fold (\<lambda>i s. latch_module (apply_module i s)) is t)"
  by (simp add: run_cycles assms)

lemma invariant_cycles:
  assumes "P (cur s)" and "\<And>i c. P c \<Longrightarrow> P (nxt i c)"
  shows "P (cur (fold (\<lambda>i s. latch_module (apply_module i s)) is s))"
proof -
  have "P (fold nxt is c)" if "P c" for c
    using that by (induction "is" arbitrary: c) (auto intro: assms(2))
  then show ?thesis using assms(1) by (simp add: run_cycles)
qed

end

end
