(* ===== verification/FunctionalUnit.thy ===== *)
theory FunctionalUnit
  imports Signals TwoPhase Types
begin

text \<open>
  \<open>tomasulo/functional_unit.cpp\<close>: the integer unit.  It holds one finished result until the common
  data bus takes it, and can accept the next instruction in the cycle of the grant.
\<close>

record FunctionalUnit =
  fu_current_result :: FUResult
  fu_next_result :: FUResult

definition fu_reset :: "FunctionalUnit \<Rightarrow> FunctionalUnit" where
  "fu_reset f = f\<lparr>fu_current_result := fu_result_default, fu_next_result := fu_result_default\<rparr>"

definition functional_unit_new :: FunctionalUnit where
  "functional_unit_new =
     fu_reset \<lparr>fu_current_result = fu_result_default, fu_next_result = fu_result_default\<rparr>"

definition fu_latch :: "FunctionalUnit \<Rightarrow> FunctionalUnit" where
  "fu_latch f = f\<lparr>fu_current_result := fu_next_result f\<rparr>"

definition has_result :: "FunctionalUnit \<Rightarrow> bool" where
  "has_result f \<longleftrightarrow> fu_valid (fu_current_result f)"

definition fu_result :: "FunctionalUnit \<Rightarrow> FUResult" where
  "fu_result f = fu_current_result f"

definition can_accept :: "FunctionalUnit \<Rightarrow> bool \<Rightarrow> bool" where
  "can_accept f result_accepted \<longleftrightarrow> result_accepted \<or> \<not> fu_valid (fu_current_result f)"

definition sequential_pc :: "Address \<Rightarrow> Address" where
  "sequential_pc pc = pc + of_nat kInstructionWidth"

definition fu_signed_greater_equal :: "Word \<Rightarrow> Word \<Rightarrow> bool" where
  "fu_signed_greater_equal lhs rhs \<longleftrightarrow> sint lhs \<ge> sint rhs"

definition fu_signed_less_than :: "Word \<Rightarrow> Word \<Rightarrow> bool" where
  "fu_signed_less_than lhs rhs \<longleftrightarrow> sint lhs < sint rhs"

definition fu_arithmetic_shift_right :: "Word \<Rightarrow> Word \<Rightarrow> Word" where
  "fu_arithmetic_shift_right v amount =
     (let amount = amount AND 31
      in if amount = 0 then v
         else
           let result = drop_bit (unat amount) v
           in if v AND 0x80000000 \<noteq> 0 then result OR push_bit (unat (32 - amount)) (NOT 0)
              else result)"

text \<open>
  The switch of \<open>execute_instruction\<close>.  \<open>value\<close> and \<open>branch\<close> are the two ways out through the end
  of the function; the jumps and the operations that do not belong here return early.
\<close>

definition execute_instruction :: "Execute \<Rightarrow> FUResult" where
  "execute_instruction execute =
     (let output = fu_result_default\<lparr>fu_tag := ex_tag execute,
                     fu_actual_next_pc := sequential_pc (ex_pc execute)\<rparr>;
          lhs = ex_operand1 execute;
          rhs = ex_operand2 execute;
          kShiftMask = (0x1f :: Word);
          amount = rhs AND kShiftMask;
          result = (\<lambda>v. output\<lparr>fu_value := v, fu_valid := True\<rparr>);
          branch = (\<lambda>taken. output\<lparr>fu_branch_taken := taken, fu_has_control_result := True,
                      fu_actual_next_pc :=
                        (if taken then ex_pc execute + ex_immediate execute
                         else sequential_pc (ex_pc execute)),
                      fu_valid := True\<rparr>);
          jump = (\<lambda>target. output\<lparr>fu_value := sequential_pc (ex_pc execute),
                      fu_actual_next_pc := target, fu_branch_taken := True,
                      fu_has_control_result := True, fu_valid := True\<rparr>)
      in case ex_op execute of
           OP_ADD \<Rightarrow> result (lhs + rhs)
         | OP_ADDI \<Rightarrow> result (lhs + rhs)
         | OP_AND \<Rightarrow> result (lhs AND rhs)
         | OP_ANDI \<Rightarrow> result (lhs AND rhs)
         | OP_LUI \<Rightarrow> result (lhs + rhs)
         | OP_AUIPC \<Rightarrow> result (lhs + rhs)
         | OP_BEQ \<Rightarrow> branch (lhs = rhs)
         | OP_BGE \<Rightarrow> branch (fu_signed_greater_equal lhs rhs)
         | OP_BGEU \<Rightarrow> branch (lhs \<ge> rhs)
         | OP_BLT \<Rightarrow> branch (fu_signed_less_than lhs rhs)
         | OP_BLTU \<Rightarrow> branch (lhs < rhs)
         | OP_BNE \<Rightarrow> branch (lhs \<noteq> rhs)
         | OP_JAL \<Rightarrow> jump (ex_pc execute + ex_immediate execute)
         | OP_JALR \<Rightarrow> jump ((lhs + ex_immediate execute) AND NOT 1)
         | OP_OR \<Rightarrow> result (lhs OR rhs)
         | OP_ORI \<Rightarrow> result (lhs OR rhs)
         | OP_SLL \<Rightarrow> result (push_bit (unat amount) lhs)
         | OP_SLLI \<Rightarrow> result (push_bit (unat amount) lhs)
         | OP_SLTU \<Rightarrow> result (if lhs < rhs then 1 else 0)
         | OP_SLTIU \<Rightarrow> result (if lhs < rhs then 1 else 0)
         | OP_SLT \<Rightarrow> result (if fu_signed_less_than lhs rhs then 1 else 0)
         | OP_SLTI \<Rightarrow> result (if fu_signed_less_than lhs rhs then 1 else 0)
         | OP_SRA \<Rightarrow> result (fu_arithmetic_shift_right lhs amount)
         | OP_SRAI \<Rightarrow> result (fu_arithmetic_shift_right lhs amount)
         | OP_SRL \<Rightarrow> result (drop_bit (unat amount) lhs)
         | OP_SRLI \<Rightarrow> result (drop_bit (unat amount) lhs)
         | OP_SUB \<Rightarrow> result (lhs - rhs)
         | OP_XOR \<Rightarrow> result (lhs XOR rhs)
         | OP_XORI \<Rightarrow> result (lhs XOR rhs)
         | OP_LB \<Rightarrow> fu_result_default | OP_LH \<Rightarrow> fu_result_default
         | OP_LW \<Rightarrow> fu_result_default | OP_LBU \<Rightarrow> fu_result_default
         | OP_LHU \<Rightarrow> fu_result_default | OP_SB \<Rightarrow> fu_result_default
         | OP_SH \<Rightarrow> fu_result_default | OP_SW \<Rightarrow> fu_result_default
         | OP_HALT \<Rightarrow> fu_result_default | OP_INVALID \<Rightarrow> fu_result_default)"

definition fu_apply :: "Execute \<Rightarrow> bool \<Rightarrow> bool \<Rightarrow> FunctionalUnit \<Rightarrow> FunctionalUnit \<times> bool" where
  "fu_apply execute flush result_accepted f =
     (let f = f\<lparr>fu_next_result := fu_current_result f\<rparr>
      in if flush then (f\<lparr>fu_next_result := fu_result_default\<rparr>, False)
         else
           let f = (if result_accepted \<and> fu_valid (fu_current_result f)
                    then f\<lparr>fu_next_result := fu_result_default\<rparr> else f)
           in if \<not> ex_valid execute then (f, False)
              else if \<not> can_accept f result_accepted then (f, False)
              else
                let computed = execute_instruction execute
                in if \<not> fu_valid computed then (f, False)
                   else (f\<lparr>fu_next_result := computed\<rparr>, True))"

text \<open>The assertion of \<open>apply\<close>: only operations of the integer unit arrive here.\<close>

definition fu_apply_asserts :: "Execute \<Rightarrow> bool \<Rightarrow> bool \<Rightarrow> FunctionalUnit \<Rightarrow> bool" where
  "fu_apply_asserts execute flush result_accepted f \<longleftrightarrow>
     (flush \<or> \<not> ex_valid execute \<or> \<not> can_accept f result_accepted
      \<or> fu_valid (execute_instruction execute))"

section \<open>The two phases\<close>

definition fu_nxt :: "Execute \<times> bool \<times> bool \<Rightarrow> FUResult \<Rightarrow> FUResult" where
  "fu_nxt i c = (case i of (e, flush, granted) \<Rightarrow>
     if flush then fu_result_default
     else if ex_valid e \<and> (granted \<or> \<not> fu_valid c) \<and> fu_valid (execute_instruction e)
       then execute_instruction e
     else if granted \<and> fu_valid c then fu_result_default
     else c)"

interpretation fu: two_phase fu_current_result "\<lambda>(e, flush, granted) f. fst (fu_apply e flush granted f)"
  fu_latch fu_nxt
  by unfold_locales
     (auto simp: fu_apply_def fu_latch_def fu_nxt_def can_accept_def Let_def split: prod.splits)

end
