(* ===== verification/ExecuteCorrect.thy ===== *)
theory ExecuteCorrect
  imports FunctionalUnit DecodeWf Arithmetic
begin

text \<open>
  The functional unit against the specification: given the operands that the decoder's selectors
  ask for, the unit's result is the value, the next address and the direction of the instruction.
\<close>

definition source_value :: "OperandSource \<Rightarrow> Word \<Rightarrow> Word \<Rightarrow> Address \<Rightarrow> Word" where
  "source_value src register_value immediate pc =
     (case src of Immediate \<Rightarrow> immediate | Register \<Rightarrow> register_value
      | ProgramCounter \<Rightarrow> pc | Zero \<Rightarrow> 0)"

definition lhs_value :: "DecodedInstruction \<Rightarrow> isa_state \<Rightarrow> Word" where
  "lhs_value d s = source_value (di_lhs_source d) (isa_rs1 d s) (di_immediate d) (isa_pc s)"

definition rhs_value :: "DecodedInstruction \<Rightarrow> isa_state \<Rightarrow> Word" where
  "rhs_value d s = source_value (di_rhs_source d) (isa_rs2 d s) (di_immediate d) (isa_pc s)"

definition unit_op :: "OP \<Rightarrow> bool" where
  "unit_op opr \<longleftrightarrow> \<not> load_op opr \<and> \<not> store_op opr \<and> opr \<noteq> OP_HALT \<and> opr \<noteq> OP_INVALID"

definition execute_of :: "DecodedInstruction \<Rightarrow> isa_state \<Rightarrow> RobTag \<Rightarrow> Execute" where
  "execute_of d s tag = \<lparr>ex_op = di_op d, ex_operand1 = lhs_value d s, ex_operand2 = rhs_value d s,
     ex_immediate = di_immediate d, ex_pc = isa_pc s, ex_tag = tag, ex_valid = True\<rparr>"

definition expected_result :: "DecodedInstruction \<Rightarrow> isa_state \<Rightarrow> RobTag \<Rightarrow> FUResult" where
  "expected_result d s tag = \<lparr>fu_tag = tag,
     fu_value = (if branch_op (di_op d) then 0 else isa_value d s),
     fu_actual_next_pc = isa_next_pc d s,
     fu_branch_taken =
       (jump_op (di_op d) \<or> branch_op (di_op d) \<and> isa_taken (di_op d) (isa_rs1 d s) (isa_rs2 d s)),
     fu_has_control_result = (jump_op (di_op d) \<or> branch_op (di_op d)),
     fu_valid = True\<rparr>"

lemmas unit_simps = execute_instruction_def Let_def fu_result_default_def execute_of_def
  expected_result_def lhs_value_def rhs_value_def source_value_def isa_value_def isa_next_pc_def
  op_classes sequential_pc_def kInstructionWidth_def fu_signed_less_than_def
  fu_signed_greater_equal_def

lemma fu_shift_right: "fu_arithmetic_shift_right v (b AND 31) = signed_drop_bit (shift_amount b) v"
  unfolding fu_arithmetic_shift_right_def by (rule shift_right_trick)

lemma unit_computes:
  assumes "decoded_wf d" and "unit_op (di_op d)"
  shows "execute_instruction (execute_of d s tag) = expected_result d s tag"
  using decoded_wfD(9) [OF assms(1)] assms(2)
  by (cases "di_op d")
     (simp_all add: unit_simps unit_op_def unat_and_31 fu_shift_right word_less_unat
        word_le_nat_alt not_less)

lemma not_unit_invalid:
  "\<not> unit_op (ex_op e) \<Longrightarrow> execute_instruction e = fu_result_default"
  by (cases "ex_op e") (simp_all add: execute_instruction_def Let_def unit_op_def op_classes)

lemma unit_valid: "fu_valid (execute_instruction e) \<longleftrightarrow> unit_op (ex_op e)"
  by (cases "ex_op e")
     (simp_all add: execute_instruction_def Let_def unit_op_def op_classes fu_result_default_def)

lemma unit_tag [simp]: "unit_op (ex_op e) \<Longrightarrow> fu_tag (execute_instruction e) = ex_tag e"
  by (cases "ex_op e")
     (simp_all add: execute_instruction_def Let_def unit_op_def op_classes fu_result_default_def)

section \<open>Property\<close>

text \<open>C17: for every instruction of the integer unit and every machine state, the unit's result is
  the value, the next program counter and the branch direction of the sequential semantics.\<close>

theorem functional_unit_correct:
  assumes "unit_op (di_op (decode w))"
  shows "execute_instruction (execute_of (decode w) s tag) = expected_result (decode w) s tag"
  using decode_wf assms by (rule unit_computes)

theorem functional_unit_correct_witness:
  "di_op (decode 0x40c5d533) = OP_SRA
   \<and> (\<forall>s tag. execute_instruction (execute_of (decode 0x40c5d533) s tag)
        = expected_result (decode 0x40c5d533) s tag)"
proof
  show opr: "di_op (decode 0x40c5d533) = OP_SRA" by code_simp
  then have "unit_op (di_op (decode 0x40c5d533))" by (simp add: unit_op_def op_classes)
  then show "\<forall>s tag. execute_instruction (execute_of (decode 0x40c5d533) s tag)
      = expected_result (decode 0x40c5d533) s tag"
    by (intro allI functional_unit_correct)
qed

end
