(* ===== verification/ImageLoadCorrect.thy ===== *)
theory ImageLoadCorrect
  imports ImageLoad
begin

text \<open>
  The loader against the format of the memory images: sections of an address and bytes, all in
  hexadecimal.  A printed image loads to exactly its bytes; and whatever the input, the loader
  writes inside the memory and counts what it wrote.
\<close>

section \<open>Printing\<close>

definition hex_char :: "nat \<Rightarrow> char" where
  "hex_char d = (if d < 10 then char_of (48 + d) else char_of (55 + d))"

fun hex_digits :: "nat \<Rightarrow> nat \<Rightarrow> string" where
  "hex_digits 0 v = []"
| "hex_digits (Suc n) v = hex_char (v div 16 ^ n mod 16) # hex_digits n v"

definition print_section :: "nat \<times> Byte list \<Rightarrow> string" where
  "print_section s =
     CHR 0x40 # hex_digits 8 (fst s) @ [CHR 0x0A]
     @ concat (map (\<lambda>b. hex_digits 2 (unat b) @ [CHR 0x20]) (snd s)) @ [CHR 0x0A]"

definition print_image :: "(nat \<times> Byte list) list \<Rightarrow> string" where
  "print_image ss = concat (map print_section ss)"

lemma hex_char_digit: "d < 16 \<Longrightarrow> hex_digit (hex_char d) = Some d"
  by (auto simp: hex_char_def hex_digit_def Let_def)

lemma hex_char_plain:
  assumes "d < 16"
  shows "\<not> is_space (hex_char d)" "hex_char d \<noteq> CHR 0x0A" "hex_char d \<noteq> CHR 0x40"
proof -
  have n: "of_char (hex_char d) = (if d < 10 then 48 + d else 55 + d)"
    using assms by (simp add: hex_char_def)
  show "\<not> is_space (hex_char d)" using n assms by (auto simp: is_space_def)
  have "of_char (CHR 0x0A) = (10 :: nat)" "of_char (CHR 0x40) = (64 :: nat)" by simp_all
  then show "hex_char d \<noteq> CHR 0x0A" "hex_char d \<noteq> CHR 0x40"
    using n assms by (auto split: if_splits)
qed

lemma hex_digits_plain:
  "c \<in> set (hex_digits n v) \<Longrightarrow> \<not> is_space c \<and> c \<noteq> CHR 0x0A \<and> c \<noteq> CHR 0x40"
  by (induction n) (auto simp: hex_char_plain)

lemma length_hex_digits [simp]: "length (hex_digits n v) = n"
  by (induction n) auto

lemma hex_value_digits:
  "hex_value a (hex_digits n v) = Some (a * 16 ^ n + v mod 16 ^ n)"
proof (induction n arbitrary: a)
  case (Suc n)
  have "v mod (16 ^ n * 16) = 16 ^ n * (v div 16 ^ n mod 16) + v mod 16 ^ n"
    by (rule mod_mult2_eq)
  then have "v mod 16 ^ Suc n = (v div 16 ^ n mod 16) * 16 ^ n + v mod 16 ^ n"
    by (simp only: power_Suc2 mult.commute)
  then show ?case
    by (simp add: hex_char_digit Suc.IH algebra_simps)
qed simp

lemma parse_hex_digits:
  assumes "v < 16 ^ n" and "0 < n" and "n \<le> 8"
  shows "parse_hex (hex_digits n v) = Some v"
proof -
  have "(16 :: nat) ^ n \<le> 16 ^ 8" by (rule power_increasing) (use assms in auto)
  then have "v < 2 ^ 64" using assms(1) by simp
  moreover have "hex_digits n v \<noteq> []" using assms(2) by (metis length_hex_digits less_irrefl list.size(3))
  ultimately show ?thesis using assms(1) by (simp add: parse_hex_def hex_value_digits)
qed

section \<open>Lines and tokens\<close>

lemma getlines_line:
  "CHR 0x0A \<notin> set l \<Longrightarrow> getlines bad acc (l @ CHR 0x0A # cs) = (rev acc @ l) # getlines bad [] cs"
  by (induction l arbitrary: acc) auto

lemma tokens_token:
  "\<forall>c \<in> set t. \<not> is_space c \<Longrightarrow> t \<noteq> [] \<or> acc \<noteq> [] \<Longrightarrow> is_space s \<Longrightarrow>
   tokens acc (t @ s # cs) = (rev acc @ t) # tokens [] cs"
  by (induction t arbitrary: acc) auto

lemma tokens_last:
  "\<forall>c \<in> set t. \<not> is_space c \<Longrightarrow> t \<noteq> [] \<or> acc \<noteq> [] \<Longrightarrow> tokens acc t = [rev acc @ t]"
  by (induction t arbitrary: acc) auto

lemma section_lines:
  "getlines bad [] (print_section (a, bs) @ cs) =
     (CHR 0x40 # hex_digits 8 a) # concat (map (\<lambda>b. hex_digits 2 (unat b) @ [CHR 0x20]) bs)
     # getlines bad [] cs"
proof -
  let ?l1 = "CHR 0x40 # hex_digits 8 a"
  let ?l2 = "concat (map (\<lambda>b. hex_digits 2 (unat b) @ [CHR 0x20]) bs)"
  have "CHR 0x0A \<notin> set ?l1" "CHR 0x0A \<notin> set ?l2"
    by (auto dest: hex_digits_plain)
  note l = getlines_line [OF this(1), of bad "[]"] getlines_line [OF this(2), of bad "[]"]
  have "print_section (a, bs) @ cs = ?l1 @ CHR 0x0A # (?l2 @ CHR 0x0A # cs)"
    by (simp add: print_section_def)
  then show ?thesis by (simp only: l) simp
qed

lemma address_tokens: "tokens [] (CHR 0x40 # hex_digits 8 a) = [CHR 0x40 # hex_digits 8 a]"
proof -
  have "\<not> is_space CHR 0x40" by (simp add: is_space_def)
  then show ?thesis
    by (intro tokens_last [of _ "[]", simplified]) (auto dest: hex_digits_plain)
qed

lemma byte_tokens:
  "tokens [] (concat (map (\<lambda>b. hex_digits 2 (unat b) @ [CHR 0x20]) bs))
   = map (\<lambda>b. hex_digits 2 (unat b)) bs"
proof (induction bs)
  case (Cons b bs)
  have "hex_digits 2 (unat b) \<noteq> []" by (metis length_hex_digits list.size(3) zero_neq_numeral)
  moreover have "is_space CHR 0x20" by (simp add: is_space_def)
  ultimately show ?case
    using tokens_token [of "hex_digits 2 (unat b)" "[]" "CHR 0x20"] hex_digits_plain [of _ 2 "unat b"]
      Cons.IH by auto
qed simp

section \<open>Loading\<close>

definition place :: "nat \<times> Byte list \<Rightarrow> (nat \<Rightarrow> Byte) \<Rightarrow> nat \<Rightarrow> Byte" where
  "place s f i =
     (if fst s \<le> i \<and> i < fst s + length (snd s) then snd s ! (i - fst s) else f i)"

definition section_fits :: "nat \<times> Byte list \<Rightarrow> bool" where
  "section_fits s \<longleftrightarrow> fst s < kMemorySize \<and> fst s + length (snd s) \<le> kMemorySize"

lemma load_address_token:
  assumes "a < kMemorySize"
  shows "load_token n (CHR 0x40 # hex_digits 8 a) st =
     Inr (st\<lparr>ls_current_address := a, ls_has_current_address := True\<rparr>)"
proof -
  have "parse_hex (hex_digits 8 a) = Some a"
    using assms by (intro parse_hex_digits) (auto simp: kMemorySize_def)
  then show ?thesis using assms by (simp add: load_token_def)
qed

lemma load_byte_token:
  assumes "ls_has_current_address st" and "ls_current_address st < kMemorySize"
  shows "load_token n (hex_digits 2 (unat b)) st = Inr (store_loaded_byte st (unat (b :: Byte)))"
proof -
  have lt: "unat b < 256" by (rule unat_less_2p_8)
  have "parse_hex (hex_digits 2 (unat b)) = Some (unat b)"
    using lt by (intro parse_hex_digits) auto
  moreover have "hd (hex_digits 2 (unat b)) \<noteq> CHR 0x40"
    using hex_digits_plain [of "hd (hex_digits 2 (unat b))" 2 "unat b"]
    by (metis hd_in_set length_hex_digits list.size(3) zero_neq_numeral)
  moreover have "\<not> 0xff < unat b" using lt by linarith
  ultimately show ?thesis using assms by (simp add: load_token_def)
qed

lemma load_byte_tokens:
  assumes "ls_has_current_address st" and "ls_current_address st + length bs \<le> kMemorySize"
  shows "\<exists>st'. load_tokens n (map (\<lambda>b. hex_digits 2 (unat b)) bs) st = Inr st'
      \<and> bytes (ls_image st') = place (ls_current_address st, bs) (bytes (ls_image st))
      \<and> ls_bytes_loaded st' = ls_bytes_loaded st + length bs"
  using assms
proof (induction bs arbitrary: st)
  case Nil
  have "place (a, []) f = f" for a f by (rule ext) (auto simp: place_def)
  then show ?case by simp
next
  case (Cons b bs)
  let ?s = "store_loaded_byte st (unat b)"
  have s: "bytes (ls_image ?s) = (bytes (ls_image st))(ls_current_address st := b)"
      "ls_current_address ?s = ls_current_address st + 1"
      "ls_bytes_loaded ?s = ls_bytes_loaded st + 1" "ls_has_current_address ?s"
    using Cons.prems(1) by (simp_all add: store_loaded_byte_def Let_def)
  obtain st' where st': "load_tokens n (map (\<lambda>b. hex_digits 2 (unat b)) bs) ?s = Inr st'"
      "bytes (ls_image st') = place (ls_current_address ?s, bs) (bytes (ls_image ?s))"
      "ls_bytes_loaded st' = ls_bytes_loaded ?s + length bs"
    using Cons.IH [of ?s] Cons.prems(2) s(2-4) by auto
  have "place (ls_current_address ?s, bs) (bytes (ls_image ?s))
      = place (ls_current_address st, b # bs) (bytes (ls_image st))"
    by (auto simp: s place_def fun_eq_iff nth_Cons' not_less_eq_eq)
  then show ?case
    using st' s Cons.prems load_byte_token [of st n b] by simp
qed

lemma load_section:
  assumes "section_fits (a, bs)"
  shows "\<exists>st'. load_lines n (getlines bad [] (print_section (a, bs) @ cs)) st
        = load_lines (n + 2) (getlines bad [] cs) st'
      \<and> bytes (ls_image st') = place (a, bs) (bytes (ls_image st))
      \<and> ls_bytes_loaded st' = ls_bytes_loaded st + length bs"
proof -
  let ?s = "st\<lparr>ls_current_address := a, ls_has_current_address := True\<rparr>"
  obtain st' where st': "load_tokens (Suc (Suc n)) (map (\<lambda>b. hex_digits 2 (unat b)) bs) ?s = Inr st'"
      "bytes (ls_image st') = place (a, bs) (bytes (ls_image st))"
      "ls_bytes_loaded st' = ls_bytes_loaded st + length bs"
    using load_byte_tokens [of ?s bs "Suc (Suc n)"] assms by (auto simp: section_fits_def)
  have "load_token (Suc n) (CHR 0x40 # hex_digits 8 a) st = Inr ?s"
    using assms by (intro load_address_token) (simp add: section_fits_def)
  then have "load_lines n (getlines bad [] (print_section (a, bs) @ cs)) st
      = load_lines (n + 2) (getlines bad [] cs) st'"
    by (simp add: section_lines address_tokens byte_tokens st'(1) del: tokens.simps)
  then show ?thesis using st' by blast
qed

lemma load_sections:
  assumes "list_all section_fits ss"
  shows "\<exists>st'. load_lines n (getlines bad [] (print_image ss)) st = Inr st'
      \<and> bytes (ls_image st') = fold place ss (bytes (ls_image st))
      \<and> ls_bytes_loaded st' = ls_bytes_loaded st + sum_list (map (length \<circ> snd) ss)"
  using assms
proof (induction ss arbitrary: n st)
  case Nil
  then show ?case by (simp add: print_image_def)
next
  case (Cons s ss)
  obtain a bs where s: "s = (a, bs)" by (cases s)
  obtain st1 where st1: "load_lines n (getlines bad [] (print_section (a, bs) @ print_image ss)) st
        = load_lines (n + 2) (getlines bad [] (print_image ss)) st1"
      "bytes (ls_image st1) = place (a, bs) (bytes (ls_image st))"
      "ls_bytes_loaded st1 = ls_bytes_loaded st + length bs"
    using load_section [of a bs n bad "print_image ss" st] Cons.prems s by auto
  show ?case
    using Cons.IH [of "n + 2" st1] Cons.prems st1 s by (auto simp: print_image_def)
qed

section \<open>Whatever the input\<close>

definition load_state_ok :: "load_state \<Rightarrow> bool" where
  "load_state_ok st \<longleftrightarrow>
     (\<forall>i \<ge> kMemorySize. bytes (ls_image st) i = 0)
     \<and> load_byte_count (ls_image st) = ls_bytes_loaded st
     \<and> (case highest_loaded_address (ls_image st) of
          None \<Rightarrow> ls_bytes_loaded st = 0 \<and> (\<forall>i. bytes (ls_image st) i = 0)
        | Some h \<Rightarrow> unat h < kMemorySize \<and> (\<forall>i > unat h. bytes (ls_image st) i = 0))"

definition result_ok :: "ImageLoadResult \<times> MemoryImage \<Rightarrow> bool" where
  "result_ok r \<longleftrightarrow>
     (\<forall>i \<ge> kMemorySize. bytes (snd r) i = 0)
     \<and> load_byte_count (snd r) = loaded_byte_count (fst r)
     \<and> (case highest_loaded_address (snd r) of
          None \<Rightarrow> loaded_byte_count (fst r) = 0 \<and> (\<forall>i. bytes (snd r) i = 0)
        | Some h \<Rightarrow> unat h < kMemorySize \<and> (\<forall>i > unat h. bytes (snd r) i = 0))"

lemma make_result_ok: "load_state_ok st \<Longrightarrow> result_ok (make_result st status line token)"
  by (simp add: load_state_ok_def result_ok_def make_result_def split: option.splits)

lemma store_loaded_byte_ok:
  assumes "load_state_ok st" and "ls_current_address st < kMemorySize"
  shows "load_state_ok (store_loaded_byte st v)"
proof -
  have c: "unat (of_nat (ls_current_address st) :: Address) = ls_current_address st"
    using assms(2) by (intro unat_of_nat_32) (simp add: kMemorySize_def)
  show ?thesis
    using assms c
    by (cases "highest_loaded_address (ls_image st)")
       (auto simp: load_state_ok_def store_loaded_byte_def Let_def word_less_nat_alt)
qed

lemma load_token_ok:
  assumes "load_state_ok st"
  shows "case load_token n t st of Inl r \<Rightarrow> result_ok r | Inr st' \<Rightarrow> load_state_ok st'"
proof -
  have "load_state_ok (st\<lparr>ls_current_address := a, ls_has_current_address := True\<rparr>)" for a
    using assms by (simp add: load_state_ok_def split: option.splits)
  then show ?thesis
    using assms store_loaded_byte_ok [OF assms]
    by (auto simp: load_token_def make_result_ok split: option.splits)
qed

lemma load_tokens_ok:
  "load_state_ok st \<Longrightarrow>
   case load_tokens n ts st of Inl r \<Rightarrow> result_ok r | Inr st' \<Rightarrow> load_state_ok st'"
proof (induction ts arbitrary: st)
  case (Cons t ts)
  show ?case
  proof (cases "load_token n t st")
    case (Inr st')
    then show ?thesis using Cons.IH [of st'] load_token_ok [OF Cons.prems, of n t] by simp
  qed (use load_token_ok [OF Cons.prems, of n t] in simp)
qed simp

lemma load_lines_ok:
  "load_state_ok st \<Longrightarrow>
   case load_lines n ls st of Inl r \<Rightarrow> result_ok r | Inr st' \<Rightarrow> load_state_ok st'"
proof (induction ls arbitrary: n st)
  case (Cons l ls)
  show ?case
  proof (cases "load_tokens (n + 1) (tokens [] l) st")
    case (Inr st')
    then show ?thesis
      using Cons.IH [of st' "n + 1"] load_tokens_ok [OF Cons.prems, of "n + 1" "tokens [] l"] by simp
  qed (use load_tokens_ok [OF Cons.prems, of "n + 1" "tokens [] l"] in simp)
qed simp

lemma load_state_ok_init:
  "load_state_ok \<lparr>ls_image = image_clear m, ls_current_address = 0, ls_bytes_loaded = 0,
     ls_has_current_address = False\<rparr>"
  by (simp add: load_state_ok_def image_clear_def)

section \<open>Properties\<close>

lemma printed_image_loads:
  assumes "list_all section_fits ss"
  shows "load_ok (fst (image_load \<lparr>is_chars = print_image ss, is_bad = False\<rparr> m))"
    and "bytes (snd (image_load \<lparr>is_chars = print_image ss, is_bad = False\<rparr> m)) = fold place ss (\<lambda>_. 0)"
    and "loaded_byte_count (fst (image_load \<lparr>is_chars = print_image ss, is_bad = False\<rparr> m))
        = sum_list (map (length \<circ> snd) ss)"
  using load_sections [OF assms, of 0 False "\<lparr>ls_image = image_clear m, ls_current_address = 0,
      ls_bytes_loaded = 0, ls_has_current_address = False\<rparr>"]
  by (auto simp: image_load_def make_result_def load_ok_def image_clear_def)

text \<open>C32: a printed memory image loads to its bytes: for any list of sections that fit the memory,
  the loader accepts the text, counts every byte, and leaves in the image exactly the sections
  placed in order over zeros.\<close>

theorem image_load_roundtrip:
  assumes "list_all section_fits ss"
  shows "load_ok (fst (image_load \<lparr>is_chars = print_image ss, is_bad = False\<rparr> m))
    \<and> loaded_byte_count (fst (image_load \<lparr>is_chars = print_image ss, is_bad = False\<rparr> m))
        = sum_list (map (length \<circ> snd) ss)
    \<and> bytes (snd (image_load \<lparr>is_chars = print_image ss, is_bad = False\<rparr> m)) = fold place ss (\<lambda>_. 0)"
  using printed_image_loads [OF assms] by simp

theorem image_load_roundtrip_witness:
  "\<forall>m. loaded_byte_count (fst (image_load
      \<lparr>is_chars = print_image [(0x1000, [0x37, 0x17]), (0x1001, [0xAB])], is_bad = False\<rparr> m)) = 3
   \<and> bytes (snd (image_load
      \<lparr>is_chars = print_image [(0x1000, [0x37, 0x17]), (0x1001, [0xAB])], is_bad = False\<rparr> m)) 0x1001 = 0xAB"
proof
  fix m
  show "loaded_byte_count (fst (image_load
      \<lparr>is_chars = print_image [(0x1000, [0x37, 0x17]), (0x1001, [0xAB])], is_bad = False\<rparr> m)) = 3
   \<and> bytes (snd (image_load
      \<lparr>is_chars = print_image [(0x1000, [0x37, 0x17]), (0x1001, [0xAB])], is_bad = False\<rparr> m)) 0x1001 = 0xAB"
    using image_load_roundtrip [of "[(0x1000, [0x37, 0x17]), (0x1001, [0xAB])]" m]
    by (simp add: section_fits_def kMemorySize_def place_def)
qed

text \<open>C33: whatever the input, also on every error, the loader writes no byte outside the memory or
  above \<open>highest_loaded_address\<close>, that address is inside the memory, and the image's byte count is
  the count of the result.\<close>

theorem image_load_safe: "result_ok (image_load input m)"
proof -
  let ?s = "\<lparr>ls_image = image_clear m, ls_current_address = 0, ls_bytes_loaded = 0,
      ls_has_current_address = False\<rparr>"
  show ?thesis
    using load_lines_ok [OF load_state_ok_init, of 0 "getlines (is_bad input) [] (is_chars input)" m] make_result_ok
    by (cases "load_lines 0 (getlines (is_bad input) [] (is_chars input)) ?s") (auto simp: image_load_def)
qed

end
