(* ===== verification/MemoryUnit.thy ===== *)
theory MemoryUnit
  imports ImageLoad
begin

text \<open>
  \<open>memory/memory_unit.cpp\<close>: the data port with its fixed latency and the instruction port.  Like
  every clocked module of the simulator it keeps a current state that observers read and a next
  state that \<open>apply\<close> prepares and \<open>latch\<close> installs.
\<close>

section \<open>Messages\<close>

datatype MemoryAccessType = LOAD | STORE
datatype MemoryWidth = BYTE | HALF | WORD

record DataMemoryRequest =
  rq_type :: MemoryAccessType
  rq_width :: MemoryWidth
  rq_address :: Address
  rq_value :: Word
  rq_tag :: RobTag
  rq_valid :: bool

definition request_default :: DataMemoryRequest where [default_defs]:
  "request_default = \<lparr>rq_type = LOAD, rq_width = WORD, rq_address = 0, rq_value = 0,
     rq_tag = no_tag, rq_valid = False\<rparr>"

record DataMemoryResponse =
  rsp_tag :: RobTag
  rsp_value :: Word
  rsp_is_store :: bool
  rsp_success :: bool
  rsp_valid :: bool

definition response_default :: DataMemoryResponse where [default_defs]:
  "response_default = \<lparr>rsp_tag = no_tag, rsp_value = 0, rsp_is_store = False,
     rsp_success = False, rsp_valid = False\<rparr>"

record InstructionFetchRequest =
  frq_pc :: Address
  frq_valid :: bool

record InstructionFetchResponse =
  frsp_pc :: Address
  frsp_instruction :: InstructionBits
  frsp_success :: bool
  frsp_valid :: bool

definition fetch_response_default :: InstructionFetchResponse where [default_defs]:
  "fetch_response_default = \<lparr>frsp_pc = 0, frsp_instruction = 0, frsp_success = False,
     frsp_valid = False\<rparr>"

section \<open>State\<close>

record DataTransaction =
  tx_request :: DataMemoryRequest
  tx_remaining_cycles :: nat
  tx_valid :: bool

definition transaction_default :: DataTransaction where [default_defs]:
  "transaction_default = \<lparr>tx_request = request_default, tx_remaining_cycles = 0, tx_valid = False\<rparr>"

record PendingStoreWrite =
  sw_address :: Address
  sw_value :: Word
  sw_width :: MemoryWidth
  sw_valid :: bool

definition store_write_default :: PendingStoreWrite where [default_defs]:
  "store_write_default = \<lparr>sw_address = 0, sw_value = 0, sw_width = WORD, sw_valid = False\<rparr>"

record MemoryUnit =
  mu_memory :: MemoryImage
  mu_current_transaction :: DataTransaction
  mu_next_transaction :: DataTransaction
  mu_current_response :: DataMemoryResponse
  mu_next_response :: DataMemoryResponse
  mu_next_store_write :: PendingStoreWrite

definition kDataLatency :: nat where
  "kDataLatency = 3"

definition memory_reset :: "MemoryUnit \<Rightarrow> MemoryUnit" where
  "memory_reset u = u\<lparr>mu_current_transaction := transaction_default,
     mu_next_transaction := transaction_default,
     mu_current_response := response_default,
     mu_next_response := response_default,
     mu_next_store_write := store_write_default\<rparr>"

definition memory_unit_new :: MemoryUnit where
  "memory_unit_new = memory_reset
     \<lparr>mu_memory = \<lparr>bytes = (\<lambda>_. 0), load_byte_count = 0, highest_loaded_address = None\<rparr>,
      mu_current_transaction = transaction_default, mu_next_transaction = transaction_default,
      mu_current_response = response_default, mu_next_response = response_default,
      mu_next_store_write = store_write_default\<rparr>"

definition memory_clear :: "MemoryUnit \<Rightarrow> MemoryUnit" where
  "memory_clear u = memory_reset (u\<lparr>mu_memory := image_clear (mu_memory u)\<rparr>)"

definition memory_load :: "istream \<Rightarrow> MemoryUnit \<Rightarrow> ImageLoadResult \<times> MemoryUnit" where
  "memory_load inputs u =
     (let u = memory_reset u;
          (r, m) = image_load inputs (mu_memory u)
      in (r, u\<lparr>mu_memory := m\<rparr>))"

section \<open>Observation\<close>

definition memory_fetch :: "MemoryUnit \<Rightarrow> InstructionFetchRequest \<Rightarrow> InstructionFetchResponse" where
  "memory_fetch u request =
     (if \<not> frq_valid request then fetch_response_default
      else
        let response = fetch_response_default\<lparr>frsp_pc := frq_pc request, frsp_valid := True\<rparr>
        in case read_word (mu_memory u) (frq_pc request) of
             None \<Rightarrow> response\<lparr>frsp_success := False\<rparr>
           | Some instruction \<Rightarrow>
               response\<lparr>frsp_instruction := instruction, frsp_success := True\<rparr>)"

definition data_port_available :: "MemoryUnit \<Rightarrow> bool" where
  "data_port_available u \<longleftrightarrow> \<not> tx_valid (mu_current_transaction u)"

definition data_response :: "MemoryUnit \<Rightarrow> DataMemoryResponse" where
  "data_response u = mu_current_response u"

fun width_in_bytes :: "MemoryWidth \<Rightarrow> nat" where
  "width_in_bytes BYTE = 1"
| "width_in_bytes HALF = 2"
| "width_in_bytes WORD = 4"

text \<open>\<open>read_data\<close> returns the value and sets its reference argument \<open>success\<close>.\<close>

fun read_data :: "MemoryImage \<Rightarrow> Address \<Rightarrow> MemoryWidth \<Rightarrow> Word \<times> bool" where
  "read_data m address BYTE =
     (case read_byte m address of None \<Rightarrow> (0, False) | Some v \<Rightarrow> (ucast v, True))"
| "read_data m address HALF =
     (case read_half m address of None \<Rightarrow> (0, False) | Some v \<Rightarrow> (ucast v, True))"
| "read_data m address WORD =
     (case read_word m address of None \<Rightarrow> (0, False) | Some v \<Rightarrow> (v, True))"

section \<open>The two phases\<close>

definition schedule_store :: "DataMemoryRequest \<Rightarrow> MemoryUnit \<Rightarrow> MemoryUnit \<times> bool" where
  "schedule_store request u =
     (let width = width_in_bytes (rq_width request)
      in if width = 0 \<or> \<not> in_bounds (rq_address request) width then (u, False)
         else (u\<lparr>mu_next_store_write := (mu_next_store_write u)
                   \<lparr>sw_address := rq_address request, sw_valid := True,
                    sw_value := rq_value request, sw_width := rq_width request\<rparr>\<rparr>, True))"

definition complete_current_transaction :: "MemoryUnit \<Rightarrow> MemoryUnit" where
  "complete_current_transaction u =
     (let request = tx_request (mu_current_transaction u);
          response = response_default\<lparr>rsp_tag := rq_tag request,
            rsp_is_store := (rq_type request = STORE), rsp_valid := True\<rparr>;
          (response, u) =
            (if rq_type request = LOAD then
               let (v, success) = read_data (mu_memory u) (rq_address request) (rq_width request)
               in (response\<lparr>rsp_value := v, rsp_success := success\<rparr>, u)
             else
               let (u', success) = schedule_store request u
               in (response\<lparr>rsp_success := success\<rparr>, u'))
      in u\<lparr>mu_next_response := response, mu_next_transaction := transaction_default\<rparr>)"

definition memory_apply :: "DataMemoryRequest \<Rightarrow> MemoryUnit \<Rightarrow> MemoryUnit \<times> bool" where
  "memory_apply request u =
     (let u = u\<lparr>mu_next_transaction := mu_current_transaction u,
               mu_next_response := response_default,
               mu_next_store_write := store_write_default\<rparr>
      in if tx_valid (mu_current_transaction u) then
           (if tx_remaining_cycles (mu_current_transaction u) > 1 then
              (u\<lparr>mu_next_transaction := (mu_next_transaction u)
                   \<lparr>tx_remaining_cycles := tx_remaining_cycles (mu_next_transaction u) - 1\<rparr>\<rparr>, False)
            else (complete_current_transaction u, False))
         else if \<not> rq_valid request then (u, False)
         else if \<not> tag_valid (rq_tag request) then (u, False)
         else (u\<lparr>mu_next_transaction := (mu_next_transaction u)
                   \<lparr>tx_request := request, tx_remaining_cycles := kDataLatency, tx_valid := True\<rparr>\<rparr>,
               True))"

text \<open>The assertion of \<open>apply\<close>: an accepted request belongs to a reorder buffer slot.\<close>

definition memory_apply_asserts :: "DataMemoryRequest \<Rightarrow> MemoryUnit \<Rightarrow> bool" where
  "memory_apply_asserts request u \<longleftrightarrow>
     (tx_valid (mu_current_transaction u) \<or> \<not> rq_valid request \<or> tag_valid (rq_tag request))"

definition apply_store_write :: "PendingStoreWrite \<Rightarrow> MemoryImage \<Rightarrow> MemoryImage \<times> bool" where
  "apply_store_write w m =
     (if \<not> sw_valid w then (m, True)
      else case sw_width w of
             BYTE \<Rightarrow> write_byte m (sw_address w) (ucast (sw_value w AND 0xff))
           | HALF \<Rightarrow> write_half m (sw_address w) (ucast (sw_value w AND 0xffff))
           | WORD \<Rightarrow> write_word m (sw_address w) (sw_value w))"

definition memory_latch :: "MemoryUnit \<Rightarrow> MemoryUnit" where
  "memory_latch u =
     (let u = (if sw_valid (mu_next_store_write u)
               then u\<lparr>mu_memory := fst (apply_store_write (mu_next_store_write u) (mu_memory u))\<rparr>
               else u)
      in u\<lparr>mu_current_transaction := mu_next_transaction u,
           mu_current_response := mu_next_response u\<rparr>)"

text \<open>The assertion of \<open>latch\<close>: the scheduled write succeeds.\<close>

definition memory_latch_asserts :: "MemoryUnit \<Rightarrow> bool" where
  "memory_latch_asserts u \<longleftrightarrow>
     (sw_valid (mu_next_store_write u) \<longrightarrow>
      snd (apply_store_write (mu_next_store_write u) (mu_memory u)))"

end
