(* ===== verification/MemoryCorrect.thy ===== *)
theory MemoryCorrect
  imports MemoryUnit TwoPhase
begin

text \<open>
  The memory: little-endian words in a byte array, and the data port, which serves one transaction
  at a time with a fixed latency and writes a store's bytes at the clock edge at which its response
  appears.
\<close>

section \<open>Words and bytes\<close>

lemma unat_offset:
  assumes "in_bounds a 4" and "i < 4"
  shows "unat (a + of_nat i) = unat a + i"
proof -
  have "unat a + i < 2 ^ 32" using assms by (simp add: in_bounds_iff kMemorySize_def)
  moreover have "unat (of_nat i :: Address) = i" using assms(2) by (intro unat_of_nat_32) simp
  ultimately show ?thesis by (simp add: unat_word_ariths)
qed

lemma write_word_byte:
  assumes "in_bounds a 4" and "i < 4"
  shows "read_byte (fst (write_word m a v)) (a + of_nat i) = Some (ucast (drop_bit (8 * i) v))"
proof -
  have b: "in_bounds (a + of_nat i) 1"
    using assms by (simp add: in_bounds_iff unat_offset)
  have "i = 0 \<or> i = 1 \<or> i = 2 \<or> i = 3" using assms(2) by arith
  then have "bytes (fst (write_word m a v)) (unat a + i) = ucast (drop_bit (8 * i) v AND 0xff)"
    using assms(1) by (auto simp: write_word_def Let_def)
  also have "\<dots> = ucast (drop_bit (8 * i) v)"
    by (rule bit_word_eqI) (simp add: and_0xff bit_simps)
  finally show ?thesis using b by (simp add: read_byte_def unat_offset [OF assms])
qed

section \<open>One cycle of the data port\<close>

definition mem_cycle :: "DataMemoryRequest \<Rightarrow> MemoryUnit \<Rightarrow> MemoryUnit" where
  "mem_cycle request u = memory_latch (fst (memory_apply request u))"

definition memory_after :: "DataMemoryRequest \<Rightarrow> MemoryImage \<Rightarrow> MemoryImage" where
  "memory_after r m =
     (if rq_type r = STORE
      then fst (apply_store_write \<lparr>sw_address = rq_address r, sw_value = rq_value r,
             sw_width = rq_width r, sw_valid = True\<rparr> m)
      else m)"

definition response_to :: "DataMemoryRequest \<Rightarrow> MemoryImage \<Rightarrow> DataMemoryResponse" where
  "response_to r m = \<lparr>rsp_tag = rq_tag r,
     rsp_value = (if rq_type r = LOAD then fst (read_data m (rq_address r) (rq_width r)) else 0),
     rsp_is_store = (rq_type r = STORE),
     rsp_success = in_bounds (rq_address r) (width_in_bytes (rq_width r)),
     rsp_valid = True\<rparr>"

lemma read_data_success: "snd (read_data m a w) = in_bounds a (width_in_bytes w)"
  by (cases w)
     (simp_all add: read_byte_None read_half_None read_word_None image_defs Let_def)

lemma store_out_of_bounds:
  assumes "\<not> in_bounds (sw_address w) (width_in_bytes (sw_width w))"
  shows "fst (apply_store_write w m) = m"
  using assms by (cases "sw_width w") (simp_all add: apply_store_write_def image_defs)

lemma width_pos: "width_in_bytes w \<noteq> 0"
  by (cases w) simp_all

lemma memory_apply_busy:
  assumes "tx_valid (mu_current_transaction u)"
  shows "snd (memory_apply r u) = False"
    and "fst (memory_apply r u) = fst (memory_apply request_default u)"
  using assms by (simp_all add: memory_apply_def Let_def)

lemma memory_waits:
  assumes "tx_valid (mu_current_transaction u)" and "1 < tx_remaining_cycles (mu_current_transaction u)"
  shows "mem_cycle r u = u\<lparr>
     mu_current_transaction := (mu_current_transaction u)
       \<lparr>tx_remaining_cycles := tx_remaining_cycles (mu_current_transaction u) - 1\<rparr>,
     mu_next_transaction := (mu_current_transaction u)
       \<lparr>tx_remaining_cycles := tx_remaining_cycles (mu_current_transaction u) - 1\<rparr>,
     mu_current_response := response_default, mu_next_response := response_default,
     mu_next_store_write := store_write_default\<rparr>"
  using assms
  by (simp add: mem_cycle_def memory_apply_def memory_latch_def Let_def store_write_default_def)

lemma memory_accepts:
  assumes "\<not> tx_valid (mu_current_transaction u)" and "rq_valid r" and "tag_valid (rq_tag r)"
  shows "snd (memory_apply r u)"
    and "mu_current_transaction (mem_cycle r u)
       = \<lparr>tx_request = r, tx_remaining_cycles = kDataLatency, tx_valid = True\<rparr>"
    and "mu_current_response (mem_cycle r u) = response_default"
    and "mu_memory (mem_cycle r u) = mu_memory u"
  using assms
  by (simp_all add: mem_cycle_def memory_apply_def memory_latch_def Let_def store_write_default_def)

lemma memory_idle:
  assumes "\<not> tx_valid (mu_current_transaction u)" and "\<not> rq_valid r"
  shows "snd (memory_apply r u) = False"
    and "mu_current_transaction (mem_cycle r u) = mu_current_transaction u"
    and "mu_current_response (mem_cycle r u) = response_default"
    and "mu_memory (mem_cycle r u) = mu_memory u"
  using assms
  by (simp_all add: mem_cycle_def memory_apply_def memory_latch_def Let_def store_write_default_def)

lemma memory_completes:
  assumes "tx_valid (mu_current_transaction u)" and "tx_remaining_cycles (mu_current_transaction u) \<le> 1"
  defines "q \<equiv> tx_request (mu_current_transaction u)"
  shows "mu_current_transaction (mem_cycle r u) = transaction_default"
    and "mu_current_response (mem_cycle r u) = response_to q (mu_memory u)"
    and "mu_memory (mem_cycle r u) = memory_after q (mu_memory u)"
proof -
  have a: "fst (memory_apply r u) = complete_current_transaction
     (u\<lparr>mu_next_transaction := mu_current_transaction u, mu_next_response := response_default,
        mu_next_store_write := store_write_default\<rparr>)"
    using assms(1,2) by (simp add: memory_apply_def Let_def)
  have "mu_current_transaction (mem_cycle r u) = transaction_default
     \<and> mu_current_response (mem_cycle r u) = response_to q (mu_memory u)
     \<and> mu_memory (mem_cycle r u) = memory_after q (mu_memory u)"
  proof (cases "rq_type q")
    case LOAD
    then show ?thesis
      using read_data_success [of "mu_memory u" "rq_address q" "rq_width q"]
      by (simp add: mem_cycle_def a complete_current_transaction_def memory_latch_def Let_def
          response_to_def memory_after_def store_write_default_def response_default_def
          q_def [symmetric] case_prod_beta)
  next
    case STORE
    show ?thesis
    proof (cases "in_bounds (rq_address q) (width_in_bytes (rq_width q))")
      case True
      then show ?thesis
        using STORE width_pos [of "rq_width q"]
        by (simp add: mem_cycle_def a complete_current_transaction_def memory_latch_def Let_def
            response_to_def memory_after_def schedule_store_def store_write_default_def
            response_default_def q_def [symmetric])
    next
      case False
      note out = store_out_of_bounds [of "\<lparr>sw_address = rq_address q, sw_value = rq_value q,
          sw_width = rq_width q, sw_valid = True\<rparr>" "mu_memory u"]
      show ?thesis
        using STORE False out
        by (simp add: mem_cycle_def a complete_current_transaction_def memory_latch_def Let_def
            response_to_def memory_after_def schedule_store_def store_write_default_def
            response_default_def q_def [symmetric])
    qed
  qed
  then show "mu_current_transaction (mem_cycle r u) = transaction_default"
    and "mu_current_response (mem_cycle r u) = response_to q (mu_memory u)"
    and "mu_memory (mem_cycle r u) = memory_after q (mu_memory u)"
    by simp_all
qed

text \<open>The assertion of \<open>latch\<close> never fails: a store is scheduled only inside the memory.\<close>

lemma scheduled_store_fits: "memory_latch_asserts (fst (memory_apply r u))"
proof -
  let ?q = "tx_request (mu_current_transaction u)"
  have fits: "snd (apply_store_write w m)"
    if "in_bounds (sw_address w) (width_in_bytes (sw_width w))" for w m
    using that by (cases "sw_width w") (simp_all add: apply_store_write_def image_defs Let_def)
  show ?thesis
  proof (cases "tx_valid (mu_current_transaction u) \<and> \<not> 1 < tx_remaining_cycles (mu_current_transaction u)
      \<and> rq_type ?q \<noteq> LOAD \<and> in_bounds (rq_address ?q) (width_in_bytes (rq_width ?q))")
    case True
    then show ?thesis
      using width_pos [of "rq_width ?q"]
      by (auto simp: memory_latch_asserts_def memory_apply_def Let_def complete_current_transaction_def
          schedule_store_def store_write_default_def intro!: fits)
  next
    case False
    then show ?thesis
      by (auto simp: memory_latch_asserts_def memory_apply_def Let_def complete_current_transaction_def
          schedule_store_def store_write_default_def split: prod.split)
  qed
qed

section \<open>Properties\<close>

text \<open>C34: a successful word write stores the four bytes little-endian, is read back as the word,
  and leaves every byte outside the word as it was.\<close>

theorem write_word_effect:
  assumes "snd (write_word m a v)"
  shows "read_word (fst (write_word m a v)) a = Some v
    \<and> (\<forall>i < 4. read_byte (fst (write_word m a v)) (a + of_nat i) = Some (ucast (drop_bit (8 * i) v)))
    \<and> (\<forall>i. i < unat a \<or> unat a + 4 \<le> i \<longrightarrow> bytes (fst (write_word m a v)) i = bytes m i)"
proof -
  have b: "in_bounds a 4"
    using assms mem32.put_ok [of m a v] by (simp add: in_bounds_iff kMemorySize_def)
  show ?thesis
    using mem32.read_back [OF assms] write_word_byte [OF b] mem32.put_frame [of _ a m v] by simp
qed

theorem write_word_effect_witness:
  "\<forall>m. read_byte (fst (write_word m 0x100 0xDEADBEEF)) 0x103 = Some 0xDE"
proof
  fix m
  have "snd (write_word m 0x100 0xDEADBEEF)"
    by (simp add: write_word_def in_bounds_iff kMemorySize_def)
  note w = write_word_effect [OF this, THEN conjunct2, THEN conjunct1, rule_format, of 3]
  have "ucast (drop_bit 24 (0xDEADBEEF :: Word)) = (0xDE :: Byte)"
    by (simp add: drop_bit_eq_div)
  then show "read_byte (fst (write_word m 0x100 0xDEADBEEF)) 0x103 = Some 0xDE"
    using w by simp
qed

text \<open>C35: an access of the data port succeeds exactly inside the memory, and a failed write changes
  nothing, at every width.\<close>

theorem memory_access_bounds:
  "(read_byte m a \<noteq> None) = (unat a + 1 \<le> kMemorySize)
   \<and> (read_half m a \<noteq> None) = (unat a + 2 \<le> kMemorySize)
   \<and> (read_word m a \<noteq> None) = (unat a + 4 \<le> kMemorySize)
   \<and> write_byte m a b = (if unat a + 1 \<le> kMemorySize then (fst (write_byte m a b), True) else (m, False))
   \<and> write_half m a h = (if unat a + 2 \<le> kMemorySize then (fst (write_half m a h), True) else (m, False))
   \<and> write_word m a w = (if unat a + 4 \<le> kMemorySize then (fst (write_word m a w), True) else (m, False))"
  using mem8.get_some [of m a] mem16.get_some [of m a] mem32.get_some [of m a]
    mem8.put_ok [of m a b] mem16.put_ok [of m a h] mem32.put_ok [of m a w]
    mem8.put_fails [of m a b] mem16.put_fails [of m a h] mem32.put_fails [of m a w]
  by (auto simp: prod_eq_iff)

text \<open>C27: a request accepted by the idle port is answered exactly four clock edges later, whatever
  is requested meanwhile: no response appears and the memory does not change before; then the
  response carries the tag, the success and the value read, a store in bounds has been written, and
  the port is idle again.\<close>

theorem data_port_transaction:
  assumes "data_port_available u" and "rq_valid r" and "tag_valid (rq_tag r)"
  shows "let u1 = mem_cycle r u; u2 = mem_cycle r1 u1; u3 = mem_cycle r2 u2; u4 = mem_cycle r3 u3
    in (\<forall>v \<in> {u1, u2, u3}. data_response v = response_default \<and> \<not> data_port_available v
          \<and> mu_memory v = mu_memory u)
       \<and> data_response u4 = response_to r (mu_memory u)
       \<and> mu_memory u4 = memory_after r (mu_memory u) \<and> data_port_available u4"
proof -
  have idle: "\<not> tx_valid (mu_current_transaction u)"
    using assms(1) by (simp add: data_port_available_def)
  note acc = memory_accepts [OF idle assms(2,3)]
  define u1 where "u1 = mem_cycle r u"
  have u1: "mu_current_transaction u1 = \<lparr>tx_request = r, tx_remaining_cycles = 3, tx_valid = True\<rparr>"
      "mu_current_response u1 = response_default" "mu_memory u1 = mu_memory u"
    using acc(2-4) by (simp_all add: u1_def kDataLatency_def)
  define u2 where "u2 = mem_cycle r1 u1"
  have u2: "mu_current_transaction u2 = \<lparr>tx_request = r, tx_remaining_cycles = 2, tx_valid = True\<rparr>"
      "mu_current_response u2 = response_default" "mu_memory u2 = mu_memory u"
    using memory_waits [of u1 r1] u1 by (simp_all add: u2_def)
  define u3 where "u3 = mem_cycle r2 u2"
  have u3: "mu_current_transaction u3 = \<lparr>tx_request = r, tx_remaining_cycles = 1, tx_valid = True\<rparr>"
      "mu_current_response u3 = response_default" "mu_memory u3 = mu_memory u"
    using memory_waits [of u2 r2] u2 by (simp_all add: u3_def)
  have u4: "mu_current_transaction (mem_cycle r3 u3) = transaction_default"
      "mu_current_response (mem_cycle r3 u3) = response_to r (mu_memory u)"
      "mu_memory (mem_cycle r3 u3) = memory_after r (mu_memory u)"
    using memory_completes [of u3 r3] u3 by simp_all
  show ?thesis
    unfolding Let_def u1_def [symmetric] u2_def [symmetric] u3_def [symmetric]
    using u1 u2 u3 u4
    by (simp add: data_response_def data_port_available_def transaction_default_def)
qed

theorem data_port_transaction_witness:
  "\<exists>u r. data_port_available u \<and> rq_type r = STORE
    \<and> read_word (mu_memory (mem_cycle request_default (mem_cycle request_default
        (mem_cycle request_default (mem_cycle r u))))) 0x40 = Some 77
    \<and> read_word (mu_memory (mem_cycle request_default (mem_cycle request_default
        (mem_cycle r u)))) 0x40 = Some 0"
proof -
  let ?r = "request_default\<lparr>rq_type := STORE, rq_address := 0x40, rq_value := 77,
    rq_tag := \<lparr>tag_index = 0, tag_generation = 1, tag_valid = True\<rparr>, rq_valid := True\<rparr>"
  let ?u = memory_unit_new
  have av: "data_port_available ?u"
    by (simp add: data_port_available_def memory_unit_new_def memory_reset_def transaction_default_def)
  have mem: "bytes (mu_memory ?u) = (\<lambda>_. 0)"
    by (simp add: memory_unit_new_def memory_reset_def)
  note t = data_port_transaction [OF av, of ?r request_default request_default request_default,
      unfolded Let_def]
  have "mu_memory (mem_cycle request_default (mem_cycle request_default
        (mem_cycle request_default (mem_cycle ?r ?u)))) = memory_after ?r (mu_memory ?u)"
    and before: "mu_memory (mem_cycle request_default (mem_cycle request_default
        (mem_cycle ?r ?u))) = mu_memory ?u"
    using t by simp_all
  moreover have "memory_after ?r (mu_memory ?u) = fst (write_word (mu_memory ?u) 0x40 77)"
    by (simp add: memory_after_def apply_store_write_def request_default_def)
  moreover have "read_word (fst (write_word (mu_memory ?u) 0x40 77)) 0x40 = Some 77"
    by (rule read_write_word) (simp add: in_bounds_iff kMemorySize_def)
  moreover have "read_word (mu_memory ?u) 0x40 = Some 0"
    using mem by (simp add: read_word_def in_bounds_iff kMemorySize_def)
  ultimately have "data_port_available ?u \<and> rq_type ?r = STORE
    \<and> read_word (mu_memory (mem_cycle request_default (mem_cycle request_default
        (mem_cycle request_default (mem_cycle ?r ?u))))) 0x40 = Some 77
    \<and> read_word (mu_memory (mem_cycle request_default (mem_cycle request_default
        (mem_cycle ?r ?u)))) 0x40 = Some 0"
    using av before by simp
  then show ?thesis by blast
qed

end
