(* ===== verification/RegisterFile.thy ===== *)
theory RegisterFile
  imports Types TwoPhase
begin

text \<open>
  \<open>tomasulo/register_file.cpp\<close>: the committed registers.  A commit's write waits in
  \<open>pending_write_\<close> until the clock edge, and is dropped for \<open>x0\<close> and for numbers out of range.
\<close>

record RegisterWrite =
  rw_rd :: RegisterIndex
  rw_value :: Word
  rw_valid :: bool

definition register_write_default :: RegisterWrite where [default_defs]:
  "register_write_default = \<lparr>rw_rd = 0, rw_value = 0, rw_valid = False\<rparr>"

record RegisterFile =
  rf_register :: "Word list"
  rf_pending_write :: RegisterWrite

definition kRegisterCount :: nat where
  "kRegisterCount = 32"

definition register_file_reset :: "RegisterFile \<Rightarrow> RegisterFile" where
  "register_file_reset f = f\<lparr>rf_register := replicate kRegisterCount 0,
     rf_pending_write := register_write_default\<rparr>"

definition register_file_new :: RegisterFile where
  "register_file_new = register_file_reset
     \<lparr>rf_register = replicate kRegisterCount 0, rf_pending_write = register_write_default\<rparr>"

definition rf_read :: "RegisterFile \<Rightarrow> RegisterIndex \<Rightarrow> Word" where
  "rf_read f idx =
     (let pos = unat idx
      in if pos = 0 \<or> pos \<ge> kRegisterCount then 0 else rf_register f ! pos)"

definition rf_apply :: "RegisterWrite \<Rightarrow> RegisterFile \<Rightarrow> RegisterFile" where
  "rf_apply w f =
     (let f = f\<lparr>rf_pending_write := w\<rparr>;
          position = unat (rw_rd (rf_pending_write f))
      in if position = 0 \<or> position \<ge> kRegisterCount
         then f\<lparr>rf_pending_write := (rf_pending_write f)\<lparr>rw_valid := False\<rparr>\<rparr>
         else f)"

definition rf_latch :: "RegisterFile \<Rightarrow> RegisterFile" where
  "rf_latch f =
     (let f = (if rw_valid (rf_pending_write f)
               then f\<lparr>rf_register := (rf_register f)
                         [unat (rw_rd (rf_pending_write f)) := rw_value (rf_pending_write f)]\<rparr>
               else f)
      in f\<lparr>rf_register := (rf_register f)[0 := 0], rf_pending_write := register_write_default\<rparr>)"

section \<open>Properties\<close>

definition rf_invar :: "RegisterFile \<Rightarrow> bool" where [inv_defs]:
  "rf_invar f \<longleftrightarrow> length (rf_register f) = kRegisterCount"

definition rf_next :: "RegisterWrite \<Rightarrow> Word list \<Rightarrow> Word list" where
  "rf_next w regs =
     (if rw_valid w \<and> unat (rw_rd w) < kRegisterCount
      then regs[unat (rw_rd w) := rw_value w] else regs)[0 := 0]"

lemma rf_pending_after_latch [simp]:
  "rf_pending_write (rf_latch f) = register_write_default"
  by (simp add: rf_latch_def Let_def)

interpretation rf: two_phase rf_register rf_apply rf_latch rf_next
  by unfold_locales
     (auto simp: rf_apply_def rf_latch_def rf_next_def Let_def list_update_beyond)

lemma rf_invar_new [simp]: "rf_invar register_file_new"
  by (simp add: rf_invar_def register_file_new_def register_file_reset_def)

lemma rf_invar_cycle: "rf_invar f \<Longrightarrow> rf_invar (rf_latch (rf_apply w f))"
  by (simp add: rf_invar_def rf.latch_installs rf_next_def)

lemma rf_read_zero [simp]: "rf_read f 0 = 0"
  by (simp add: rf_read_def)

lemma rf_read_apply [simp]: "rf_read (rf_apply w f) = rf_read f"
  by (rule ext) (simp add: rf_read_def rf.apply_keeps_cur Let_def)

lemma rf_read_cycle:
  assumes "rf_invar f"
  shows "rf_read (rf_latch (rf_apply w f)) r =
     (if rw_valid w \<and> r = rw_rd w \<and> r \<noteq> 0 \<and> unat r < kRegisterCount then rw_value w
      else rf_read f r)"
proof -
  have len: "length (rf_register f) = 32"
    using assms by (simp add: rf_invar_def kRegisterCount_def)
  show ?thesis
  proof (cases "unat r = 0 \<or> 32 \<le> unat r")
    case True
    then show ?thesis by (auto simp: rf_read_def kRegisterCount_def unat_eq_0)
  next
    case False
    then show ?thesis
      using len by (auto simp: rf_read_def rf.latch_installs rf_next_def kRegisterCount_def
          word_unat_eq_iff)
  qed
qed

end
