(* ===== verification/RenameTable.thy ===== *)
theory RenameTable
  imports Types TwoPhase
begin

text \<open>
  \<open>tomasulo/rename_table.cpp\<close>: for each architectural register the tag of its youngest producer
  that has not committed.  The priority of a cycle's updates is flush, then issue, then commit.
\<close>

record RATWrite =
  ratw_rd :: RegisterIndex
  ratw_tag :: RobTag
  ratw_valid :: bool

definition rat_write_default :: RATWrite where [default_defs]:
  "rat_write_default = \<lparr>ratw_rd = 0, ratw_tag = no_tag, ratw_valid = False\<rparr>"

record RATCommit =
  ratc_rd :: RegisterIndex
  ratc_tag :: RobTag
  ratc_valid :: bool

definition rat_commit_default :: RATCommit where [default_defs]:
  "rat_commit_default = \<lparr>ratc_rd = 0, ratc_tag = no_tag, ratc_valid = False\<rparr>"

record RenameTable =
  rat_cur :: "RobTag list"
  rat_next :: "RobTag list"

definition kRatRegisterCount :: nat where
  "kRatRegisterCount = 32"

definition invalidate :: "RobTag list" where
  "invalidate = replicate kRatRegisterCount no_tag"

definition rat_reset :: "RenameTable \<Rightarrow> RenameTable" where
  "rat_reset t = t\<lparr>rat_cur := invalidate, rat_next := invalidate\<rparr>"

definition rename_table_new :: RenameTable where
  "rename_table_new = rat_reset \<lparr>rat_cur = invalidate, rat_next = invalidate\<rparr>"

definition valid_register :: "RegisterIndex \<Rightarrow> bool" where
  "valid_register reg \<longleftrightarrow> unat reg > 0 \<and> unat reg < kRatRegisterCount"

definition rat_lookup :: "RenameTable \<Rightarrow> RegisterIndex \<Rightarrow> RobTag" where
  "rat_lookup t idx =
     (if \<not> valid_register idx \<or> \<not> tag_valid (rat_cur t ! unat idx) then no_tag
      else rat_cur t ! unat idx)"

definition rat_latch :: "RenameTable \<Rightarrow> RenameTable" where
  "rat_latch t = t\<lparr>rat_cur := (rat_next t)[0 := no_tag]\<rparr>"

definition rat_busy :: "RenameTable \<Rightarrow> RegisterIndex \<Rightarrow> bool" where
  "rat_busy t reg \<longleftrightarrow> tag_valid (rat_lookup t reg)"

definition rat_apply :: "RATWrite \<Rightarrow> RATCommit \<Rightarrow> bool \<Rightarrow> RenameTable \<Rightarrow> RenameTable" where
  "rat_apply issue_write commit flush t =
     (let nt = rat_cur t
      in if flush then t\<lparr>rat_next := invalidate\<rparr>
         else
           let nt = (if ratc_valid commit \<and> tag_valid (ratc_tag commit)
                        \<and> valid_register (ratc_rd commit)
                        \<and> nt ! unat (ratc_rd commit) = ratc_tag commit
                     then nt[unat (ratc_rd commit) := no_tag] else nt);
               nt = (if ratw_valid issue_write \<and> tag_valid (ratw_tag issue_write)
                        \<and> valid_register (ratw_rd issue_write)
                     then nt[unat (ratw_rd issue_write) := ratw_tag issue_write] else nt)
           in t\<lparr>rat_next := nt[0 := no_tag]\<rparr>)"

section \<open>Properties\<close>

definition rat_invar :: "RenameTable \<Rightarrow> bool" where [inv_defs]:
  "rat_invar t \<longleftrightarrow> length (rat_cur t) = kRatRegisterCount"

definition rat_nxt :: "RATWrite \<times> RATCommit \<times> bool \<Rightarrow> RobTag list \<Rightarrow> RobTag list" where
  "rat_nxt i nt = (case i of (w, c, flush) \<Rightarrow>
     (rat_next (rat_apply w c flush \<lparr>rat_cur = nt, rat_next = nt\<rparr>))[0 := no_tag])"

interpretation rat: two_phase rat_cur "\<lambda>(w, c, flush). rat_apply w c flush" rat_latch rat_nxt
  by unfold_locales (auto simp: rat_apply_def rat_latch_def rat_nxt_def Let_def split: prod.splits)

lemma rat_invar_new [simp]: "rat_invar rename_table_new"
  by (simp add: rat_invar_def rename_table_new_def rat_reset_def invalidate_def)

lemma rat_invar_cycle: "rat_invar t \<Longrightarrow> rat_invar (rat_latch (rat_apply w c flush t))"
  by (auto simp: rat_invar_def rat_apply_def rat_latch_def invalidate_def Let_def)

lemma rat_lookup_apply [simp]: "rat_lookup (rat_apply w c flush t) = rat_lookup t"
  by (simp add: rat_lookup_def rat_apply_def Let_def fun_eq_iff)

lemma rat_lookup_new [simp]: "rat_lookup rename_table_new r = no_tag"
  by (auto simp: rat_lookup_def rename_table_new_def rat_reset_def invalidate_def valid_register_def)

lemma rat_lookup_invalid: "\<not> valid_register r \<Longrightarrow> rat_lookup t r = no_tag"
  by (simp add: rat_lookup_def)

lemma rat_lookup_cycle:
  assumes "rat_invar t"
  shows "rat_lookup (rat_latch (rat_apply w c flush t)) r =
     (if flush then no_tag
      else if ratw_valid w \<and> tag_valid (ratw_tag w) \<and> valid_register r \<and> r = ratw_rd w
        then ratw_tag w
      else if ratc_valid c \<and> tag_valid (ratc_tag c) \<and> r = ratc_rd c \<and> rat_lookup t r = ratc_tag c
        then no_tag
      else rat_lookup t r)"
proof (cases flush)
  case True
  then show ?thesis
    by (auto simp: rat_lookup_def rat_apply_def rat_latch_def invalidate_def valid_register_def)
next
  case False
  with assms show ?thesis
    by (auto simp: rat_lookup_def rat_apply_def rat_latch_def rat_invar_def Let_def
        valid_register_def nth_list_update word_unat_eq_iff)
qed

end
