(* ===== verification/CommonDataBus.thy ===== *)
theory CommonDataBus
  imports Signals TwoPhase
begin

text \<open>
  \<open>tomasulo/common_data_bus.cpp\<close>: the arbiter between the integer unit and the load result of the
  load/store queue.  At most one result per cycle is broadcast; under contention the winner
  alternates.
\<close>

datatype CDBSource = SourceNone | IntegerUnit | LoadUnit

record CDBInputs =
  ci_integer_result :: FUResult
  ci_load_result :: FUResult

definition cdb_inputs_default :: CDBInputs where [default_defs]:
  "cdb_inputs_default = \<lparr>ci_integer_result = fu_result_default, ci_load_result = fu_result_default\<rparr>"

record CDBOutputs =
  co_broadcast :: CDBMsg
  co_completion :: FUResult
  co_source :: CDBSource
  co_integer_granted :: bool
  co_load_granted :: bool

definition cdb_outputs_default :: CDBOutputs where [default_defs]:
  "cdb_outputs_default = \<lparr>co_broadcast = msg_default, co_completion = fu_result_default,
     co_source = SourceNone, co_integer_granted = False, co_load_granted = False\<rparr>"

record CDBDecision =
  cd_outputs :: CDBOutputs
  cd_next_prefer_load :: bool

record CommonDataBus =
  cdb_prefer_load :: bool
  cdb_next_prefer_load :: bool

definition cdb_reset :: "CommonDataBus \<Rightarrow> CommonDataBus" where
  "cdb_reset b = b\<lparr>cdb_prefer_load := False, cdb_next_prefer_load := False\<rparr>"

definition common_data_bus_new :: CommonDataBus where
  "common_data_bus_new = cdb_reset \<lparr>cdb_prefer_load = False, cdb_next_prefer_load = False\<rparr>"

definition cdb_latch :: "CommonDataBus \<Rightarrow> CommonDataBus" where
  "cdb_latch b = b\<lparr>cdb_prefer_load := cdb_next_prefer_load b\<rparr>"

definition valid_candidate :: "FUResult \<Rightarrow> bool" where
  "valid_candidate r = (if \<not> fu_valid r \<or> \<not> tag_valid (fu_tag r) then False else True)"

definition select_integer :: "FUResult \<Rightarrow> CDBOutputs \<Rightarrow> CDBOutputs" where
  "select_integer r outputs = outputs\<lparr>
     co_source := IntegerUnit, co_integer_granted := True, co_completion := r,
     co_broadcast := (co_broadcast outputs)
       \<lparr>msg_tag := fu_tag r, msg_value := fu_value r, msg_valid := True\<rparr>\<rparr>"

definition select_load :: "FUResult \<Rightarrow> CDBOutputs \<Rightarrow> CDBOutputs" where
  "select_load r outputs = outputs\<lparr>
     co_source := LoadUnit, co_load_granted := True, co_completion := r,
     co_broadcast := (co_broadcast outputs)
       \<lparr>msg_tag := fu_tag r, msg_value := fu_value r, msg_valid := True\<rparr>\<rparr>"

definition cdb_plan :: "CommonDataBus \<Rightarrow> CDBInputs \<Rightarrow> CDBDecision" where
  "cdb_plan b inputs =
     (let outputs = cdb_outputs_default;
          integer_valid = valid_candidate (ci_integer_result inputs);
          load_valid = valid_candidate (ci_load_result inputs)
      in if \<not> integer_valid \<and> \<not> load_valid then
           \<lparr>cd_outputs = outputs, cd_next_prefer_load = cdb_prefer_load b\<rparr>
         else if integer_valid \<and> load_valid then
           (if cdb_prefer_load b then
              \<lparr>cd_outputs = select_load (ci_load_result inputs) outputs,
               cd_next_prefer_load = False\<rparr>
            else
              \<lparr>cd_outputs = select_integer (ci_integer_result inputs) outputs,
               cd_next_prefer_load = True\<rparr>)
         else if integer_valid then
           \<lparr>cd_outputs = select_integer (ci_integer_result inputs) outputs,
            cd_next_prefer_load = True\<rparr>
         else
           \<lparr>cd_outputs = select_load (ci_load_result inputs) outputs,
            cd_next_prefer_load = False\<rparr>)"

definition cdb_apply :: "CDBDecision \<Rightarrow> CommonDataBus \<Rightarrow> CommonDataBus" where
  "cdb_apply decision b = b\<lparr>cdb_next_prefer_load := cd_next_prefer_load decision\<rparr>"

section \<open>Properties\<close>

interpretation cdb: two_phase cdb_prefer_load cdb_apply cdb_latch "\<lambda>d _. cd_next_prefer_load d"
  by unfold_locales (simp_all add: cdb_apply_def cdb_latch_def)

lemmas cdb_defs = cdb_plan_def select_integer_def select_load_def Let_def

lemma valid_candidate_iff: "valid_candidate r \<longleftrightarrow> fu_valid r \<and> tag_valid (fu_tag r)"
  by (simp add: valid_candidate_def)

lemma valid_candidate_default [simp]: "\<not> valid_candidate fu_result_default"
  by (simp add: valid_candidate_def fu_result_default_def)

text \<open>What a grant carries: the granted candidate, unchanged.\<close>

lemma cdb_integer_granted:
  "co_integer_granted (cd_outputs (cdb_plan b i)) \<Longrightarrow>
     valid_candidate (ci_integer_result i)
     \<and> co_completion (cd_outputs (cdb_plan b i)) = ci_integer_result i
     \<and> co_broadcast (cd_outputs (cdb_plan b i)) =
         \<lparr>msg_tag = fu_tag (ci_integer_result i), msg_value = fu_value (ci_integer_result i),
          msg_valid = True\<rparr>
     \<and> \<not> co_load_granted (cd_outputs (cdb_plan b i))"
  by (auto simp: cdb_defs cdb_outputs_default_def msg_default_def split: if_splits)

lemma cdb_load_granted:
  "co_load_granted (cd_outputs (cdb_plan b i)) \<Longrightarrow>
     valid_candidate (ci_load_result i)
     \<and> co_completion (cd_outputs (cdb_plan b i)) = ci_load_result i
     \<and> co_broadcast (cd_outputs (cdb_plan b i)) =
         \<lparr>msg_tag = fu_tag (ci_load_result i), msg_value = fu_value (ci_load_result i),
          msg_valid = True\<rparr>
     \<and> \<not> co_integer_granted (cd_outputs (cdb_plan b i))"
  by (auto simp: cdb_defs cdb_outputs_default_def msg_default_def split: if_splits)

lemma cdb_no_grant:
  "\<not> co_integer_granted (cd_outputs (cdb_plan b i)) \<Longrightarrow>
   \<not> co_load_granted (cd_outputs (cdb_plan b i)) \<Longrightarrow>
     cd_outputs (cdb_plan b i) = cdb_outputs_default
     \<and> \<not> valid_candidate (ci_integer_result i) \<and> \<not> valid_candidate (ci_load_result i)"
  by (auto simp: cdb_defs split: if_splits)

end
