(* ===== verification/Report.thy ===== *)
theory Report
  imports Prelude
begin

text \<open>
  The text that \<open>main.cpp\<close> writes through the output operators of the C++ library: unsigned
  integers in decimal and, after \<open>std::hex\<close>, in hexadecimal, and a \<open>double\<close> with the default
  format, six significant digits.  The \<open>double\<close> values of the program are quotients of two counters,
  so that a finite non-negative value, a natural number times a power of two, is enough.
\<close>

section \<open>Integers\<close>

definition digit_char :: "nat \<Rightarrow> char" where
  "digit_char d = (if d < 10 then char_of (48 + d) else char_of (87 + d))"

fun print_radix :: "nat \<Rightarrow> nat \<Rightarrow> string" where
  "print_radix b n = (if b \<le> 1 \<or> n < b then [digit_char n] else print_radix b (n div b) @ [digit_char (n mod b)])"

declare print_radix.simps [simp del]

abbreviation decimal :: "nat \<Rightarrow> string" where
  "decimal \<equiv> print_radix 10"

abbreviation hexadecimal :: "nat \<Rightarrow> string" where
  "hexadecimal \<equiv> print_radix 16"

abbreviation newline :: string where
  "newline \<equiv> [CHR 0x0A]"

text \<open>Reading the text back: what a number's text means.\<close>

definition char_digit :: "char \<Rightarrow> nat" where
  "char_digit c = (if of_char c < (58 :: nat) then of_char c - 48 else of_char c - 87)"

definition radix_value :: "nat \<Rightarrow> string \<Rightarrow> nat" where
  "radix_value b txt = foldl (\<lambda>v c. v * b + char_digit c) 0 txt"

lemma char_digit_digit: "d < 36 \<Longrightarrow> char_digit (digit_char d) = d"
  by (simp add: char_digit_def digit_char_def)

lemma print_radix_value:
  assumes "2 \<le> b" and "b \<le> 36"
  shows "radix_value b (print_radix b n) = n"
proof (induction n rule: less_induct)
  case (less n)
  show ?case
  proof (cases "n < b")
    case True
    then show ?thesis using assms by (subst print_radix.simps) (simp add: radix_value_def char_digit_digit)
  next
    case False
    then have "n div b < n" using assms(1) by (intro div_less_dividend) auto
    then have "radix_value b (print_radix b (n div b)) = n div b" by (rule less.IH)
    moreover have "n mod b < 36" using mod_less_divisor [of b n] assms by linarith
    ultimately show ?thesis
      using False assms(1) by (subst print_radix.simps) (simp add: radix_value_def char_digit_digit)
  qed
qed

lemma print_radix_inject: "2 \<le> b \<Longrightarrow> b \<le> 36 \<Longrightarrow> print_radix b m = print_radix b n \<longleftrightarrow> m = n"
  using print_radix_value by metis

section \<open>Floating point\<close>

text \<open>A pair \<open>(m, e)\<close> stands for \<open>m * 2 ^ e\<close>.\<close>

type_synonym double = "nat \<times> int"

definition round_half_even :: "nat \<Rightarrow> nat \<Rightarrow> nat" where
  "round_half_even n d =
     (let q = n div d; r = n mod d
      in if 2 * r < d \<or> (2 * r = d \<and> even q) then q else q + 1)"

lemma round_half_even_error:
  assumes "0 < d"
  shows "2 * n \<le> (2 * round_half_even n d + 1) * d" "2 * round_half_even n d * d \<le> 2 * n + d"
proof -
  define q r where "q = n div d" and "r = n mod d"
  have n: "n = q * d + r" and r: "r < d" using assms by (simp_all add: q_def r_def)
  have "round_half_even n d = (if 2 * r < d \<or> (2 * r = d \<and> even q) then q else q + 1)"
    by (simp add: round_half_even_def Let_def q_def r_def)
  then show "2 * n \<le> (2 * round_half_even n d + 1) * d" "2 * round_half_even n d * d \<le> 2 * n + d"
    using r unfolding n by (simp_all add: distrib_left distrib_right mult.assoc)
qed

fun bit_length :: "nat \<Rightarrow> nat" where
  "bit_length n = (if n = 0 then 0 else Suc (bit_length (n div 2)))"

declare bit_length.simps [simp del]

text \<open>The fraction \<open>n * 2 ^ s / d\<close>.\<close>

definition scaled :: "nat \<Rightarrow> nat \<Rightarrow> int \<Rightarrow> nat \<times> nat" where
  "scaled n d s = (if 0 \<le> s then (n * 2 ^ nat s, d) else (n, d * 2 ^ nat (- s)))"

text \<open>The \<open>double\<close> nearest to \<open>n / d\<close>: 53 significant bits, ties to the even one.\<close>

definition nearest_double :: "nat \<Rightarrow> nat \<Rightarrow> double" where
  "nearest_double n d =
     (if n = 0 then (0, 0)
      else
        let s = 53 + int (bit_length d) - int (bit_length n);
            (n1, d1) = scaled n d s;
            s = (if 2 ^ 53 \<le> n1 div d1 then s - 1 else s);
            (n2, d2) = scaled n d s
        in (round_half_even n2 d2, - s))"

definition double_of_uint :: "nat \<Rightarrow> double" where
  "double_of_uint n = nearest_double n 1"

definition double_div :: "double \<Rightarrow> double \<Rightarrow> double" where
  "double_div x y = (case scaled (fst x) (fst y) (snd x - snd y) of (n, d) \<Rightarrow> nearest_double n d)"

section \<open>The default format of a double\<close>

text \<open>The exponent of the first decimal digit of \<open>n / d\<close>.\<close>

definition decimal_exponent :: "nat \<Rightarrow> nat \<Rightarrow> int" where
  "decimal_exponent n d =
     (if d \<le> n then int (length (decimal (n div d))) - 1
      else - int (length (decimal ((d - 1) div n))))"

definition strip_zeros :: "string \<Rightarrow> string" where
  "strip_zeros txt = rev (dropWhile (\<lambda>c. c = CHR 0x30) (rev txt))"

definition with_fraction :: "string \<Rightarrow> string \<Rightarrow> string" where
  "with_fraction whole fraction =
     (if strip_zeros fraction = [] then whole else whole @ CHR 0x2E # strip_zeros fraction)"

definition two_digits :: "nat \<Rightarrow> string" where
  "two_digits n = (if n < 10 then CHR 0x30 # decimal n else decimal n)"

definition print_double :: "double \<Rightarrow> string" where
  "print_double x =
     (let (n, d) = scaled (fst x) 1 (snd x)
      in if n = 0 then ''0''
         else
           let e = decimal_exponent n d;
               digits = (if e \<le> 5 then round_half_even (n * 10 ^ nat (5 - e)) d
                         else round_half_even n (d * 10 ^ nat (e - 5)));
               (digits, e) = (if digits = 10 ^ 6 then (10 ^ 5, e + 1) else (digits, e));
               txt = decimal digits
           in if e < - 4 \<or> 6 \<le> e then
                with_fraction (take 1 txt) (drop 1 txt)
                  @ (if e < 0 then ''e-'' else ''e+'') @ two_digits (nat \<bar>e\<bar>)
              else if 0 \<le> e then
                with_fraction (take (nat e + 1) txt) (drop (nat e + 1) txt)
              else with_fraction ''0'' (replicate (nat (- e) - 1) CHR 0x30 @ txt))"

end
