(* ===== verification/BranchPredictor.thy ===== *)
theory BranchPredictor
  imports Types TwoPhase Report
begin

text \<open>
  \<open>tomasulo/branch_predictor.cpp\<close>: a table of two-bit saturating counters indexed by the word
  address of the branch, and the counters of the statistics.
\<close>

record BranchPredictorUpdate =
  bu_pc :: Address
  bu_actual_taken :: bool
  bu_predicted_next_pc :: Address
  bu_actual_next_pc :: Address
  bu_valid :: bool

definition predictor_update_default :: BranchPredictorUpdate where [default_defs]:
  "predictor_update_default = \<lparr>bu_pc = 0, bu_actual_taken = False, bu_predicted_next_pc = 0,
     bu_actual_next_pc = 0, bu_valid = False\<rparr>"

definition kTableSize :: nat where "kTableSize = 256"
definition kStrongNotTaken :: Byte where "kStrongNotTaken = 0"
definition kWeakNotTaken :: Byte where "kWeakNotTaken = 1"
definition kWeakTaken :: Byte where "kWeakTaken = 2"
definition kStrongTaken :: Byte where "kStrongTaken = 3"

lemmas counter_defs = kStrongNotTaken_def kWeakNotTaken_def kWeakTaken_def kStrongTaken_def

text \<open>The registers of the predictor; the object holds a current and a next copy of them.\<close>

record predictor_regs =
  bp_table :: "Byte list"
  bp_prediction_count :: CycleCount
  bp_correct_count :: CycleCount

record BranchPredictor =
  bp_cur :: predictor_regs
  bp_next :: predictor_regs

definition predictor_regs_reset :: predictor_regs where
  "predictor_regs_reset = \<lparr>bp_table = replicate kTableSize kWeakNotTaken,
     bp_prediction_count = 0, bp_correct_count = 0\<rparr>"

definition bp_reset :: "BranchPredictor \<Rightarrow> BranchPredictor" where
  "bp_reset p = p\<lparr>bp_cur := predictor_regs_reset, bp_next := predictor_regs_reset\<rparr>"

definition branch_predictor_new :: BranchPredictor where
  "branch_predictor_new = bp_reset \<lparr>bp_cur = predictor_regs_reset, bp_next = predictor_regs_reset\<rparr>"

definition index_of :: "Address \<Rightarrow> nat" where
  "index_of pc = unat (drop_bit 2 pc AND of_nat (kTableSize - 1))"

definition predict_taken :: "BranchPredictor \<Rightarrow> Address \<Rightarrow> bool" where
  "predict_taken p pc \<longleftrightarrow> bp_table (bp_cur p) ! index_of pc \<ge> kWeakTaken"

definition bp_counter :: "BranchPredictor \<Rightarrow> Address \<Rightarrow> Byte" where
  "bp_counter p pc = bp_table (bp_cur p) ! index_of pc"

definition bp_apply :: "BranchPredictorUpdate \<Rightarrow> BranchPredictor \<Rightarrow> BranchPredictor" where
  "bp_apply update p =
     (let n = bp_cur p
      in if \<not> bu_valid update then p\<lparr>bp_next := n\<rparr>
         else
           let i = index_of (bu_pc update);
               state = bp_table n ! i;
               state = (if bu_actual_taken update then
                          (if state < kStrongTaken then state + 1 else state)
                        else (if state > kStrongNotTaken then state - 1 else state));
               n = n\<lparr>bp_table := (bp_table n)[i := state],
                     bp_prediction_count := bp_prediction_count n + 1\<rparr>;
               n = (if bu_predicted_next_pc update = bu_actual_next_pc update
                    then n\<lparr>bp_correct_count := bp_correct_count n + 1\<rparr> else n)
           in p\<lparr>bp_next := n\<rparr>)"

definition bp_latch :: "BranchPredictor \<Rightarrow> BranchPredictor" where
  "bp_latch p = p\<lparr>bp_cur := bp_next p\<rparr>"

definition prediction_count :: "BranchPredictor \<Rightarrow> CycleCount" where
  "prediction_count p = bp_prediction_count (bp_cur p)"

definition correct_count :: "BranchPredictor \<Rightarrow> CycleCount" where
  "correct_count p = bp_correct_count (bp_cur p)"

definition accuracy :: "BranchPredictor \<Rightarrow> double" where
  "accuracy p =
     (if prediction_count p = 0 then (0, 0)
      else double_div (double_of_uint (unat (correct_count p))) (double_of_uint (unat (prediction_count p))))"

section \<open>Properties\<close>

definition bp_nxt :: "BranchPredictorUpdate \<Rightarrow> predictor_regs \<Rightarrow> predictor_regs" where
  "bp_nxt u c = bp_next (bp_apply u \<lparr>bp_cur = c, bp_next = c\<rparr>)"

interpretation bp: two_phase bp_cur bp_apply bp_latch bp_nxt
  by unfold_locales (simp_all add: bp_apply_def bp_latch_def bp_nxt_def Let_def)

definition bp_invar :: "predictor_regs \<Rightarrow> bool" where [inv_defs]:
  "bp_invar c \<longleftrightarrow> length (bp_table c) = kTableSize
     \<and> (\<forall>i < kTableSize. bp_table c ! i \<le> kStrongTaken)
     \<and> bp_correct_count c \<le> bp_prediction_count c"

lemma index_of_less: "index_of pc < kTableSize"
proof -
  have "drop_bit 2 pc AND 255 = take_bit 8 (drop_bit 2 pc)" by (rule and_0xff)
  then have "index_of pc = take_bit 8 (unat (drop_bit 2 pc))"
    by (simp add: index_of_def kTableSize_def unsigned_take_bit_eq)
  also have "\<dots> < 2 ^ 8" by (rule take_bit_nat_less_exp)
  finally show ?thesis by (simp add: kTableSize_def)
qed

end
