(* ===== verification/ModulesCorrect.thy ===== *)
theory ModulesCorrect
  imports RegisterFile RenameTable CommonDataBus BranchPredictor FunctionalUnit
begin

text \<open>
  The small modules of the core over whole runs: what a register, a rename entry, a predictor
  counter or the integer unit's result is after any sequence of cycles, and that the common data
  bus neither loses nor starves a result.
\<close>

section \<open>Register file\<close>

definition rf_cycle :: "RegisterWrite \<Rightarrow> RegisterFile \<Rightarrow> RegisterFile" where
  "rf_cycle w f = rf_latch (rf_apply w f)"

definition last_write :: "RegisterIndex \<Rightarrow> RegisterWrite list \<Rightarrow> Word" where
  "last_write r ws = fold (\<lambda>w v. if rw_valid w \<and> rw_rd w = r \<and> r \<noteq> 0 \<and> unat r < kRegisterCount
                                  then rw_value w else v) ws 0"

lemma rf_cycles:
  "rf_invar f \<Longrightarrow> rf_read (fold rf_cycle ws f) r =
     fold (\<lambda>w v. if rw_valid w \<and> rw_rd w = r \<and> r \<noteq> 0 \<and> unat r < kRegisterCount
                 then rw_value w else v) ws (rf_read f r)"
proof (induction ws arbitrary: f)
  case (Cons w ws)
  have "rf_read (rf_cycle w f) r = (if rw_valid w \<and> rw_rd w = r \<and> r \<noteq> 0 \<and> unat r < kRegisterCount
      then rw_value w else rf_read f r)"
    using rf_read_cycle [OF Cons.prems, of w r] by (auto simp: rf_cycle_def)
  then show ?case
    using Cons.IH [of "rf_cycle w f"] rf_invar_cycle [OF Cons.prems, of w]
    by (simp add: rf_cycle_def)
qed simp

text \<open>after any sequence of clock cycles a register reads as the value of the last valid write
  to it, and as zero when it is \<open>x0\<close>, out of range or was never written.\<close>

theorem register_file_last_write:
  "rf_read (fold rf_cycle ws register_file_new) r = last_write r ws"
proof -
  have "rf_read register_file_new r = 0"
    by (simp add: rf_read_def register_file_new_def register_file_reset_def Let_def)
  then show ?thesis by (simp add: rf_cycles last_write_def)
qed

section \<open>Rename table\<close>

definition rat_cycle :: "RATWrite \<times> RATCommit \<times> bool \<Rightarrow> RenameTable \<Rightarrow> RenameTable" where
  "rat_cycle i t = (case i of (w, c, flush) \<Rightarrow> rat_latch (rat_apply w c flush t))"

definition rename_step ::
  "RATWrite \<times> RATCommit \<times> bool \<Rightarrow> (RegisterIndex \<Rightarrow> RobTag) \<Rightarrow> RegisterIndex \<Rightarrow> RobTag" where
  "rename_step i m r = (case i of (w, c, flush) \<Rightarrow>
     if flush then no_tag
     else if ratw_valid w \<and> tag_valid (ratw_tag w) \<and> valid_register r \<and> r = ratw_rd w then ratw_tag w
     else if ratc_valid c \<and> tag_valid (ratc_tag c) \<and> r = ratc_rd c \<and> m r = ratc_tag c then no_tag
     else m r)"

lemma rat_cycles:
  "rat_invar t \<Longrightarrow> rat_lookup (fold rat_cycle is t) = fold rename_step is (rat_lookup t)"
proof (induction "is" arbitrary: t)
  case (Cons i "is")
  obtain w c flush where i: "i = (w, c, flush)" by (cases i)
  have "rat_lookup (rat_cycle i t) = rename_step i (rat_lookup t)"
    by (rule ext)
       (simp add: rat_cycle_def rename_step_def i rat_lookup_cycle [OF Cons.prems])
  moreover have "rat_invar (rat_cycle i t)"
    using rat_invar_cycle [OF Cons.prems] by (simp add: rat_cycle_def i)
  ultimately show ?case using Cons.IH by simp
qed simp

text \<open>C38: the rename table is a map from registers to tags: in every cycle a flush forgets
  everything, an issue overrides a commit of the same register, and a commit clears the entry only
  while it still names the committing instruction.\<close>

theorem rename_table_refines_map:
  "rat_lookup (fold rat_cycle is rename_table_new) = fold rename_step is (\<lambda>_. no_tag)"
proof -
  have "rat_lookup rename_table_new = (\<lambda>_. no_tag)" by (rule ext) simp
  then show ?thesis using rat_cycles [of rename_table_new "is"] by simp
qed

section \<open>Common data bus\<close>

definition bus_of :: "CommonDataBus \<Rightarrow> CDBInputs \<Rightarrow> CDBOutputs" where
  "bus_of b i = cd_outputs (cdb_plan b i)"

definition bus_cycle :: "CDBInputs \<Rightarrow> CommonDataBus \<Rightarrow> CommonDataBus" where
  "bus_cycle i b = cdb_latch (cdb_apply (cdb_plan b i) b)"

definition message_of :: "FUResult \<Rightarrow> CDBMsg" where
  "message_of r = \<lparr>msg_tag = fu_tag r, msg_value = fu_value r, msg_valid = True\<rparr>"

text \<open>the bus carries at most one result, carries one whenever a unit offers one, and what it
  carries, to the waiting operands and to the reorder buffer, is the result of the granted unit.\<close>

theorem bus_grants:
  "co_integer_granted (bus_of b i) =
     (valid_candidate (ci_integer_result i)
      \<and> \<not> (valid_candidate (ci_load_result i) \<and> cdb_prefer_load b))
   \<and> co_load_granted (bus_of b i) =
     (valid_candidate (ci_load_result i)
      \<and> \<not> (valid_candidate (ci_integer_result i) \<and> \<not> cdb_prefer_load b))
   \<and> co_completion (bus_of b i) =
     (if co_integer_granted (bus_of b i) then ci_integer_result i
      else if co_load_granted (bus_of b i) then ci_load_result i else fu_result_default)
   \<and> co_broadcast (bus_of b i) =
     (if fu_valid (co_completion (bus_of b i)) then message_of (co_completion (bus_of b i))
      else msg_default)"
  by (auto simp: bus_of_def cdb_plan_def Let_def select_integer_def select_load_def
      cdb_outputs_default_def msg_default_def message_of_def fu_result_default_def
      valid_candidate_def split: if_splits)

text \<open>C36: no starvation: a unit that offers a result in two consecutive cycles is granted in one of
  them, whatever the other unit offers.\<close>

theorem bus_fair:
  assumes "valid_candidate (ci_load_result i)" and "valid_candidate (ci_load_result j)"
    and "valid_candidate (ci_integer_result k)" and "valid_candidate (ci_integer_result l)"
  shows "(co_load_granted (bus_of b i) \<or> co_load_granted (bus_of (bus_cycle i b) j))
    \<and> (co_integer_granted (bus_of b k) \<or> co_integer_granted (bus_of (bus_cycle k b) l))"
  using assms
  by (auto simp: bus_of_def bus_cycle_def cdb_plan_def Let_def select_integer_def select_load_def
      cdb_outputs_default_def cdb_latch_def cdb_apply_def)

theorem bus_fair_witness:
  "\<exists>r. valid_candidate r
     \<and> (co_load_granted (bus_of common_data_bus_new \<lparr>ci_integer_result = r, ci_load_result = r\<rparr>)
        \<or> co_load_granted (bus_of (bus_cycle \<lparr>ci_integer_result = r, ci_load_result = r\<rparr> common_data_bus_new)
            \<lparr>ci_integer_result = r, ci_load_result = r\<rparr>))"
proof -
  define r where "r = fu_result_default
      \<lparr>fu_tag := \<lparr>tag_index = 3, tag_generation = 1, tag_valid = True\<rparr>, fu_valid := True\<rparr>"
  have "valid_candidate r" by (simp add: r_def valid_candidate_def)
  then show ?thesis
    using bus_fair [of "\<lparr>ci_integer_result = r, ci_load_result = r\<rparr>"
        "\<lparr>ci_integer_result = r, ci_load_result = r\<rparr>" "\<lparr>ci_integer_result = r, ci_load_result = r\<rparr>"
        "\<lparr>ci_integer_result = r, ci_load_result = r\<rparr>" common_data_bus_new] by auto
qed

section \<open>Branch predictor\<close>

definition bp_cycle :: "BranchPredictorUpdate \<Rightarrow> BranchPredictor \<Rightarrow> BranchPredictor" where
  "bp_cycle u p = bp_latch (bp_apply u p)"

definition saturate :: "bool \<Rightarrow> nat \<Rightarrow> nat" where
  "saturate taken n = (if taken then min 3 (n + 1) else n - 1)"

definition updates_at :: "nat \<Rightarrow> BranchPredictorUpdate list \<Rightarrow> BranchPredictorUpdate list" where
  "updates_at k us = filter (\<lambda>u. bu_valid u \<and> index_of (bu_pc u) = k) us"

definition counter_after :: "BranchPredictorUpdate list \<Rightarrow> nat" where
  "counter_after us = fold (\<lambda>u n. saturate (bu_actual_taken u) n) us 1"

definition predictor_is :: "BranchPredictorUpdate list \<Rightarrow> BranchPredictor \<Rightarrow> bool" where
  "predictor_is us p \<longleftrightarrow>
     length (bp_table (bp_cur p)) = kTableSize
     \<and> (\<forall>k < kTableSize. bp_table (bp_cur p) ! k = of_nat (counter_after (updates_at k us)))
     \<and> prediction_count p = of_nat (length (filter bu_valid us))
     \<and> correct_count p = of_nat (length (filter
         (\<lambda>u. bu_valid u \<and> bu_predicted_next_pc u = bu_actual_next_pc u) us))"

lemma counter_after_le: "counter_after us \<le> 3"
  unfolding counter_after_def by (induction us rule: rev_induct) (auto simp: saturate_def)

lemma counter_step:
  assumes "n \<le> 3"
  shows "(if taken then (if (of_nat n :: Byte) < kStrongTaken then of_nat n + 1 else of_nat n)
      else (if (of_nat n :: Byte) > kStrongNotTaken then of_nat n - 1 else of_nat n))
     = (of_nat (saturate taken n) :: Byte)"
proof -
  have "n = 0 \<or> n = 1 \<or> n = 2 \<or> n = 3" using assms by arith
  then show ?thesis by (auto simp: saturate_def counter_defs)
qed

lemma predictor_step:
  assumes "predictor_is us p"
  shows "predictor_is (us @ [u]) (bp_cycle u p)"
proof (cases "bu_valid u")
  case False
  then have "bp_cur (bp_cycle u p) = bp_cur p"
    by (simp add: bp_cycle_def bp_latch_def bp_apply_def)
  then show ?thesis
    using assms False by (simp add: predictor_is_def updates_at_def prediction_count_def correct_count_def)
next
  case True
  let ?i = "index_of (bu_pc u)"
  let ?c = "bp_cur (bp_cycle u p)"
  have t: "bp_table ?c = (bp_table (bp_cur p))[?i :=
       of_nat (saturate (bu_actual_taken u) (counter_after (updates_at ?i us)))]"
  proof -
    define x where "x = bp_table (bp_cur p) ! ?i"
    have x: "x = of_nat (counter_after (updates_at ?i us))"
      using assms index_of_less [of "bu_pc u"] by (simp add: predictor_is_def x_def)
    have "bp_table ?c = (bp_table (bp_cur p))[?i :=
        (if bu_actual_taken u then (if x < kStrongTaken then x + 1 else x)
         else (if x > kStrongNotTaken then x - 1 else x))]"
      using True by (simp add: bp_cycle_def bp_latch_def bp_apply_def Let_def x_def)
    then show ?thesis unfolding x counter_step [OF counter_after_le] .
  qed
  have n: "bp_prediction_count ?c = bp_prediction_count (bp_cur p) + 1"
      "bp_correct_count ?c = (if bu_predicted_next_pc u = bu_actual_next_pc u
         then bp_correct_count (bp_cur p) + 1 else bp_correct_count (bp_cur p))"
    using True by (simp_all add: bp_cycle_def bp_latch_def bp_apply_def Let_def)
  have s: "counter_after (updates_at k (us @ [u])) =
      (if k = ?i then saturate (bu_actual_taken u) (counter_after (updates_at k us))
       else counter_after (updates_at k us))" for k
    using True by (simp add: updates_at_def counter_after_def)
  show ?thesis
    using assms True n index_of_less [of "bu_pc u"]
    by (simp add: predictor_is_def t s prediction_count_def correct_count_def nth_list_update)
qed

lemma predictor_run: "predictor_is us (fold bp_cycle us branch_predictor_new)"
proof (induction us rule: rev_induct)
  case Nil
  then show ?case
    by (simp add: predictor_is_def branch_predictor_new_def bp_reset_def predictor_regs_reset_def
        prediction_count_def correct_count_def updates_at_def counter_after_def counter_defs)
next
  case (snoc u us)
  then show ?case using predictor_step by simp
qed

text \<open>C37: after any sequence of branch updates each counter is the two-bit saturating counter of
  the updates with its index, starting at 1, a branch is predicted taken exactly when its counter
  is at least 2, and the statistics count the updates and the right ones.\<close>

theorem predictor_counts:
  "bp_counter (fold bp_cycle us branch_predictor_new) pc
     = of_nat (counter_after (updates_at (index_of pc) us))
   \<and> predict_taken (fold bp_cycle us branch_predictor_new) pc
     = (2 \<le> counter_after (updates_at (index_of pc) us))
   \<and> prediction_count (fold bp_cycle us branch_predictor_new) = of_nat (length (filter bu_valid us))
   \<and> correct_count (fold bp_cycle us branch_predictor_new) = of_nat (length (filter
         (\<lambda>u. bu_valid u \<and> bu_predicted_next_pc u = bu_actual_next_pc u) us))"
proof -
  have t: "(of_nat n :: Byte) \<ge> 2 \<longleftrightarrow> 2 \<le> n" if "n \<le> 3" for n
  proof -
    have "n = 0 \<or> n = 1 \<or> n = 2 \<or> n = 3" using that by arith
    then show ?thesis by (auto simp: word_le_nat_alt)
  qed
  show ?thesis
    using predictor_run [of us] index_of_less [of pc]
      t [OF counter_after_le, of "updates_at (index_of pc) us"]
    by (simp add: predictor_is_def bp_counter_def predict_taken_def kWeakTaken_def)
qed

section \<open>Integer unit\<close>

text \<open>
  The contract of a unit that offers results to the bus: a valid result stays as it is until it is
  granted or everything is flushed.
\<close>

locale result_holder =
  fixes result :: "'s \<Rightarrow> FUResult" and unit_cycle :: "'i \<Rightarrow> 's \<Rightarrow> 's"
    and granted :: "'i \<Rightarrow> bool" and flushed :: "'i \<Rightarrow> bool"
  assumes holds: "fu_valid (result s) \<Longrightarrow> \<not> granted i \<Longrightarrow> \<not> flushed i \<Longrightarrow> result (unit_cycle i s) = result s"
    and flush_clears: "flushed i \<Longrightarrow> \<not> fu_valid (result (unit_cycle i s))"
begin

lemma held:
  "fu_valid (result s) \<Longrightarrow> list_all (\<lambda>i. \<not> granted i \<and> \<not> flushed i) is \<Longrightarrow>
     result (fold unit_cycle is s) = result s"
  by (induction "is" arbitrary: s) (auto simp: holds)

end

definition fu_cycle :: "Execute \<times> bool \<times> bool \<Rightarrow> FunctionalUnit \<Rightarrow> FunctionalUnit" where
  "fu_cycle i f = (case i of (e, flush, granted) \<Rightarrow> fu_latch (fst (fu_apply e flush granted f)))"

lemma fu_cycle_result: "fu_current_result (fu_cycle i f) = fu_nxt i (fu_current_result f)"
  using fu.latch_installs [of i f] by (simp add: fu_cycle_def case_prod_beta)

interpretation fu_held: result_holder fu_result fu_cycle "\<lambda>(_, _, granted). granted" "\<lambda>(_, flush, _). flush"
  by unfold_locales
     (auto simp: fu_result_def fu_cycle_result fu_nxt_def fu_result_default_def split: prod.splits)

text \<open>C39: the integer unit holds a finished result unchanged, and takes no other instruction, for
  as many cycles as the bus does not grant it and no flush comes.\<close>

theorem integer_unit_holds:
  assumes "has_result f" and "list_all (\<lambda>(_, flush, granted). \<not> granted \<and> \<not> flush) is"
  shows "fu_result (fold fu_cycle is f) = fu_result f \<and> \<not> can_accept (fold fu_cycle is f) False"
proof -
  have "fu_result (fold fu_cycle is f) = fu_result f"
    using assms by (intro fu_held.held) (auto simp: fu_result_def has_result_def list_all_iff)
  then show ?thesis using assms(1) by (simp add: fu_result_def has_result_def can_accept_def)
qed

theorem integer_unit_holds_witness:
  "\<exists>f e. has_result f \<and> ex_valid e
    \<and> fu_result (fold fu_cycle [(e, False, False), (e, False, False)] f) = fu_result f"
proof -
  let ?f = "functional_unit_new\<lparr>fu_current_result := fu_result_default\<lparr>fu_value := 9, fu_valid := True\<rparr>\<rparr>"
  let ?e = "execute_default\<lparr>ex_op := OP_ADD, ex_valid := True\<rparr>"
  have "has_result ?f" by (simp add: has_result_def)
  then have "fu_result (fold fu_cycle [(?e, False, False), (?e, False, False)] ?f) = fu_result ?f"
    by (rule integer_unit_holds [THEN conjunct1]) simp
  moreover have "ex_valid ?e" by simp
  ultimately show ?thesis using \<open>has_result ?f\<close> by blast
qed

end
