(* ===== verification/ReorderBuffer.thy ===== *)
theory ReorderBuffer
  imports Signals TwoPhase Ring
begin

text \<open>
  \<open>tomasulo/reorder_buffer.cpp\<close>: the ring of instructions in flight, in program order.  A slot's
  tag is its index with the generation of its last allocation, so that a late result for an older
  occupant of the slot does not match.
\<close>

record ROBEntry =
  re_tag :: RobTag
  re_op :: OP
  re_pc :: Address
  re_rd :: RegisterIndex
  re_value :: Word
  re_writes_rd :: bool
  re_ready :: bool
  re_predicted_next_pc :: Address
  re_actual_next_pc :: Address
  re_branch_taken :: bool
  re_is_branch :: bool
  re_is_store :: bool
  re_is_jump :: bool
  re_valid :: bool

definition rob_entry_default :: ROBEntry where [default_defs]:
  "rob_entry_default = \<lparr>re_tag = no_tag, re_op = OP_INVALID, re_pc = 0, re_rd = 0, re_value = 0,
     re_writes_rd = False, re_ready = False, re_predicted_next_pc = 0, re_actual_next_pc = 0,
     re_branch_taken = False, re_is_branch = False, re_is_store = False, re_is_jump = False,
     re_valid = False\<rparr>"

record StoreCommitRequest =
  scr_tag :: RobTag
  scr_valid :: bool

definition store_request_default :: StoreCommitRequest where [default_defs]:
  "store_request_default = \<lparr>scr_tag = no_tag, scr_valid = False\<rparr>"

record StoreCommitCompletion =
  scc_tag :: RobTag
  scc_valid :: bool

definition store_completion_default :: StoreCommitCompletion where [default_defs]:
  "store_completion_default = \<lparr>scc_tag = no_tag, scc_valid = False\<rparr>"

record ROBCommit =
  rc_entry :: ROBEntry
  rc_valid :: bool
  rc_halted :: bool
  rc_mispredicted :: bool
  rc_redirect_pc :: Address

definition rob_commit_default :: ROBCommit where [default_defs]:
  "rob_commit_default = \<lparr>rc_entry = rob_entry_default, rc_valid = False, rc_halted = False,
     rc_mispredicted = False, rc_redirect_pc = 0\<rparr>"

record ROBInputs =
  ri_issue_entry :: ROBEntry
  ri_issue_valid :: bool
  ri_completion :: FUResult
  ri_store_completion :: StoreCommitCompletion

record ROBOutputs =
  ro_commit :: ROBCommit
  ro_store_request :: StoreCommitRequest
  ro_issue_accepted :: bool
  ro_flush :: bool
  ro_redirect_pc :: Address

definition rob_outputs_default :: ROBOutputs where [default_defs]:
  "rob_outputs_default = \<lparr>ro_commit = rob_commit_default, ro_store_request = store_request_default,
     ro_issue_accepted = False, ro_flush = False, ro_redirect_pc = 0\<rparr>"

text \<open>\<open>ROBDecision\<close> has the one member \<open>outputs\<close>.\<close>

type_synonym ROBDecision = ROBOutputs

definition rob_kCapacity :: nat where
  "rob_kCapacity = 32"

record ReorderBuffer =
  rob_cur :: "ROBEntry list"
  rob_next :: "ROBEntry list"
  rob_generations :: "TagGeneration list"
  rob_next_generations :: "TagGeneration list"
  rob_head :: nat
  rob_tail :: nat
  rob_count :: nat
  rob_next_head :: nat
  rob_next_tail :: nat
  rob_next_count :: nat

section \<open>Operations\<close>

definition rob_reset :: "ReorderBuffer \<Rightarrow> ReorderBuffer" where
  "rob_reset r = r
     \<lparr>rob_cur := replicate rob_kCapacity rob_entry_default,
      rob_next := replicate rob_kCapacity rob_entry_default,
      rob_generations := replicate rob_kCapacity 0,
      rob_next_generations := replicate rob_kCapacity 0,
      rob_head := 0, rob_tail := 0, rob_count := 0,
      rob_next_head := 0, rob_next_tail := 0, rob_next_count := 0\<rparr>"

definition reorder_buffer_new :: ReorderBuffer where
  "reorder_buffer_new = rob_reset
     \<lparr>rob_cur = replicate rob_kCapacity rob_entry_default,
      rob_next = replicate rob_kCapacity rob_entry_default,
      rob_generations = replicate rob_kCapacity 0, rob_next_generations = replicate rob_kCapacity 0,
      rob_head = 0, rob_tail = 0, rob_count = 0,
      rob_next_head = 0, rob_next_tail = 0, rob_next_count = 0\<rparr>"

definition rob_latch :: "ReorderBuffer \<Rightarrow> ReorderBuffer" where
  "rob_latch r = r
     \<lparr>rob_cur := rob_next r, rob_generations := rob_next_generations r,
      rob_head := rob_next_head r, rob_tail := rob_next_tail r, rob_count := rob_next_count r\<rparr>"

definition rob_empty :: "ReorderBuffer \<Rightarrow> bool" where
  "rob_empty r \<longleftrightarrow> rob_count r = 0"

definition rob_full :: "ReorderBuffer \<Rightarrow> bool" where
  "rob_full r \<longleftrightarrow> rob_count r = rob_kCapacity"

definition rob_size :: "ReorderBuffer \<Rightarrow> nat" where
  "rob_size r = rob_count r"

definition following_generation :: "TagGeneration \<Rightarrow> TagGeneration" where
  "following_generation generation = generation + 1"

definition matching_entry :: "RobTag \<Rightarrow> ROBEntry list \<Rightarrow> bool" where
  "matching_entry tag entries =
     (if \<not> tag_valid tag then False
      else
        let index = unat (tag_index tag)
        in if index \<ge> rob_kCapacity then False
           else re_valid (entries ! index) \<and> re_tag (entries ! index) = tag)"

definition next_tag :: "ReorderBuffer \<Rightarrow> RobTag" where
  "next_tag r =
     (if rob_full r then no_tag
      else \<lparr>tag_index = of_nat (rob_tail r),
            tag_generation = following_generation (rob_generations r ! rob_tail r),
            tag_valid = True\<rparr>)"

definition rob_front :: "ReorderBuffer \<Rightarrow> ROBEntry option" where
  "rob_front r =
     (if rob_empty r then None
      else let entry = rob_cur r ! rob_head r in if re_valid entry then Some entry else None)"

definition rob_lookup :: "ReorderBuffer \<Rightarrow> RobTag \<Rightarrow> ROBEntry option" where
  "rob_lookup r tag =
     (if \<not> matching_entry tag (rob_cur r) then None
      else Some (rob_cur r ! unat (tag_index tag)))"

definition is_control_instruction :: "ROBEntry \<Rightarrow> bool" where
  "is_control_instruction entry \<longleftrightarrow> re_is_jump entry \<or> re_is_branch entry"

definition rob_plan :: "ReorderBuffer \<Rightarrow> ROBDecision" where
  "rob_plan r =
     (let outputs = rob_outputs_default
      in case rob_front r of
           None \<Rightarrow> outputs
         | Some head_entry \<Rightarrow>
             let outputs =
                   (if re_is_store head_entry \<and> \<not> re_ready head_entry
                    then outputs\<lparr>ro_store_request :=
                           \<lparr>scr_tag = re_tag head_entry, scr_valid = True\<rparr>\<rparr>
                    else outputs)
             in if re_ready head_entry then
                  let commit = (ro_commit outputs)\<lparr>rc_entry := head_entry, rc_valid := True,
                                 rc_halted := (re_op head_entry = OP_HALT)\<rparr>;
                      commit =
                        (if is_control_instruction head_entry
                         then commit\<lparr>rc_mispredicted :=
                                       (re_predicted_next_pc head_entry \<noteq> re_actual_next_pc head_entry),
                                     rc_redirect_pc := re_actual_next_pc head_entry\<rparr>
                         else commit);
                      outputs = outputs\<lparr>ro_commit := commit\<rparr>
                  in if rc_mispredicted commit
                     then outputs\<lparr>ro_flush := True, ro_redirect_pc := re_actual_next_pc head_entry\<rparr>
                     else outputs
                else outputs)"

definition apply_completion :: "FUResult \<Rightarrow> ReorderBuffer \<Rightarrow> ReorderBuffer" where
  "apply_completion completion r =
     (if \<not> fu_valid completion \<or> \<not> matching_entry (fu_tag completion) (rob_cur r) then r
      else
        let index = unat (tag_index (fu_tag completion));
            entry = (rob_next r ! index)\<lparr>re_value := fu_value completion, re_ready := True\<rparr>;
            entry = (if fu_has_control_result completion
                     then entry\<lparr>re_actual_next_pc := fu_actual_next_pc completion,
                                re_branch_taken := fu_branch_taken completion\<rparr>
                     else entry)
        in r\<lparr>rob_next := (rob_next r)[index := entry]\<rparr>)"

definition apply_store_completion :: "StoreCommitCompletion \<Rightarrow> ReorderBuffer \<Rightarrow> ReorderBuffer" where
  "apply_store_completion completion r =
     (if \<not> scc_valid completion \<or> \<not> matching_entry (scc_tag completion) (rob_cur r) then r
      else
        let index = unat (tag_index (scc_tag completion));
            entry = rob_next r ! index
        in if \<not> re_is_store entry then r
           else r\<lparr>rob_next := (rob_next r)[index := entry\<lparr>re_ready := True\<rparr>]\<rparr>)"

definition clear_speculative_entries :: "nat \<Rightarrow> ReorderBuffer \<Rightarrow> ReorderBuffer" where
  "clear_speculative_entries new_position r = r
     \<lparr>rob_next := replicate rob_kCapacity rob_entry_default,
      rob_next_head := new_position, rob_next_tail := new_position, rob_next_count := 0\<rparr>"

definition rob_apply :: "ROBInputs \<Rightarrow> ROBDecision \<Rightarrow> ReorderBuffer \<Rightarrow> ReorderBuffer \<times> bool" where
  "rob_apply inputs decision r =
     (let r = r\<lparr>rob_next := rob_cur r, rob_next_generations := rob_generations r,
               rob_next_head := rob_head r, rob_next_tail := rob_tail r,
               rob_next_count := rob_count r\<rparr>;
          r = apply_completion (ri_completion inputs) r;
          r = apply_store_completion (ri_store_completion inputs) r;
          r = (if rc_valid (ro_commit decision) then
                 let old_head = rob_next_head r;
                     new_head = (old_head + 1) mod rob_kCapacity;
                     r = r\<lparr>rob_next := (rob_next r)[old_head := rob_entry_default],
                           rob_next_head := new_head,
                           rob_next_count := size_dec (rob_next_count r)\<rparr>
                 in if ro_flush decision then clear_speculative_entries new_head r else r
               else r)
      in if \<not> ro_flush decision \<and> ri_issue_valid inputs \<and> \<not> rob_full r then
           let expected_tag = next_tag r
           in if re_valid (ri_issue_entry inputs) \<and> re_tag (ri_issue_entry inputs) = expected_tag
              then
                let entry = (ri_issue_entry inputs)\<lparr>re_tag := expected_tag, re_valid := True\<rparr>
                in (r\<lparr>rob_next := (rob_next r)[rob_next_tail r := entry],
                      rob_next_generations :=
                        (rob_next_generations r)[rob_next_tail r := tag_generation expected_tag],
                      rob_next_tail := (rob_next_tail r + 1) mod rob_kCapacity,
                      rob_next_count := rob_next_count r + 1\<rparr>, True)
              else (r, False)
         else (r, False))"

end
