(* ===== verification/RobCorrect.thy ===== *)
theory RobCorrect
  imports ReorderBuffer
begin

text \<open>
  The reorder buffer as a list: \<open>rob_list\<close> are the entries in flight, oldest first.  A cycle marks
  the completed entries, drops the committed head or everything, and appends the issued entry.
  Tags in flight are distinct, and a tag that has left the buffer does not come back before its
  generation has wrapped around.
\<close>

section \<open>One cycle on the registers\<close>

definition complete_entry :: "FUResult \<Rightarrow> ROBEntry \<Rightarrow> ROBEntry" where
  "complete_entry f e =
     (let e = e\<lparr>re_value := fu_value f, re_ready := True\<rparr>
      in if fu_has_control_result f
         then e\<lparr>re_actual_next_pc := fu_actual_next_pc f, re_branch_taken := fu_branch_taken f\<rparr>
         else e)"

definition complete_cells :: "FUResult \<Rightarrow> ROBEntry list \<Rightarrow> ROBEntry list" where
  "complete_cells f cells =
     (if fu_valid f \<and> matching_entry (fu_tag f) cells
      then cells[unat (tag_index (fu_tag f)) := complete_entry f (cells ! unat (tag_index (fu_tag f)))]
      else cells)"

definition store_cells ::
  "StoreCommitCompletion \<Rightarrow> ROBEntry list \<Rightarrow> ROBEntry list \<Rightarrow> ROBEntry list" where
  "store_cells g cur cells =
     (if scc_valid g \<and> matching_entry (scc_tag g) cur
         \<and> re_is_store (cells ! unat (tag_index (scc_tag g)))
      then cells[unat (tag_index (scc_tag g)) := (cells ! unat (tag_index (scc_tag g)))\<lparr>re_ready := True\<rparr>]
      else cells)"

lemma apply_completion_cells:
  "rob_next r = rob_cur r \<Longrightarrow>
     apply_completion f r = r\<lparr>rob_next := complete_cells f (rob_cur r)\<rparr>"
  by (auto simp: apply_completion_def complete_cells_def complete_entry_def Let_def)

lemma apply_store_completion_cells:
  "apply_store_completion g r = r\<lparr>rob_next := store_cells g (rob_cur r) (rob_next r)\<rparr>"
  by (auto simp: apply_store_completion_def store_cells_def Let_def)

definition rob_accepts :: "ROBInputs \<Rightarrow> ROBDecision \<Rightarrow> ReorderBuffer \<Rightarrow> bool" where
  "rob_accepts i d r \<longleftrightarrow> \<not> ro_flush d \<and> ri_issue_valid i \<and> \<not> rob_full r
     \<and> re_valid (ri_issue_entry i) \<and> re_tag (ri_issue_entry i) = next_tag r"

definition rob_after :: "ROBInputs \<Rightarrow> ROBDecision \<Rightarrow> ReorderBuffer \<Rightarrow> ReorderBuffer" where
  "rob_after i d r =
     (let cells = store_cells (ri_store_completion i) (rob_cur r)
                    (complete_cells (ri_completion i) (rob_cur r));
          commit = rc_valid (ro_commit d);
          flush = (commit \<and> ro_flush d);
          head = (if commit then (rob_head r + 1) mod rob_kCapacity else rob_head r);
          tail = (if flush then head else rob_tail r);
          count = (if flush then 0 else if commit then size_dec (rob_count r) else rob_count r);
          cells = (if flush then replicate rob_kCapacity rob_entry_default
                   else if commit then cells[rob_head r := rob_entry_default] else cells);
          accept = rob_accepts i d r
      in r\<lparr>rob_next := (if accept then cells[tail := ri_issue_entry i] else cells),
           rob_next_generations :=
             (if accept then (rob_generations r)[tail := tag_generation (next_tag r)]
              else rob_generations r),
           rob_next_head := head,
           rob_next_tail := (if accept then (tail + 1) mod rob_kCapacity else tail),
           rob_next_count := (if accept then count + 1 else count)\<rparr>)"

lemma next_tag_next [simp]:
  "next_tag (r\<lparr>rob_next := a\<rparr>) = next_tag r" "next_tag (r\<lparr>rob_next_generations := b\<rparr>) = next_tag r"
  "next_tag (r\<lparr>rob_next_head := x\<rparr>) = next_tag r" "next_tag (r\<lparr>rob_next_tail := x\<rparr>) = next_tag r"
  "next_tag (r\<lparr>rob_next_count := x\<rparr>) = next_tag r"
  "rob_full (r\<lparr>rob_next := a\<rparr>) = rob_full r" "rob_full (r\<lparr>rob_next_generations := b\<rparr>) = rob_full r"
  "rob_full (r\<lparr>rob_next_head := x\<rparr>) = rob_full r" "rob_full (r\<lparr>rob_next_tail := x\<rparr>) = rob_full r"
  "rob_full (r\<lparr>rob_next_count := x\<rparr>) = rob_full r"
  by (simp_all add: next_tag_def rob_full_def)

lemma entry_stamp:
  "re_valid e \<Longrightarrow> re_tag e = t \<Longrightarrow> e\<lparr>re_tag := t, re_valid := True\<rparr> = e"
  by (cases e) auto

lemma rob_apply_eq: "rob_apply i d r = (rob_after i d r, rob_accepts i d r)"
proof -
  let ?r0 = "r\<lparr>rob_next := rob_cur r, rob_next_generations := rob_generations r,
     rob_next_head := rob_head r, rob_next_tail := rob_tail r, rob_next_count := rob_count r\<rparr>"
  have c: "apply_completion (ri_completion i) ?r0
      = ?r0\<lparr>rob_next := complete_cells (ri_completion i) (rob_cur r)\<rparr>"
    by (subst apply_completion_cells) simp_all
  have s: "apply_store_completion (ri_store_completion i)
        (apply_completion (ri_completion i) ?r0)
      = ?r0\<lparr>rob_next := store_cells (ri_store_completion i) (rob_cur r)
          (complete_cells (ri_completion i) (rob_cur r))\<rparr>"
    unfolding c by (subst apply_store_completion_cells) simp
  show ?thesis
    unfolding rob_apply_def Let_def s
    by (cases "rc_valid (ro_commit d)"; cases "ro_flush d"; cases "rob_accepts i d r")
       (simp_all add: rob_after_def rob_accepts_def clear_speculative_entries_def Let_def
          entry_stamp)
qed

definition rob_regs :: "ReorderBuffer \<Rightarrow> ROBEntry list \<times> TagGeneration list \<times> nat \<times> nat \<times> nat" where
  "rob_regs r = (rob_cur r, rob_generations r, rob_head r, rob_tail r, rob_count r)"

definition rob_of_regs ::
  "ROBEntry list \<times> TagGeneration list \<times> nat \<times> nat \<times> nat \<Rightarrow> ReorderBuffer" where
  "rob_of_regs c = (case c of (cells, gens, h, t, n) \<Rightarrow>
     reorder_buffer_new\<lparr>rob_cur := cells, rob_generations := gens, rob_head := h, rob_tail := t,
       rob_count := n\<rparr>)"

definition rob_nxt where
  "rob_nxt i c = rob_regs (rob_latch (rob_after (fst i) (snd i) (rob_of_regs c)))"

lemma rob_of_regs_simps:
  "rob_cur (rob_of_regs (rob_regs r)) = rob_cur r" "rob_head (rob_of_regs (rob_regs r)) = rob_head r"
  "rob_generations (rob_of_regs (rob_regs r)) = rob_generations r"
  "rob_tail (rob_of_regs (rob_regs r)) = rob_tail r" "rob_count (rob_of_regs (rob_regs r)) = rob_count r"
  "rob_accepts i d (rob_of_regs (rob_regs r)) = rob_accepts i d r"
  "next_tag (rob_of_regs (rob_regs r)) = next_tag r"
  by (simp_all add: rob_of_regs_def rob_regs_def rob_accepts_def next_tag_def rob_full_def)

lemma rob_after_fields:
  "rob_cur (rob_after i d r) = rob_cur r" "rob_generations (rob_after i d r) = rob_generations r"
  "rob_head (rob_after i d r) = rob_head r" "rob_tail (rob_after i d r) = rob_tail r"
  "rob_count (rob_after i d r) = rob_count r"
  by (simp_all add: rob_after_def Let_def)

lemma rob_latch_regs:
  "rob_regs (rob_latch r) = (rob_next r, rob_next_generations r, rob_next_head r, rob_next_tail r,
     rob_next_count r)"
  by (simp add: rob_regs_def rob_latch_def)

interpretation rob: two_phase rob_regs "\<lambda>(i, d) r. fst (rob_apply i d r)" rob_latch rob_nxt
proof (unfold_locales, goal_cases)
  case (1 i s)
  then show ?case
    by (cases i) (simp add: rob_apply_eq rob_regs_def rob_after_fields)
next
  case (2 i s)
  then show ?case
    by (cases i)
       (simp add: rob_apply_eq rob_nxt_def rob_latch_regs, simp add: rob_after_def Let_def
         rob_of_regs_simps)
qed

lemma rob_apply_empty [simp]: "rob_empty (fst (rob_apply i d r)) = rob_empty r"
  by (simp add: rob_apply_eq rob_after_def rob_empty_def Let_def)

section \<open>The invariant\<close>

definition slot_tag :: "TagGeneration list \<Rightarrow> nat \<Rightarrow> RobTag" where
  "slot_tag gens i = \<lparr>tag_index = of_nat i, tag_generation = gens ! i, tag_valid = True\<rparr>"

definition slot_ok :: "TagGeneration list \<Rightarrow> nat \<Rightarrow> ROBEntry \<Rightarrow> bool" where
  "slot_ok gens i e \<longleftrightarrow> re_valid e \<and> re_tag e = slot_tag gens i"

definition rob_invar :: "ReorderBuffer \<Rightarrow> bool" where [inv_defs]:
  "rob_invar r \<longleftrightarrow>
     length (rob_cur r) = 32 \<and> length (rob_generations r) = 32
     \<and> rob_tail r = (rob_head r + rob_count r) mod 32
     \<and> ring_ok (slot_ok (rob_generations r)) rob_entry_default (rob_cur r) (rob_head r) (rob_count r)"

lemma rob_invarD:
  assumes "rob_invar r"
  shows "length (rob_cur r) = 32" "length (rob_generations r) = 32" "rob_head r < 32"
    "rob_count r \<le> 32" "rob_tail r = (rob_head r + rob_count r) mod 32"
    "i < 32 \<Longrightarrow> in_ring 32 (rob_head r) (rob_count r) i \<Longrightarrow> slot_ok (rob_generations r) i (rob_cur r ! i)"
    "i < 32 \<Longrightarrow> \<not> in_ring 32 (rob_head r) (rob_count r) i \<Longrightarrow> rob_cur r ! i = rob_entry_default"
  using assms by (auto simp: rob_invar_def ring_ok_def)

definition rob_list :: "ReorderBuffer \<Rightarrow> ROBEntry list" where
  "rob_list r = ring_list (rob_cur r) (rob_head r) (rob_count r)"

definition slots_ok :: "ROBEntry list \<Rightarrow> bool" where
  "slots_ok cells \<longleftrightarrow> length cells = 32
     \<and> (\<forall>i < 32. re_valid (cells ! i) \<longrightarrow> tag_valid (re_tag (cells ! i)) \<and> tag_index (re_tag (cells ! i)) = of_nat i)"

lemma rob_entry_default_simps [simp]:
  "\<not> re_valid rob_entry_default" "re_tag rob_entry_default = no_tag"
  "\<not> re_ready rob_entry_default"
  by (simp_all add: rob_entry_default_def)

lemma slot_tag_simps [simp]:
  "tag_valid (slot_tag gens i)" "tag_index (slot_tag gens i) = of_nat i"
  "tag_generation (slot_tag gens i) = gens ! i"
  by (simp_all add: slot_tag_def)

lemma rob_invar_slots:
  assumes "rob_invar r"
  shows "slots_ok (rob_cur r)"
  unfolding slots_ok_def
proof (intro conjI allI impI)
  show "length (rob_cur r) = 32" using assms by (rule rob_invarD)
  fix i assume i: "i < 32" "re_valid (rob_cur r ! i)"
  then have "re_tag (rob_cur r ! i) = slot_tag (rob_generations r) i"
    using rob_invarD(6,7) [OF assms i(1)]
    by (cases "in_ring 32 (rob_head r) (rob_count r) i") (auto simp: slot_ok_def)
  then show "tag_valid (re_tag (rob_cur r ! i))" "tag_index (re_tag (rob_cur r ! i)) = of_nat i"
    by simp_all
qed

lemma unat_index: "i < 32 \<Longrightarrow> unat (of_nat i :: RobIndex) = i"
  by simp

lemma of_nat_index_inj: "i < 32 \<Longrightarrow> j < 32 \<Longrightarrow> (of_nat i :: RobIndex) = of_nat j \<longleftrightarrow> i = j"
  by (metis unat_index)

lemma matching_slot:
  assumes "slots_ok cells" and "i < 32" and "re_valid (cells ! i)" and "re_tag (cells ! i) = t"
  shows "matching_entry t cells" and "unat (tag_index t) = i"
  using assms by (auto simp: matching_entry_def slots_ok_def rob_kCapacity_def Let_def)

lemma matching_entryD:
  assumes "matching_entry t cells"
  shows "tag_valid t" "unat (tag_index t) < 32" "re_valid (cells ! unat (tag_index t))"
    "re_tag (cells ! unat (tag_index t)) = t"
  using assms by (auto simp: matching_entry_def rob_kCapacity_def Let_def split: if_splits)

lemma matches_iff:
  assumes "slots_ok cells" and "i < 32"
  shows "(tag_valid t \<and> re_valid (cells ! i) \<and> re_tag (cells ! i) = t)
       = (matching_entry t cells \<and> i = unat (tag_index t))"
proof
  assume "tag_valid t \<and> re_valid (cells ! i) \<and> re_tag (cells ! i) = t"
  then show "matching_entry t cells \<and> i = unat (tag_index t)"
    using matching_slot [OF assms, of t] by simp
next
  assume "matching_entry t cells \<and> i = unat (tag_index t)"
  then show "tag_valid t \<and> re_valid (cells ! i) \<and> re_tag (cells ! i) = t"
    using matching_entryD [of t cells] by simp
qed

section \<open>Completions\<close>

definition completes :: "FUResult \<Rightarrow> ROBEntry \<Rightarrow> bool" where
  "completes f e \<longleftrightarrow> fu_valid f \<and> tag_valid (fu_tag f) \<and> re_valid e \<and> re_tag e = fu_tag f"

definition store_completes :: "StoreCommitCompletion \<Rightarrow> ROBEntry \<Rightarrow> bool" where
  "store_completes g e \<longleftrightarrow> scc_valid g \<and> tag_valid (scc_tag g) \<and> re_valid e \<and> re_tag e = scc_tag g
     \<and> re_is_store e"

definition mark :: "FUResult \<Rightarrow> StoreCommitCompletion \<Rightarrow> ROBEntry \<Rightarrow> ROBEntry" where
  "mark f g e =
     (let e = (if completes f e then complete_entry f e else e)
      in if store_completes g e then e\<lparr>re_ready := True\<rparr> else e)"

lemma complete_entry_simps [simp]:
  "re_tag (complete_entry f e) = re_tag e" "re_valid (complete_entry f e) = re_valid e"
  "re_is_store (complete_entry f e) = re_is_store e" "re_is_branch (complete_entry f e) = re_is_branch e"
  "re_is_jump (complete_entry f e) = re_is_jump e" "re_op (complete_entry f e) = re_op e"
  "re_pc (complete_entry f e) = re_pc e" "re_rd (complete_entry f e) = re_rd e"
  "re_writes_rd (complete_entry f e) = re_writes_rd e"
  "re_predicted_next_pc (complete_entry f e) = re_predicted_next_pc e"
  "re_ready (complete_entry f e)" "re_value (complete_entry f e) = fu_value f"
  by (simp_all add: complete_entry_def Let_def)

lemma mark_simps [simp]:
  "re_tag (mark f g e) = re_tag e" "re_valid (mark f g e) = re_valid e"
  "re_is_store (mark f g e) = re_is_store e" "re_is_branch (mark f g e) = re_is_branch e"
  "re_is_jump (mark f g e) = re_is_jump e" "re_op (mark f g e) = re_op e"
  "re_pc (mark f g e) = re_pc e" "re_rd (mark f g e) = re_rd e"
  "re_writes_rd (mark f g e) = re_writes_rd e"
  "re_predicted_next_pc (mark f g e) = re_predicted_next_pc e"
  by (simp_all add: mark_def Let_def)

lemma mark_default [simp]: "mark f g rob_entry_default = rob_entry_default"
  by (simp add: mark_def completes_def store_completes_def)

lemma complete_cells_map:
  assumes "slots_ok cells"
  shows "complete_cells f cells = map (\<lambda>e. if completes f e then complete_entry f e else e) cells"
proof (rule nth_equalityI)
  show "length (complete_cells f cells)
      = length (map (\<lambda>e. if completes f e then complete_entry f e else e) cells)"
    by (simp add: complete_cells_def)
  fix i assume "i < length (complete_cells f cells)"
  then have i: "i < 32" "i < length cells"
    using assms by (auto simp: complete_cells_def slots_ok_def split: if_splits)
  have c: "completes f (cells ! i) =
      (fu_valid f \<and> matching_entry (fu_tag f) cells \<and> i = unat (tag_index (fu_tag f)))"
    unfolding completes_def using matches_iff [OF assms i(1), of "fu_tag f"] by blast
  show "complete_cells f cells ! i
      = map (\<lambda>e. if completes f e then complete_entry f e else e) cells ! i"
    using i by (auto simp: complete_cells_def c nth_update_cases)
qed

lemma slots_ok_map:
  assumes "slots_ok cells" and "\<And>e. re_tag (f e) = re_tag e" and "\<And>e. re_valid (f e) = re_valid e"
  shows "slots_ok (map f cells)" and "matching_entry t (map f cells) = matching_entry t cells"
  using assms by (auto simp: slots_ok_def matching_entry_def rob_kCapacity_def Let_def)

lemma cells_mark:
  assumes "slots_ok cells"
  shows "store_cells g cells (complete_cells f cells) = map (mark f g) cells"
proof -
  define m where "m = map (\<lambda>e. if completes f e then complete_entry f e else e) cells"
  have m: "slots_ok m" "\<And>t. matching_entry t m = matching_entry t cells"
    unfolding m_def by (rule slots_ok_map [OF assms]; simp)+
  have "store_cells g cells m = map (\<lambda>e. if store_completes g e then e\<lparr>re_ready := True\<rparr> else e) m"
  proof (rule nth_equalityI)
    fix i assume "i < length (store_cells g cells m)"
    then have i: "i < 32" "i < length m"
      using m(1) by (auto simp: store_cells_def slots_ok_def split: if_splits)
    have c: "store_completes g (m ! i) =
        (scc_valid g \<and> matching_entry (scc_tag g) cells \<and> i = unat (tag_index (scc_tag g))
         \<and> re_is_store (m ! i))"
      unfolding store_completes_def using matches_iff [OF m(1) i(1), of "scc_tag g"] m(2) by blast
    show "store_cells g cells m ! i
        = map (\<lambda>e. if store_completes g e then e\<lparr>re_ready := True\<rparr> else e) m ! i"
      using i by (auto simp: store_cells_def c nth_update_cases)
  qed (simp add: store_cells_def)
  then show ?thesis
    by (simp add: complete_cells_map [OF assms] m_def mark_def Let_def comp_def)
qed

section \<open>Lookups\<close>

lemma rob_list_nth:
  assumes "rob_invar r" and "k < length (rob_list r)"
  shows "re_valid (rob_list r ! k)"
    and "re_tag (rob_list r ! k) = slot_tag (rob_generations r) ((rob_head r + k) mod 32)"
    and "rob_list r ! k = rob_cur r ! ((rob_head r + k) mod 32)"
proof -
  have k: "k < rob_count r" using assms(2) by (simp add: rob_list_def)
  have "slot_ok (rob_generations r) ((rob_head r + k) mod 32) (rob_list r ! k)"
    using ring_ok_nth [of _ _ "rob_cur r", OF _ k] assms(1)
    unfolding rob_list_def rob_invar_def by metis
  then show "re_valid (rob_list r ! k)"
    and "re_tag (rob_list r ! k) = slot_tag (rob_generations r) ((rob_head r + k) mod 32)"
    by (simp_all add: slot_ok_def)
  show "rob_list r ! k = rob_cur r ! ((rob_head r + k) mod 32)"
    using k rob_invarD(1) [OF assms(1)] by (simp add: rob_list_def)
qed

lemma length_rob_list [simp]: "length (rob_list r) = rob_count r"
  by (simp add: rob_list_def)

lemma rob_tags_distinct:
  assumes "rob_invar r" and "i < rob_count r" and "j < rob_count r"
    and "re_tag (rob_list r ! i) = re_tag (rob_list r ! j)"
  shows "i = j"
proof -
  have "(of_nat ((rob_head r + i) mod 32) :: RobIndex) = of_nat ((rob_head r + j) mod 32)"
    using assms rob_list_nth(2) [OF assms(1)] by (metis length_rob_list slot_tag_simps(2))
  then have "(rob_head r + i) mod 32 = (rob_head r + j) mod 32"
    by (simp add: of_nat_index_inj)
  then show ?thesis
    using assms rob_invarD(4) [OF assms(1)] by (intro ring_index_inj [of "rob_head r" i 32 j]) auto
qed

lemma distinct_tags: "rob_invar r \<Longrightarrow> distinct (map re_tag (rob_list r))"
  by (auto simp: distinct_conv_nth dest: rob_tags_distinct)

lemma matching_in_list:
  assumes "rob_invar r"
  shows "matching_entry t (rob_cur r) \<longleftrightarrow> (\<exists>e \<in> set (rob_list r). re_tag e = t)"
proof
  assume m: "matching_entry t (rob_cur r)"
  let ?i = "unat (tag_index t)"
  have "in_ring 32 (rob_head r) (rob_count r) ?i"
    using matching_entryD [OF m] rob_invarD(7) [OF assms, of ?i]
    by (cases "in_ring 32 (rob_head r) (rob_count r) ?i") auto
  then obtain k where "k < rob_count r" "?i = (rob_head r + k) mod 32"
    by (auto simp: in_ring_def)
  then have "k < length (rob_list r)" "re_tag (rob_list r ! k) = t"
    using rob_list_nth(3) [OF assms, of k] matching_entryD(4) [OF m] by simp_all
  then have "rob_list r ! k \<in> set (rob_list r) \<and> re_tag (rob_list r ! k) = t"
    by (simp only: nth_mem)
  then show "\<exists>e \<in> set (rob_list r). re_tag e = t" by blast
next
  assume "\<exists>e \<in> set (rob_list r). re_tag e = t"
  then obtain k where k: "k < rob_count r" "re_tag (rob_list r ! k) = t"
    by (auto simp: in_set_conv_nth)
  then show "matching_entry t (rob_cur r)"
    using matching_slot(1) [OF rob_invar_slots [OF assms], of "(rob_head r + k) mod 32" t]
      rob_list_nth [OF assms, of k] by simp
qed

lemma rob_lookup_list:
  assumes "rob_invar r" and "k < rob_count r"
  shows "rob_lookup r (re_tag (rob_list r ! k)) = Some (rob_list r ! k)"
proof -
  let ?t = "re_tag (rob_list r ! k)"
  have "matching_entry ?t (rob_cur r)"
    using assms by (subst matching_in_list) auto
  moreover have "unat (tag_index ?t) = (rob_head r + k) mod 32"
    using rob_list_nth(2) [OF assms(1), of k] assms(2) by simp
  ultimately show ?thesis
    using rob_list_nth(3) [OF assms(1), of k] assms(2) by (simp add: rob_lookup_def)
qed

lemma rob_front_list:
  assumes "rob_invar r"
  shows "rob_front r = (case rob_list r of [] \<Rightarrow> None | e # _ \<Rightarrow> Some e)"
proof (cases "rob_count r = 0")
  case True
  then show ?thesis by (simp add: rob_front_def rob_empty_def rob_list_def)
next
  case False
  then obtain e es where l: "rob_list r = e # es"
    by (metis length_rob_list list.exhaust list.size(3))
  have "rob_list r ! 0 = rob_cur r ! rob_head r" "re_valid (rob_list r ! 0)"
    using rob_list_nth(3) [OF assms, of 0] rob_list_nth(1) [OF assms, of 0] False
      rob_invarD(3) [OF assms]
    by simp_all
  then show ?thesis
    using False by (simp add: rob_front_def rob_empty_def l Let_def)
qed

section \<open>The plan\<close>

lemma rob_list_Nil: "rob_list r = [] \<longleftrightarrow> rob_count r = 0"
  by (simp add: rob_list_def)

definition head_commits :: "ReorderBuffer \<Rightarrow> bool" where
  "head_commits r \<longleftrightarrow> rob_list r \<noteq> [] \<and> re_ready (hd (rob_list r))"

definition head_mispredicted :: "ROBEntry \<Rightarrow> bool" where
  "head_mispredicted e \<longleftrightarrow>
     is_control_instruction e \<and> re_predicted_next_pc e \<noteq> re_actual_next_pc e"

definition rob_head_plan :: "ROBEntry \<Rightarrow> ROBDecision" where
  "rob_head_plan e =
     (let outputs = (if re_is_store e \<and> \<not> re_ready e
            then rob_outputs_default\<lparr>ro_store_request := \<lparr>scr_tag = re_tag e, scr_valid = True\<rparr>\<rparr>
            else rob_outputs_default)
      in if re_ready e then
           let commit = (ro_commit outputs)\<lparr>rc_entry := e, rc_valid := True,
                          rc_halted := (re_op e = OP_HALT)\<rparr>;
               commit = (if is_control_instruction e
                 then commit\<lparr>rc_mispredicted := (re_predicted_next_pc e \<noteq> re_actual_next_pc e),
                              rc_redirect_pc := re_actual_next_pc e\<rparr>
                 else commit);
               outputs = outputs\<lparr>ro_commit := commit\<rparr>
           in if rc_mispredicted commit
              then outputs\<lparr>ro_flush := True, ro_redirect_pc := re_actual_next_pc e\<rparr> else outputs
         else outputs)"

lemma rob_head_plan_facts:
  "rc_valid (ro_commit (rob_head_plan e)) = re_ready e"
  "re_ready e \<Longrightarrow> rc_entry (ro_commit (rob_head_plan e)) = e"
  "ro_flush (rob_head_plan e) = (re_ready e \<and> head_mispredicted e)"
  "re_ready e \<Longrightarrow> head_mispredicted e \<Longrightarrow> ro_redirect_pc (rob_head_plan e) = re_actual_next_pc e"
  "rc_halted (ro_commit (rob_head_plan e)) = (re_ready e \<and> re_op e = OP_HALT)"
  by (simp_all add: rob_head_plan_def head_mispredicted_def rob_outputs_default_def
      rob_commit_default_def Let_def)

lemma rob_plan_facts:
  assumes "rob_invar r"
  shows "rc_valid (ro_commit (rob_plan r)) = head_commits r"
    and "head_commits r \<Longrightarrow> rc_entry (ro_commit (rob_plan r)) = hd (rob_list r)"
    and "ro_flush (rob_plan r) = (head_commits r \<and> head_mispredicted (hd (rob_list r)))"
    and "ro_flush (rob_plan r) \<Longrightarrow> ro_redirect_pc (rob_plan r) = re_actual_next_pc (hd (rob_list r))"
    and "rc_halted (ro_commit (rob_plan r)) = (head_commits r \<and> re_op (hd (rob_list r)) = OP_HALT)"
proof -
  have p: "rob_plan r = (case rob_list r of [] \<Rightarrow> rob_outputs_default
      | e # _ \<Rightarrow> rob_head_plan e)"
    by (cases "rob_list r") (simp_all add: rob_plan_def rob_front_list [OF assms] rob_head_plan_def)
  show "rc_valid (ro_commit (rob_plan r)) = head_commits r"
    and "head_commits r \<Longrightarrow> rc_entry (ro_commit (rob_plan r)) = hd (rob_list r)"
    and "ro_flush (rob_plan r) = (head_commits r \<and> head_mispredicted (hd (rob_list r)))"
    and "ro_flush (rob_plan r) \<Longrightarrow> ro_redirect_pc (rob_plan r) = re_actual_next_pc (hd (rob_list r))"
    and "rc_halted (ro_commit (rob_plan r)) = (head_commits r \<and> re_op (hd (rob_list r)) = OP_HALT)"
    by (cases "rob_list r"; simp add: p head_commits_def rob_head_plan_facts rob_outputs_default_def
        rob_commit_default_def; fail)+
qed

section \<open>One cycle on the list\<close>

definition rob_next_list :: "ROBInputs \<Rightarrow> ReorderBuffer \<Rightarrow> ROBEntry list" where
  "rob_next_list i r =
     (let es = map (mark (ri_completion i) (ri_store_completion i)) (rob_list r);
          es = (if head_commits r
                then if head_mispredicted (hd (rob_list r)) then [] else tl es else es)
      in if rob_accepts i (rob_plan r) r then es @ [ri_issue_entry i] else es)"

definition rob_next_generations_of :: "ROBInputs \<Rightarrow> ReorderBuffer \<Rightarrow> TagGeneration list" where
  "rob_next_generations_of i r =
     (if rob_accepts i (rob_plan r) r
      then (rob_generations r)[rob_tail r := rob_generations r ! rob_tail r + 1]
      else rob_generations r)"

lemma rob_cycle:
  fixes i :: ROBInputs and r :: ReorderBuffer
  assumes inv: "rob_invar r"
  defines "r' \<equiv> rob_latch (rob_after i (rob_plan r) r)"
  shows "rob_invar r'" and "rob_list r' = rob_next_list i r"
    and "rob_generations r' = rob_next_generations_of i r"
    and "rob_head r' = (if head_commits r then (rob_head r + 1) mod 32 else rob_head r)"
proof -
  let ?m = "mark (ri_completion i) (ri_store_completion i)"
  let ?cells = "map ?m (rob_cur r)" and ?gens = "rob_generations r"
  let ?h = "rob_head r" and ?n = "rob_count r" and ?t = "rob_tail r"
  let ?e = "ri_issue_entry i" and ?a = "rob_accepts i (rob_plan r) r"
  let ?ok = "\<lambda>cells h n. length cells = 32 \<and> ring_ok (slot_ok ?gens) rob_entry_default cells h n"
  have len: "length (rob_cur r) = 32" "length ?gens = 32" and h: "?h < 32" and n: "?n \<le> 32"
    and tail: "?t = (?h + ?n) mod 32"
    by (fact rob_invarD [OF inv])+
  have base: "?ok ?cells ?h ?n" "ring_list ?cells ?h ?n = map ?m (ring_list (rob_cur r) ?h ?n)"
  proof -
    have "ring_ok (slot_ok ?gens) rob_entry_default (rob_cur r) ?h ?n"
      using inv by (simp add: rob_invar_def)
    note m = ring_ok_map [OF this, of "slot_ok ?gens" ?m]
    show "?ok ?cells ?h ?n" "ring_list ?cells ?h ?n = map ?m (ring_list (rob_cur r) ?h ?n)"
      using m len(1) by (simp_all add: slot_ok_def)
  qed
  have cells: "store_cells (ri_store_completion i) (rob_cur r)
      (complete_cells (ri_completion i) (rob_cur r)) = ?cells"
    by (rule cells_mark [OF rob_invar_slots [OF inv]])
  note plan = rob_plan_facts [OF inv]
  have flush: "(rc_valid (ro_commit (rob_plan r)) \<and> ro_flush (rob_plan r)) = ro_flush (rob_plan r)"
    using plan(1,3) by auto
  have acc: "?n < 32" "\<not> ro_flush (rob_plan r)"
      "slot_ok (?gens[?t := ?gens ! ?t + 1]) ?t ?e"
      "tag_generation (next_tag r) = ?gens ! ?t + 1" if ?a
  proof -
    have "re_tag ?e = next_tag r" "?n \<noteq> 32" "re_valid ?e"
      using that by (auto simp: rob_accepts_def rob_full_def rob_kCapacity_def)
    moreover have "?t < 32" using tail by simp
    ultimately show "?n < 32" "slot_ok (?gens[?t := ?gens ! ?t + 1]) ?t ?e"
        "tag_generation (next_tag r) = ?gens ! ?t + 1"
      using n by (simp_all add: next_tag_def rob_full_def rob_kCapacity_def following_generation_def
          slot_tag_def slot_ok_def len)
  qed (use that in \<open>auto simp: rob_accepts_def\<close>)
  define c where "c = (if ro_flush (rob_plan r) then replicate 32 rob_entry_default
      else if head_commits r then ?cells[?h := rob_entry_default] else ?cells)"
  define h' where "h' = (if head_commits r then (?h + 1) mod 32 else ?h)"
  define n' where "n' = (if ro_flush (rob_plan r) then 0 else if head_commits r then ?n - 1 else ?n)"
  define es where "es = (if head_commits r then if head_mispredicted (hd (rob_list r)) then []
      else tl (map ?m (rob_list r)) else map ?m (rob_list r))"
  define t' where "t' = (if ro_flush (rob_plan r) then h' else ?t)"
  have pos: "head_commits r \<Longrightarrow> 0 < ?n" by (auto simp: head_commits_def rob_list_Nil)
  have pop: "?ok (?cells[?h := rob_entry_default]) ((?h + 1) mod 32) (?n - 1)"
      "ring_list (?cells[?h := rob_entry_default]) ((?h + 1) mod 32) (?n - 1)
        = tl (map ?m (ring_list (rob_cur r) ?h ?n))" if "head_commits r"
    using ring_ok_pop [of "slot_ok ?gens" rob_entry_default ?cells ?h ?n] base pos [OF that] len
    by simp_all
  have step: "?ok c h' n'" "ring_list c h' n' = es" "t' = (h' + n') mod 32" "h' < 32"
    using base pop ring_ok_clear [of h' 32 "slot_ok ?gens" rob_entry_default] pos tail plan(3) h
    by (auto simp: c_def h'_def n'_def es_def t'_def rob_list_def mod_simps)
  have n': "?a \<Longrightarrow> n' < 32" using acc(1) by (auto simp: n'_def)
  have t': "?a \<Longrightarrow> t' = ?t" using acc(2) by (simp add: t'_def)
  have r': "rob_cur r' = (if ?a then c[t' := ?e] else c)"
      "rob_generations r' = rob_next_generations_of i r" "rob_head r' = h'"
      "rob_tail r' = (if ?a then (t' + 1) mod 32 else t')"
      "rob_count r' = (if ?a then Suc n' else n')"
    using pos acc(4)
    unfolding r'_def rob_after_def Let_def cells flush
    by (simp_all add: rob_latch_def plan(1) c_def h'_def n'_def t'_def rob_kCapacity_def
        rob_next_generations_of_def acc(2) split: if_splits)
  have push: "ring_ok (slot_ok (?gens[?t := ?gens ! ?t + 1])) rob_entry_default (c[t' := ?e]) h' (Suc n')"
      "ring_list (c[t' := ?e]) h' (Suc n') = es @ [?e]" if ?a
  proof -
    have keep: "slot_ok (?gens[?t := ?gens ! ?t + 1]) k x" if "k \<noteq> t'" "slot_ok ?gens k x" for k x
      using that t' [OF \<open>?a\<close>] by (simp add: slot_ok_def slot_tag_def)
    note p = ring_ok_push [where ok = "slot_ok ?gens" and ok' = "slot_ok (?gens[?t := ?gens ! ?t + 1])"
        and d = rob_entry_default and xs = c and h = h' and n = n' and t = t' and v = ?e]
    show "ring_ok (slot_ok (?gens[?t := ?gens ! ?t + 1])) rob_entry_default (c[t' := ?e]) h' (Suc n')"
      by (rule p(1)) (use step n' [OF that] keep acc(3) [OF that] t' [OF that] in auto)
    show "ring_list (c[t' := ?e]) h' (Suc n') = es @ [?e]"
      using step n' [OF that] by (subst ring_list_push) auto
  qed
  show "rob_generations r' = rob_next_generations_of i r" by (rule r'(2))
  show "rob_list r' = rob_next_list i r"
    using push(2) step(2) by (auto simp: rob_list_def r' rob_next_list_def es_def Let_def)
  show "rob_invar r'"
    using push(1) step by (auto simp: rob_invar_def r' rob_next_generations_of_def len mod_simps)
  show "rob_head r' = (if head_commits r then (?h + 1) mod 32 else ?h)"
    by (simp add: r' h'_def)
qed

end
