(* ===== verification/Wakeup.thy ===== *)
theory Wakeup
  imports Signals
begin

text \<open>
  The wake-up contract.  The reservation station and the load/store queue keep operands that may
  wait for a tag, and both update them from the broadcast of the cycle.  The contract says when an
  operand becomes ready; from it follows that a broadcast of the right value keeps every operand
  right, whatever the operand was waiting for.
\<close>

definition operand_for :: "(RobTag \<Rightarrow> Word \<Rightarrow> bool) \<Rightarrow> Word \<Rightarrow> Operand \<Rightarrow> bool" where
  "operand_for results v opd \<longleftrightarrow>
     (if opd_ready opd then opd_value opd = v
      else tag_valid (opd_tag opd) \<and> results (opd_tag opd) v)"

definition broadcast_right :: "(RobTag \<Rightarrow> Word \<Rightarrow> bool) \<Rightarrow> CDBMsg \<Rightarrow> bool" where
  "broadcast_right results m \<longleftrightarrow>
     (msg_valid m \<and> tag_valid (msg_tag m) \<longrightarrow>
      (\<forall>v. results (msg_tag m) v \<longrightarrow> msg_value m = v))"

definition wakes :: "CDBMsg \<Rightarrow> Operand \<Rightarrow> bool" where
  "wakes m opd \<longleftrightarrow> \<not> opd_ready opd \<and> tag_valid (opd_tag opd) \<and> msg_valid m
     \<and> tag_valid (msg_tag m) \<and> opd_tag opd = msg_tag m"

locale wakeup =
  fixes wake :: "Operand \<Rightarrow> CDBMsg \<Rightarrow> Operand"
  assumes woken: "wakes m opd \<Longrightarrow>
      wake opd m = \<lparr>opd_value = msg_value m, opd_tag = no_tag, opd_ready = True\<rparr>"
    and asleep: "\<not> wakes m opd \<Longrightarrow> wake opd m = opd"
begin

lemma ready_stays: "opd_ready opd \<Longrightarrow> wake opd m = opd"
  by (rule asleep) (simp add: wakes_def)

lemma wake_ready_iff: "opd_ready (wake opd m) \<longleftrightarrow> opd_ready opd \<or> wakes m opd"
  by (cases "wakes m opd") (simp_all add: woken asleep)

lemma silent_bus: "\<not> msg_valid m \<Longrightarrow> wake opd m = opd"
  by (rule asleep) (simp add: wakes_def)

text \<open>
  A broadcast of the right value serves every waiting operand, whatever becomes of the results: the
  operands it wakes hold the value, and for the others only the broadcast tag may disappear.
\<close>

lemma wake_keeps_right:
  assumes "operand_for results v opd" and "broadcast_right results m"
    and "\<And>t v. results t v \<Longrightarrow> \<not> (msg_valid m \<and> tag_valid t \<and> msg_tag m = t) \<Longrightarrow> results' t v"
  shows "operand_for results' v (wake opd m)"
proof (cases "wakes m opd")
  case True
  with assms have "msg_value m = v"
    by (auto simp: operand_for_def broadcast_right_def wakes_def)
  with True show ?thesis by (simp add: woken operand_for_def)
next
  case False
  with assms(1) show ?thesis
    by (auto simp: asleep operand_for_def wakes_def intro: assms(3))
qed

text \<open>An operand that stays unready after a broadcast does not wait for the broadcast tag.\<close>

lemma still_waiting:
  assumes "\<not> opd_ready (wake opd m)" and "tag_valid (opd_tag opd)"
    and "msg_valid m" and "tag_valid (msg_tag m)"
  shows "opd_tag (wake opd m) = opd_tag opd \<and> opd_tag opd \<noteq> msg_tag m"
proof -
  have no: "\<not> wakes m opd" and nr: "\<not> opd_ready opd"
    using assms(1) by (simp_all add: wake_ready_iff)
  then show ?thesis using assms by (auto simp: asleep wakes_def)
qed

end

end
