(* ===== verification/ReservationStation.thy ===== *)
theory ReservationStation
  imports Wakeup TwoPhase
begin

text \<open>
  \<open>tomasulo/reservation_station.cpp\<close>: sixteen slots of waiting integer and control instructions.
  A slot is dispatched, oldest position after the cursor first, when both operands are ready, and
  is freed only when the functional unit takes the instruction.
\<close>

record RSEntry =
  rse_op :: OP
  rse_destination :: RobTag
  rse_lhs :: Operand
  rse_rhs :: Operand
  rse_immediate :: Word
  rse_pc :: Address
  rse_predicted_next_pc :: Address
  rse_busy :: bool

definition rs_entry_default :: RSEntry where [default_defs]:
  "rs_entry_default = \<lparr>rse_op = OP_INVALID, rse_destination = no_tag, rse_lhs = operand_default,
     rse_rhs = operand_default, rse_immediate = 0, rse_pc = 0, rse_predicted_next_pc = 0,
     rse_busy = False\<rparr>"

record RSInputs =
  rsi_issue_entry :: RSEntry
  rsi_issue_valid :: bool
  rsi_cdb :: CDBMsg
  rsi_fu_available :: bool
  rsi_flush :: bool

record RSOutputs =
  rso_dispatch :: Execute
  rso_dispatch_valid :: bool
  rso_issue_accepted :: bool

definition rs_outputs_default :: RSOutputs where [default_defs]:
  "rs_outputs_default = \<lparr>rso_dispatch = execute_default, rso_dispatch_valid = False,
     rso_issue_accepted = False\<rparr>"

definition rs_kCapacity :: nat where
  "rs_kCapacity = 16"

definition rs_kInvalidIndex :: nat where
  "rs_kInvalidIndex = rs_kCapacity"

record RSDecision =
  rsd_outputs :: RSOutputs
  rsd_selected_index :: nat

definition rs_decision_default :: RSDecision where [default_defs]:
  "rs_decision_default = \<lparr>rsd_outputs = rs_outputs_default, rsd_selected_index = rs_kCapacity\<rparr>"

record ReservationStation =
  rs_cur :: "RSEntry list"
  rs_next :: "RSEntry list"
  rs_dispatch_cursor :: nat
  rs_next_dispatch_cursor :: nat

section \<open>Operations\<close>

definition rs_reset :: "ReservationStation \<Rightarrow> ReservationStation" where
  "rs_reset s = s\<lparr>rs_cur := replicate rs_kCapacity rs_entry_default,
     rs_next := replicate rs_kCapacity rs_entry_default,
     rs_dispatch_cursor := 0, rs_next_dispatch_cursor := 0\<rparr>"

definition reservation_station_new :: ReservationStation where
  "reservation_station_new = rs_reset
     \<lparr>rs_cur = replicate rs_kCapacity rs_entry_default,
      rs_next = replicate rs_kCapacity rs_entry_default,
      rs_dispatch_cursor = 0, rs_next_dispatch_cursor = 0\<rparr>"

definition rs_latch :: "ReservationStation \<Rightarrow> ReservationStation" where
  "rs_latch s = s\<lparr>rs_cur := rs_next s, rs_dispatch_cursor := rs_next_dispatch_cursor s\<rparr>"

definition rs_empty :: "ReservationStation \<Rightarrow> bool" where
  "rs_empty s \<longleftrightarrow> list_all (\<lambda>entry. \<not> rse_busy entry) (rs_cur s)"

definition rs_full :: "ReservationStation \<Rightarrow> bool" where
  "rs_full s \<longleftrightarrow> list_all rse_busy (rs_cur s)"

definition rs_size :: "ReservationStation \<Rightarrow> nat" where
  "rs_size s = fold (\<lambda>entry count. if rse_busy entry then count + 1 else count) (rs_cur s) 0"

definition rs_available :: "ReservationStation \<Rightarrow> bool" where
  "rs_available s \<longleftrightarrow> \<not> rs_full s"

definition select_ready_index :: "ReservationStation \<Rightarrow> nat" where
  "select_ready_index s =
     (case List.find
             (\<lambda>offset. let entry = rs_cur s ! ((rs_dispatch_cursor s + offset) mod rs_kCapacity)
                       in rse_busy entry \<and> opd_ready (rse_lhs entry) \<and> opd_ready (rse_rhs entry))
             [0..<rs_kCapacity] of
        Some offset \<Rightarrow> (rs_dispatch_cursor s + offset) mod rs_kCapacity
      | None \<Rightarrow> rs_kInvalidIndex)"

definition make_execute :: "RSEntry \<Rightarrow> Execute" where
  "make_execute entry = \<lparr>ex_op = rse_op entry, ex_operand1 = opd_value (rse_lhs entry),
     ex_operand2 = opd_value (rse_rhs entry), ex_immediate = rse_immediate entry,
     ex_pc = rse_pc entry, ex_tag = rse_destination entry, ex_valid = True\<rparr>"

definition rs_wake_operand :: "Operand \<Rightarrow> CDBMsg \<Rightarrow> Operand" where
  "rs_wake_operand operand cdb =
     (if opd_ready operand \<or> \<not> tag_valid (opd_tag operand) \<or> \<not> msg_valid cdb
         \<or> \<not> tag_valid (msg_tag cdb) then operand
      else if opd_tag operand = msg_tag cdb
        then operand\<lparr>opd_value := msg_value cdb, opd_tag := no_tag, opd_ready := True\<rparr>
      else operand)"

definition rs_wake_entry :: "CDBMsg \<Rightarrow> RSEntry \<Rightarrow> RSEntry" where
  "rs_wake_entry cdb entry =
     (if \<not> rse_busy entry then entry
      else entry\<lparr>rse_lhs := rs_wake_operand (rse_lhs entry) cdb,
                 rse_rhs := rs_wake_operand (rse_rhs entry) cdb\<rparr>)"

definition find_free_index :: "RSEntry list \<Rightarrow> nat" where
  "find_free_index entries =
     (case List.find (\<lambda>index. \<not> rse_busy (entries ! index)) [0..<rs_kCapacity] of
        Some index \<Rightarrow> index
      | None \<Rightarrow> rs_kInvalidIndex)"

definition rs_plan :: "ReservationStation \<Rightarrow> bool \<Rightarrow> RSDecision" where
  "rs_plan s flush =
     (let decision = rs_decision_default
      in if flush then decision
         else
           let selected = select_ready_index s
           in if selected \<noteq> rs_kInvalidIndex then
                decision\<lparr>rsd_outputs := (rsd_outputs decision)
                           \<lparr>rso_dispatch := make_execute (rs_cur s ! selected),
                            rso_dispatch_valid := True\<rparr>,
                         rsd_selected_index := selected\<rparr>
              else decision)"

definition rs_apply :: "RSInputs \<Rightarrow> RSDecision \<Rightarrow> ReservationStation \<Rightarrow> ReservationStation \<times> bool" where
  "rs_apply inputs decision s =
     (let s = s\<lparr>rs_next_dispatch_cursor := rs_dispatch_cursor s, rs_next := rs_cur s\<rparr>
      in if rsi_flush inputs then
           (s\<lparr>rs_next_dispatch_cursor := 0,
              rs_next := replicate rs_kCapacity rs_entry_default\<rparr>, False)
         else
           let s = s\<lparr>rs_next := map (rs_wake_entry (rsi_cdb inputs)) (rs_next s)\<rparr>;
               s = (if rsd_selected_index decision \<noteq> rs_kInvalidIndex \<and> rsi_fu_available inputs
                    then s\<lparr>rs_next := (rs_next s)[rsd_selected_index decision := rs_entry_default],
                           rs_next_dispatch_cursor :=
                             (rsd_selected_index decision + 1) mod rs_kCapacity\<rparr>
                    else s)
           in if rsi_issue_valid inputs then
                let new_entry = rsi_issue_entry inputs;
                    free_slot = find_free_index (rs_next s)
                in if free_slot \<noteq> rs_kInvalidIndex
                   then (s\<lparr>rs_next := (rs_next s)[free_slot := new_entry\<lparr>rse_busy := True\<rparr>]\<rparr>, True)
                   else (s, False)
              else (s, False))"

end
