(* ===== verification/RsCorrect.thy ===== *)
theory RsCorrect
  imports ReservationStation Ring
begin

text \<open>
  The reservation station as a bag: which slot an instruction waits in does not matter to the rest
  of the core.  A cycle wakes the bag, takes out the dispatched instruction when the functional
  unit accepts it, and adds the issued one.
\<close>

interpretation rs_operand: wakeup rs_wake_operand
  by unfold_locales (auto simp: rs_wake_operand_def wakes_def)

definition rs_invar :: "ReservationStation \<Rightarrow> bool" where [inv_defs]:
  "rs_invar s \<longleftrightarrow> length (rs_cur s) = rs_kCapacity \<and> rs_dispatch_cursor s < rs_kCapacity"

definition rs_bag :: "ReservationStation \<Rightarrow> RSEntry multiset" where
  "rs_bag s = filter_mset rse_busy (mset (rs_cur s))"

lemma find_Some_iff:
  "List.find P xs = Some x \<Longrightarrow> x \<in> set xs \<and> P x"
  by (auto simp: find_Some_iff)

lemma find_None_iff': "List.find P xs = None \<longleftrightarrow> (\<forall>x \<in> set xs. \<not> P x)"
  by (auto simp: find_None_iff)

section \<open>Selection\<close>

lemma select_ready:
  assumes "select_ready_index s \<noteq> rs_kInvalidIndex"
  shows "select_ready_index s < rs_kCapacity" "rse_busy (rs_cur s ! select_ready_index s)"
    "opd_ready (rse_lhs (rs_cur s ! select_ready_index s))"
    "opd_ready (rse_rhs (rs_cur s ! select_ready_index s))"
  using assms
  by (auto simp: select_ready_index_def Let_def rs_kCapacity_def dest!: find_Some_iff
      split: option.splits)

lemma free_index:
  assumes "length cells = rs_kCapacity" and "find_free_index cells \<noteq> rs_kInvalidIndex"
  shows "find_free_index cells < length cells" "\<not> rse_busy (cells ! find_free_index cells)"
  using assms by (auto simp: find_free_index_def dest!: find_Some_iff split: option.splits)

lemma free_index_exists:
  assumes "length cells = rs_kCapacity"
  shows "find_free_index cells = rs_kInvalidIndex \<longleftrightarrow> list_all rse_busy cells"
  using assms
  by (auto simp: find_free_index_def rs_kInvalidIndex_def list_all_length find_None_iff'
      dest!: find_Some_iff split: option.splits)

lemma wake_entry_rs_simps [simp]:
  "rse_busy (rs_wake_entry m e) = rse_busy e" "rse_op (rs_wake_entry m e) = rse_op e"
  "rse_destination (rs_wake_entry m e) = rse_destination e"
  "rse_immediate (rs_wake_entry m e) = rse_immediate e" "rse_pc (rs_wake_entry m e) = rse_pc e"
  "rse_predicted_next_pc (rs_wake_entry m e) = rse_predicted_next_pc e"
  by (simp_all add: rs_wake_entry_def)

lemma wake_entry_rs_operands:
  "rse_busy e \<Longrightarrow> rse_lhs (rs_wake_entry m e) = rs_wake_operand (rse_lhs e) m"
  "rse_busy e \<Longrightarrow> rse_rhs (rs_wake_entry m e) = rs_wake_operand (rse_rhs e) m"
  by (simp_all add: rs_wake_entry_def)

lemma wake_ready_entry:
  "opd_ready (rse_lhs e) \<Longrightarrow> opd_ready (rse_rhs e) \<Longrightarrow> rs_wake_entry m e = e"
  by (cases e) (simp add: rs_wake_entry_def rs_operand.ready_stays)

section \<open>One cycle on the bag\<close>

lemma filter_update:
  assumes "i < length xs"
  shows "filter_mset P (mset (xs[i := v])) =
     (filter_mset P (mset xs) - (if P (xs ! i) then {#xs ! i#} else {#}))
     + (if P v then {#v#} else {#})"
proof -
  obtain R where "mset xs = add_mset (xs ! i) R" "mset (xs[i := v]) = add_mset v R"
    using assms mset_update [OF assms, of v] by (metis insert_DiffM nth_mem_mset)
  then show ?thesis by simp
qed

definition rs_dispatched :: "RSInputs \<Rightarrow> ReservationStation \<Rightarrow> RSEntry multiset" where
  "rs_dispatched i s =
     (if select_ready_index s \<noteq> rs_kInvalidIndex \<and> rsi_fu_available i
      then {#rs_cur s ! select_ready_index s#} else {#})"

definition rs_next_bag :: "RSInputs \<Rightarrow> ReservationStation \<Rightarrow> RSEntry multiset" where
  "rs_next_bag i s =
     (if rsi_flush i then {#}
      else (image_mset (rs_wake_entry (rsi_cdb i)) (rs_bag s) - rs_dispatched i s)
        + (if rsi_issue_valid i \<and> rs_available s
           then {#(rsi_issue_entry i)\<lparr>rse_busy := True\<rparr>#} else {#}))"

lemma rs_plan_facts:
  "\<not> flush \<Longrightarrow> rso_dispatch_valid (rsd_outputs (rs_plan s flush)) \<longleftrightarrow>
     select_ready_index s \<noteq> rs_kInvalidIndex"
  "\<not> flush \<Longrightarrow> rsd_selected_index (rs_plan s flush) = select_ready_index s"
  "\<not> flush \<Longrightarrow> select_ready_index s \<noteq> rs_kInvalidIndex \<Longrightarrow>
     rso_dispatch (rsd_outputs (rs_plan s flush)) = make_execute (rs_cur s ! select_ready_index s)"
  "\<not> flush \<Longrightarrow> select_ready_index s = rs_kInvalidIndex \<Longrightarrow>
     rso_dispatch (rsd_outputs (rs_plan s flush)) = execute_default"
  "flush \<Longrightarrow> rs_plan s flush = rs_decision_default"
  by (simp_all add: rs_plan_def Let_def rs_decision_default_def rs_outputs_default_def
      rs_kInvalidIndex_def)

lemma rs_bag_wake:
  "filter_mset rse_busy (mset (map (rs_wake_entry m) cells))
   = image_mset (rs_wake_entry m) (filter_mset rse_busy (mset cells))"
  by (induction cells) auto

definition rs_freed :: "RSInputs \<Rightarrow> ReservationStation \<Rightarrow> RSEntry list" where
  "rs_freed i s =
     (let cells = map (rs_wake_entry (rsi_cdb i)) (rs_cur s)
      in if select_ready_index s \<noteq> rs_kInvalidIndex \<and> rsi_fu_available i
         then cells[select_ready_index s := rs_entry_default] else cells)"

lemma rs_default_idle [simp]: "\<not> rse_busy rs_entry_default"
  by (simp add: rs_entry_default_def)

lemma rs_freed_slot:
  assumes "rs_invar s" and "rs_available s"
  shows "find_free_index (rs_freed i s) < length (rs_freed i s)"
    and "\<not> rse_busy (rs_freed i s ! find_free_index (rs_freed i s))"
    and "find_free_index (rs_freed i s) \<noteq> rs_kInvalidIndex"
proof -
  have len: "length (rs_freed i s) = rs_kCapacity"
    using assms(1) by (simp add: rs_freed_def rs_invar_def Let_def)
  obtain k where k: "k < length (rs_cur s)" "\<not> rse_busy (rs_cur s ! k)"
    using assms(2) by (auto simp: rs_available_def rs_full_def list_all_length)
  then have "k < length (rs_freed i s)" "\<not> rse_busy (rs_freed i s ! k)"
    by (auto simp: rs_freed_def Let_def nth_update_cases)
  then have "\<not> list_all rse_busy (rs_freed i s)"
    by (auto simp: list_all_length)
  then show free: "find_free_index (rs_freed i s) \<noteq> rs_kInvalidIndex"
    using free_index_exists [OF len] by simp
  show "find_free_index (rs_freed i s) < length (rs_freed i s)"
    and "\<not> rse_busy (rs_freed i s ! find_free_index (rs_freed i s))"
    using free_index [OF len free] by simp_all
qed

lemma rs_freed_bag:
  assumes "rs_invar s"
  shows "filter_mset rse_busy (mset (rs_freed i s))
       = image_mset (rs_wake_entry (rsi_cdb i)) (rs_bag s) - rs_dispatched i s"
proof (cases "select_ready_index s \<noteq> rs_kInvalidIndex \<and> rsi_fu_available i")
  case True
  let ?k = "select_ready_index s"
  have k: "?k < length (rs_cur s)" "rse_busy (rs_cur s ! ?k)"
      "rs_wake_entry m (rs_cur s ! ?k) = rs_cur s ! ?k" for m
    using select_ready [of s] True assms by (auto simp: rs_invar_def intro: wake_ready_entry)
  show ?thesis
    using True k
    by (simp add: rs_freed_def rs_dispatched_def filter_update rs_bag_wake rs_bag_def
        del: mset_map)
next
  case False
  then show ?thesis
    by (auto simp: rs_freed_def rs_dispatched_def rs_bag_wake rs_bag_def simp del: mset_map)
qed

lemma rs_apply_eq:
  assumes "rs_invar s" and "\<not> rsi_flush i" and "rsi_issue_valid i \<longrightarrow> rs_available s"
  shows "rs_apply i (rs_plan s False) s =
     (s\<lparr>rs_next := (if rsi_issue_valid i
            then (rs_freed i s)[find_free_index (rs_freed i s) := (rsi_issue_entry i)\<lparr>rse_busy := True\<rparr>]
            else rs_freed i s),
        rs_next_dispatch_cursor :=
          (if select_ready_index s \<noteq> rs_kInvalidIndex \<and> rsi_fu_available i
           then (select_ready_index s + 1) mod rs_kCapacity else rs_dispatch_cursor s)\<rparr>,
      rsi_issue_valid i)"
  using assms(2,3) rs_freed_slot(3) [OF assms(1), of i]
  by (cases "select_ready_index s \<noteq> rs_kInvalidIndex \<and> rsi_fu_available i"; cases "rsi_issue_valid i")
     (auto simp: rs_apply_def rs_freed_def Let_def rs_plan_facts(2))

lemma rs_cycle:
  fixes i :: RSInputs and s :: ReservationStation
  assumes inv: "rs_invar s" and issue: "rsi_issue_valid i \<longrightarrow> rs_available s"
  defines "s' \<equiv> rs_latch (fst (rs_apply i (rs_plan s (rsi_flush i)) s))"
  shows "rs_invar s'" and "rs_bag s' = rs_next_bag i s"
    and "snd (rs_apply i (rs_plan s (rsi_flush i)) s) = (\<not> rsi_flush i \<and> rsi_issue_valid i)"
proof -
  have "rs_invar s' \<and> rs_bag s' = rs_next_bag i s
      \<and> snd (rs_apply i (rs_plan s (rsi_flush i)) s) = (\<not> rsi_flush i \<and> rsi_issue_valid i)"
  proof (cases "rsi_flush i")
    case True
    have "filter_mset rse_busy (replicate_mset n rs_entry_default) = {#}" for n
      by (induction n) auto
    then show ?thesis
      using True
      by (simp add: s'_def rs_apply_def rs_latch_def rs_invar_def rs_bag_def rs_next_bag_def
          rs_kCapacity_def)
  next
    case False
    have len: "length (rs_freed i s) = rs_kCapacity" and cur: "rs_dispatch_cursor s < rs_kCapacity"
      using inv by (simp_all add: rs_freed_def rs_invar_def Let_def)
    have c: "rs_cur s' = (if rsi_issue_valid i
            then (rs_freed i s)[find_free_index (rs_freed i s) := (rsi_issue_entry i)\<lparr>rse_busy := True\<rparr>]
            else rs_freed i s)"
      and d: "rs_dispatch_cursor s' = (if select_ready_index s \<noteq> rs_kInvalidIndex \<and> rsi_fu_available i
           then (select_ready_index s + 1) mod rs_kCapacity else rs_dispatch_cursor s)"
      using rs_apply_eq [OF inv False issue] False by (simp_all add: s'_def rs_latch_def)
    have "rs_bag s' = rs_next_bag i s"
      using rs_freed_bag [OF inv, of i] rs_freed_slot [OF inv, of i] issue False
      by (auto simp: rs_bag_def [of s'] c rs_next_bag_def filter_update)
    then show ?thesis
      using len cur False rs_apply_eq [OF inv False issue]
      by (auto simp: rs_invar_def c d rs_kCapacity_def)
  qed
  then show "rs_invar s'" "rs_bag s' = rs_next_bag i s"
      "snd (rs_apply i (rs_plan s (rsi_flush i)) s) = (\<not> rsi_flush i \<and> rsi_issue_valid i)"
    by simp_all
qed

end
