(* ===== verification/LoadStoreQueue.thy ===== *)
theory LoadStoreQueue
  imports MemoryUnit ReorderBuffer Wakeup
begin

text \<open>
  \<open>tomasulo/load_store_queue.cpp\<close>: loads and stores in program order.  Only the head may have a
  request in the memory; a load's result waits in \<open>load_result\<close> for the common data bus, and a
  store is sent only when the reorder buffer authorises it.
\<close>

record LSQEntry =
  le_type :: MemoryAccessType
  le_op :: OP
  le_destination :: RobTag
  le_base :: Operand
  le_store_data :: Operand
  le_immediate :: Word
  le_address :: Address
  le_address_ready :: bool
  le_request_sent :: bool
  le_valid :: bool

definition lsq_entry_default :: LSQEntry where [default_defs]:
  "lsq_entry_default = \<lparr>le_type = LOAD, le_op = OP_INVALID, le_destination = no_tag,
     le_base = operand_default, le_store_data = operand_default, le_immediate = 0,
     le_address = 0, le_address_ready = False, le_request_sent = False, le_valid = False\<rparr>"

record LSQInputs =
  li_issue_entry :: LSQEntry
  li_issue_valid :: bool
  li_cdb :: CDBMsg
  li_store_request :: StoreCommitRequest
  li_memory_response :: DataMemoryResponse
  li_memory_available :: bool
  li_load_result_granted :: bool
  li_flush :: bool

record LSQOutputs =
  lo_memory_request :: DataMemoryRequest
  lo_store_completion :: StoreCommitCompletion
  lo_issue_accepted :: bool
  lo_memory_error :: bool

definition lsq_outputs_default :: LSQOutputs where [default_defs]:
  "lsq_outputs_default = \<lparr>lo_memory_request = request_default,
     lo_store_completion = store_completion_default, lo_issue_accepted = False,
     lo_memory_error = False\<rparr>"

record LSQObserveInputs =
  lob_store_request :: StoreCommitRequest
  lob_memory_response :: DataMemoryResponse
  lob_memory_available :: bool
  lob_load_result_granted :: bool
  lob_flush :: bool

record LSQDecision =
  ld_outputs :: LSQOutputs
  ld_completed_load_result :: FUResult
  ld_clear_load_result :: bool
  ld_install_load_result :: bool
  ld_remove_head :: bool
  ld_mark_request_sent :: bool

definition lsq_decision_default :: LSQDecision where [default_defs]:
  "lsq_decision_default = \<lparr>ld_outputs = lsq_outputs_default,
     ld_completed_load_result = fu_result_default, ld_clear_load_result = False,
     ld_install_load_result = False, ld_remove_head = False, ld_mark_request_sent = False\<rparr>"

definition lsq_kCapacity :: nat where
  "lsq_kCapacity = 16"

record LoadStoreQueue =
  lsq_cur :: "LSQEntry list"
  lsq_next :: "LSQEntry list"
  lsq_head :: nat
  lsq_tail :: nat
  lsq_count :: nat
  lsq_next_head :: nat
  lsq_next_tail :: nat
  lsq_next_count :: nat
  lsq_cur_load_result :: FUResult
  lsq_next_load_result :: FUResult

section \<open>Operations\<close>

definition lsq_reset :: "LoadStoreQueue \<Rightarrow> LoadStoreQueue" where
  "lsq_reset q = q
     \<lparr>lsq_cur := replicate lsq_kCapacity lsq_entry_default,
      lsq_next := replicate lsq_kCapacity lsq_entry_default,
      lsq_head := 0, lsq_tail := 0, lsq_count := 0,
      lsq_next_head := 0, lsq_next_tail := 0, lsq_next_count := 0,
      lsq_cur_load_result := fu_result_default, lsq_next_load_result := fu_result_default\<rparr>"

definition load_store_queue_new :: LoadStoreQueue where
  "load_store_queue_new = lsq_reset
     \<lparr>lsq_cur = replicate lsq_kCapacity lsq_entry_default,
      lsq_next = replicate lsq_kCapacity lsq_entry_default,
      lsq_head = 0, lsq_tail = 0, lsq_count = 0,
      lsq_next_head = 0, lsq_next_tail = 0, lsq_next_count = 0,
      lsq_cur_load_result = fu_result_default, lsq_next_load_result = fu_result_default\<rparr>"

definition lsq_latch :: "LoadStoreQueue \<Rightarrow> LoadStoreQueue" where
  "lsq_latch q = q
     \<lparr>lsq_cur := lsq_next q, lsq_head := lsq_next_head q, lsq_tail := lsq_next_tail q,
      lsq_count := lsq_next_count q, lsq_cur_load_result := lsq_next_load_result q\<rparr>"

definition lsq_empty :: "LoadStoreQueue \<Rightarrow> bool" where
  "lsq_empty q \<longleftrightarrow> lsq_count q = 0"

definition lsq_full :: "LoadStoreQueue \<Rightarrow> bool" where
  "lsq_full q \<longleftrightarrow> lsq_count q = lsq_kCapacity"

definition lsq_size :: "LoadStoreQueue \<Rightarrow> nat" where
  "lsq_size q = lsq_count q"

definition load_result :: "LoadStoreQueue \<Rightarrow> FUResult" where
  "load_result q = lsq_cur_load_result q"

definition lsq_wake_operand :: "Operand \<Rightarrow> CDBMsg \<Rightarrow> Operand" where
  "lsq_wake_operand operand cdb =
     (if opd_ready operand \<or> \<not> msg_valid cdb \<or> \<not> tag_valid (msg_tag cdb)
         \<or> \<not> tag_valid (opd_tag operand) then operand
      else if opd_tag operand = msg_tag cdb
        then operand\<lparr>opd_value := msg_value cdb, opd_ready := True, opd_tag := no_tag\<rparr>
      else operand)"

definition lsq_wake_entry :: "CDBMsg \<Rightarrow> LSQEntry \<Rightarrow> LSQEntry" where
  "lsq_wake_entry cdb entry =
     (if \<not> le_valid entry then entry
      else
        let entry = entry\<lparr>le_base := lsq_wake_operand (le_base entry) cdb\<rparr>
        in if le_type entry = STORE
           then entry\<lparr>le_store_data := lsq_wake_operand (le_store_data entry) cdb\<rparr>
           else entry)"

definition matching_response :: "LSQEntry \<Rightarrow> DataMemoryResponse \<Rightarrow> bool" where
  "matching_response entry response =
     (if \<not> le_valid entry \<or> \<not> rsp_valid response \<or> \<not> tag_valid (rsp_tag response) then False
      else if le_destination entry \<noteq> rsp_tag response then False
      else
        let entry_is_store = (le_type entry = STORE)
        in entry_is_store = rsp_is_store response)"

fun memory_width :: "OP \<Rightarrow> MemoryWidth" where
  "memory_width OP_LB = BYTE" | "memory_width OP_LBU = BYTE" | "memory_width OP_SB = BYTE"
| "memory_width OP_LH = HALF" | "memory_width OP_LHU = HALF" | "memory_width OP_SH = HALF"
| "memory_width OP_LW = WORD" | "memory_width OP_SW = WORD"
| "memory_width _ = WORD"

text \<open>The assertion of the default case of \<open>memory_width\<close>.\<close>

definition memory_width_asserts :: "OP \<Rightarrow> bool" where
  "memory_width_asserts opr \<longleftrightarrow>
     opr \<in> {OP_LB, OP_LBU, OP_SB, OP_LH, OP_LHU, OP_SH, OP_LW, OP_SW}"

fun extend_load_result :: "OP \<Rightarrow> Word \<Rightarrow> Word" where
  "extend_load_result OP_LB raw_value = sign_extend raw_value 8"
| "extend_load_result OP_LH raw_value = sign_extend raw_value 16"
| "extend_load_result OP_LW raw_value = raw_value"
| "extend_load_result OP_LBU raw_value = zero_extend raw_value 8"
| "extend_load_result OP_LHU raw_value = zero_extend raw_value 16"
| "extend_load_result _ raw_value = 0"

definition extend_load_asserts :: "OP \<Rightarrow> bool" where
  "extend_load_asserts opr \<longleftrightarrow> opr \<in> {OP_LB, OP_LH, OP_LW, OP_LBU, OP_LHU}"

definition update_address :: "LSQEntry \<Rightarrow> LSQEntry" where
  "update_address entry =
     (if \<not> le_valid entry \<or> le_address_ready entry \<or> \<not> opd_ready (le_base entry) then entry
      else entry\<lparr>le_address := opd_value (le_base entry) + le_immediate entry,
                 le_address_ready := True\<rparr>)"

definition update_addresses :: "LoadStoreQueue \<Rightarrow> LoadStoreQueue" where
  "update_addresses q = q\<lparr>lsq_next := map update_address (lsq_next q)\<rparr>"

definition remove_next_head :: "LoadStoreQueue \<Rightarrow> LoadStoreQueue" where
  "remove_next_head q =
     q\<lparr>lsq_next := (lsq_next q)[lsq_next_head q := lsq_entry_default],
       lsq_next_head := (lsq_next_head q + 1) mod lsq_kCapacity,
       lsq_next_count := size_dec (lsq_next_count q)\<rparr>"

definition make_memory_request :: "LSQEntry \<Rightarrow> DataMemoryRequest" where
  "make_memory_request entry =
     (let request = request_default\<lparr>rq_type := le_type entry, rq_width := memory_width (le_op entry),
                      rq_address := le_address entry, rq_tag := le_destination entry,
                      rq_valid := True\<rparr>
      in if le_type entry = STORE then request\<lparr>rq_value := opd_value (le_store_data entry)\<rparr>
         else request)"

text \<open>The two blocks of \<open>plan\<close>: the response of the memory, and the next request.\<close>

definition lsq_plan_response :: "LoadStoreQueue \<Rightarrow> DataMemoryResponse \<Rightarrow> LSQDecision \<Rightarrow> LSQDecision" where
  "lsq_plan_response q response decision =
     (let current_head = lsq_cur q ! lsq_head q;
          outputs = ld_outputs decision
      in if \<not> lsq_empty q \<and> matching_response current_head response then
           (if \<not> rsp_success response then
              decision\<lparr>ld_outputs := outputs\<lparr>lo_memory_error := True\<rparr>\<rparr>
            else if le_type current_head = LOAD then
              decision\<lparr>ld_completed_load_result := fu_result_default
                         \<lparr>fu_tag := le_destination current_head,
                          fu_value := extend_load_result (le_op current_head) (rsp_value response),
                          fu_valid := True\<rparr>,
                       ld_install_load_result := True, ld_remove_head := True\<rparr>
            else
              decision\<lparr>ld_outputs := outputs\<lparr>lo_store_completion :=
                         \<lparr>scc_tag = le_destination current_head, scc_valid = True\<rparr>\<rparr>,
                       ld_remove_head := True\<rparr>)
         else decision)"

definition lsq_plan_request :: "LoadStoreQueue \<Rightarrow> LSQObserveInputs \<Rightarrow> LSQDecision \<Rightarrow> LSQDecision" where
  "lsq_plan_request q inputs decision =
     (let current_head = lsq_cur q ! lsq_head q
      in if \<not> lsq_empty q \<and> le_valid current_head \<and> \<not> le_request_sent current_head
            \<and> le_address_ready current_head \<and> lob_memory_available inputs then
           let may_send =
                 (if le_type current_head = LOAD
                  then \<not> fu_valid (lsq_cur_load_result q) \<or> lob_load_result_granted inputs
                  else opd_ready (le_store_data current_head) \<and> scr_valid (lob_store_request inputs)
                       \<and> scr_tag (lob_store_request inputs) = le_destination current_head)
           in if may_send
              then decision\<lparr>ld_outputs := (ld_outputs decision)
                              \<lparr>lo_memory_request := make_memory_request current_head\<rparr>,
                            ld_mark_request_sent := True\<rparr>
              else decision
         else decision)"

definition lsq_plan :: "LoadStoreQueue \<Rightarrow> LSQObserveInputs \<Rightarrow> LSQDecision" where
  "lsq_plan q inputs =
     (if lob_flush inputs then lsq_decision_default
      else
        let decision = lsq_decision_default\<lparr>ld_clear_load_result :=
              (lob_load_result_granted inputs \<and> fu_valid (lsq_cur_load_result q))\<rparr>
        in lsq_plan_request q inputs
             (lsq_plan_response q (lob_memory_response inputs) decision))"

text \<open>The assertions reached from \<open>plan\<close>: the operations of the queue are loads and stores.\<close>

definition lsq_plan_asserts :: "LoadStoreQueue \<Rightarrow> LSQObserveInputs \<Rightarrow> bool" where
  "lsq_plan_asserts q inputs \<longleftrightarrow>
     (let decision = lsq_plan q inputs; current_head = lsq_cur q ! lsq_head q
      in (ld_install_load_result decision \<longrightarrow> extend_load_asserts (le_op current_head))
         \<and> (ld_mark_request_sent decision \<longrightarrow> memory_width_asserts (le_op current_head)))"

definition lsq_apply :: "LSQInputs \<Rightarrow> LSQDecision \<Rightarrow> LoadStoreQueue \<Rightarrow> LoadStoreQueue \<times> bool" where
  "lsq_apply inputs decision q =
     (let q = q\<lparr>lsq_next := lsq_cur q, lsq_next_head := lsq_head q, lsq_next_tail := lsq_tail q,
               lsq_next_count := lsq_count q, lsq_next_load_result := lsq_cur_load_result q\<rparr>
      in if li_flush inputs then
           (q\<lparr>lsq_next := replicate lsq_kCapacity lsq_entry_default,
              lsq_next_head := 0, lsq_next_tail := 0, lsq_next_count := 0,
              lsq_next_load_result := fu_result_default\<rparr>, False)
         else
           let q = (if ld_clear_load_result decision
                    then q\<lparr>lsq_next_load_result := fu_result_default\<rparr> else q);
               q = q\<lparr>lsq_next := map (lsq_wake_entry (li_cdb inputs)) (lsq_next q)\<rparr>;
               q = (if ld_install_load_result decision
                    then q\<lparr>lsq_next_load_result := ld_completed_load_result decision\<rparr> else q);
               q = (if ld_remove_head decision then remove_next_head q else q);
               q = (if ld_mark_request_sent decision
                    then q\<lparr>lsq_next := (lsq_next q)
                             [lsq_head q := (lsq_next q ! lsq_head q)\<lparr>le_request_sent := True\<rparr>]\<rparr>
                    else q);
               (q, issue_accepted) =
                 (if li_issue_valid inputs \<and> \<not> lsq_full q \<and> le_valid (li_issue_entry inputs) then
                    let entry = (li_issue_entry inputs)\<lparr>le_valid := True, le_request_sent := False\<rparr>
                    in (q\<lparr>lsq_next := (lsq_next q)[lsq_next_tail q := entry],
                          lsq_next_tail := (lsq_next_tail q + 1) mod lsq_kCapacity,
                          lsq_next_count := lsq_next_count q + 1\<rparr>, True)
                  else (q, False))
           in (update_addresses q, issue_accepted))"

text \<open>
  The assertions of \<open>apply\<close>: the result buffer is free when a result is installed, and the queue
  is not empty when its head is removed.
\<close>

definition lsq_apply_asserts :: "LSQInputs \<Rightarrow> LSQDecision \<Rightarrow> LoadStoreQueue \<Rightarrow> bool" where
  "lsq_apply_asserts inputs decision q \<longleftrightarrow>
     li_flush inputs
     \<or> ((ld_install_load_result decision \<longrightarrow>
           ld_clear_load_result decision \<or> \<not> fu_valid (lsq_cur_load_result q))
        \<and> (ld_remove_head decision \<longrightarrow> lsq_count q > 0))"

end
