(* ===== verification/LsqCorrect.thy ===== *)
theory LsqCorrect
  imports LoadStoreQueue TwoPhase
begin

text \<open>
  The load/store queue as a list: the memory instructions in flight, oldest first, each waiting for
  its operands, and the result of the last load.  A cycle wakes the entries, drops the completed
  head or marks it as sent, appends the issued entry, and computes the addresses that became known.
\<close>

section \<open>One cycle on the registers\<close>

definition lsq_accepts :: "LSQInputs \<Rightarrow> LoadStoreQueue \<Rightarrow> bool" where
  "lsq_accepts i q \<longleftrightarrow> \<not> li_flush i \<and> li_issue_valid i \<and> \<not> lsq_full q \<and> le_valid (li_issue_entry i)"

definition lsq_new_entry :: "LSQInputs \<Rightarrow> LSQEntry" where
  "lsq_new_entry i = (li_issue_entry i)\<lparr>le_valid := True, le_request_sent := False\<rparr>"

definition lsq_after :: "LSQInputs \<Rightarrow> LSQDecision \<Rightarrow> LoadStoreQueue \<Rightarrow> LoadStoreQueue" where
  "lsq_after i d q =
     (if li_flush i then
        q\<lparr>lsq_next := replicate lsq_kCapacity lsq_entry_default,
          lsq_next_head := 0, lsq_next_tail := 0, lsq_next_count := 0,
          lsq_next_load_result := fu_result_default\<rparr>
      else
        let cells = map (lsq_wake_entry (li_cdb i)) (lsq_cur q);
            cells = (if ld_remove_head d then cells[lsq_head q := lsq_entry_default] else cells);
            cells = (if ld_mark_request_sent d
                     then cells[lsq_head q := (cells ! lsq_head q)\<lparr>le_request_sent := True\<rparr>]
                     else cells);
            cells = (if lsq_accepts i q then cells[lsq_tail q := lsq_new_entry i] else cells)
        in q\<lparr>lsq_next := map update_address cells,
             lsq_next_head := (if ld_remove_head d then (lsq_head q + 1) mod lsq_kCapacity
               else lsq_head q),
             lsq_next_tail := (if lsq_accepts i q then (lsq_tail q + 1) mod lsq_kCapacity
               else lsq_tail q),
             lsq_next_count :=
               (let n = (if ld_remove_head d then size_dec (lsq_count q) else lsq_count q)
                in if lsq_accepts i q then n + 1 else n),
             lsq_next_load_result :=
               (if ld_install_load_result d then ld_completed_load_result d
                else if ld_clear_load_result d then fu_result_default
                else lsq_cur_load_result q)\<rparr>)"

lemma lsq_full_next [simp]:
  "lsq_full (q\<lparr>lsq_next := a\<rparr>) = lsq_full q" "lsq_full (q\<lparr>lsq_next_head := x\<rparr>) = lsq_full q"
  "lsq_full (q\<lparr>lsq_next_tail := x\<rparr>) = lsq_full q" "lsq_full (q\<lparr>lsq_next_count := x\<rparr>) = lsq_full q"
  "lsq_full (q\<lparr>lsq_next_load_result := f\<rparr>) = lsq_full q"
  by (simp_all add: lsq_full_def)

lemma lsq_apply_eq: "lsq_apply i d q = (lsq_after i d q, lsq_accepts i q)"
proof (cases "li_flush i")
  case True
  then show ?thesis by (simp add: lsq_apply_def lsq_after_def lsq_accepts_def)
next
  case False
  show ?thesis
    using False
    by (cases "li_issue_valid i \<and> \<not> lsq_full q \<and> le_valid (li_issue_entry i)";
        cases "ld_remove_head d"; cases "ld_mark_request_sent d")
       (simp_all add: lsq_apply_def lsq_after_def Let_def remove_next_head_def
         update_addresses_def lsq_new_entry_def lsq_accepts_def del: de_Morgan_conj)
qed

definition lsq_regs where
  "lsq_regs q = (lsq_cur q, lsq_head q, lsq_tail q, lsq_count q, lsq_cur_load_result q)"

definition lsq_of_regs :: "LSQEntry list \<times> nat \<times> nat \<times> nat \<times> FUResult \<Rightarrow> LoadStoreQueue" where
  "lsq_of_regs c = (case c of (cells, h, t, n, f) \<Rightarrow>
     load_store_queue_new\<lparr>lsq_cur := cells, lsq_head := h, lsq_tail := t, lsq_count := n,
       lsq_cur_load_result := f\<rparr>)"

definition lsq_nxt where
  "lsq_nxt i c = lsq_regs (lsq_latch (lsq_after (fst i) (snd i) (lsq_of_regs c)))"

lemma lsq_of_regs_simps:
  "lsq_cur (lsq_of_regs (lsq_regs q)) = lsq_cur q" "lsq_head (lsq_of_regs (lsq_regs q)) = lsq_head q"
  "lsq_tail (lsq_of_regs (lsq_regs q)) = lsq_tail q" "lsq_count (lsq_of_regs (lsq_regs q)) = lsq_count q"
  "lsq_cur_load_result (lsq_of_regs (lsq_regs q)) = lsq_cur_load_result q"
  "lsq_accepts i (lsq_of_regs (lsq_regs q)) = lsq_accepts i q"
  by (simp_all add: lsq_of_regs_def lsq_regs_def lsq_accepts_def lsq_full_def)

lemma lsq_after_fields:
  "lsq_cur (lsq_after i d q) = lsq_cur q" "lsq_head (lsq_after i d q) = lsq_head q"
  "lsq_tail (lsq_after i d q) = lsq_tail q" "lsq_count (lsq_after i d q) = lsq_count q"
  "lsq_cur_load_result (lsq_after i d q) = lsq_cur_load_result q"
  by (simp_all add: lsq_after_def Let_def)

lemma lsq_latch_regs:
  "lsq_regs (lsq_latch q) = (lsq_next q, lsq_next_head q, lsq_next_tail q, lsq_next_count q,
     lsq_next_load_result q)"
  by (simp add: lsq_regs_def lsq_latch_def)

interpretation lsq: two_phase lsq_regs "\<lambda>(i, d) q. fst (lsq_apply i d q)" lsq_latch lsq_nxt
proof (unfold_locales, goal_cases)
  case (1 i s)
  then show ?case
    by (cases i) (simp add: lsq_apply_eq lsq_regs_def lsq_after_fields)
next
  case (2 i s)
  then show ?case
    by (cases i)
       (simp add: lsq_apply_eq lsq_nxt_def lsq_latch_regs, simp add: lsq_after_def Let_def
         lsq_of_regs_simps)
qed

section \<open>Waking\<close>

interpretation lsq_operand: wakeup lsq_wake_operand
  by unfold_locales (auto simp: lsq_wake_operand_def wakes_def)

lemma wake_entry_simps [simp]:
  "le_type (lsq_wake_entry m e) = le_type e" "le_op (lsq_wake_entry m e) = le_op e"
  "le_destination (lsq_wake_entry m e) = le_destination e"
  "le_immediate (lsq_wake_entry m e) = le_immediate e"
  "le_address (lsq_wake_entry m e) = le_address e"
  "le_address_ready (lsq_wake_entry m e) = le_address_ready e"
  "le_request_sent (lsq_wake_entry m e) = le_request_sent e"
  "le_valid (lsq_wake_entry m e) = le_valid e"
  by (simp_all add: lsq_wake_entry_def Let_def)

lemma wake_entry_operands:
  "le_valid e \<Longrightarrow> le_base (lsq_wake_entry m e) = lsq_wake_operand (le_base e) m"
  "le_valid e \<Longrightarrow> le_store_data (lsq_wake_entry m e) =
     (if le_type e = STORE then lsq_wake_operand (le_store_data e) m else le_store_data e)"
  by (simp_all add: lsq_wake_entry_def Let_def)

lemma update_address_simps [simp]:
  "le_type (update_address e) = le_type e" "le_op (update_address e) = le_op e"
  "le_destination (update_address e) = le_destination e" "le_base (update_address e) = le_base e"
  "le_store_data (update_address e) = le_store_data e"
  "le_immediate (update_address e) = le_immediate e"
  "le_request_sent (update_address e) = le_request_sent e"
  "le_valid (update_address e) = le_valid e"
  by (simp_all add: update_address_def)

lemma lsq_default_simps [simp]:
  "\<not> le_valid lsq_entry_default" "lsq_wake_entry m lsq_entry_default = lsq_entry_default"
  "update_address lsq_entry_default = lsq_entry_default"
  by (simp_all add: lsq_entry_default_def lsq_wake_entry_def update_address_def)

section \<open>The invariant\<close>

definition lsq_invar :: "LoadStoreQueue \<Rightarrow> bool" where [inv_defs]:
  "lsq_invar q \<longleftrightarrow> length (lsq_cur q) = 16 \<and> lsq_tail q = (lsq_head q + lsq_count q) mod 16
     \<and> ring_ok (\<lambda>_. le_valid) lsq_entry_default (lsq_cur q) (lsq_head q) (lsq_count q)"

definition lsq_list :: "LoadStoreQueue \<Rightarrow> LSQEntry list" where
  "lsq_list q = ring_list (lsq_cur q) (lsq_head q) (lsq_count q)"

lemma length_lsq_list [simp]: "length (lsq_list q) = lsq_count q"
  by (simp add: lsq_list_def)

lemma lsq_list_Nil: "lsq_list q = [] \<longleftrightarrow> lsq_count q = 0"
  by (simp add: lsq_list_def)

lemma lsq_invarD:
  assumes "lsq_invar q"
  shows "length (lsq_cur q) = 16" "lsq_head q < 16" "lsq_count q \<le> 16"
    "lsq_tail q = (lsq_head q + lsq_count q) mod 16"
  using assms by (auto simp: lsq_invar_def ring_ok_def)

lemma lsq_list_valid:
  assumes "lsq_invar q" and "e \<in> set (lsq_list q)"
  shows "le_valid e"
proof -
  obtain k where "k < lsq_count q" "e = lsq_list q ! k"
    using assms(2) by (auto simp: in_set_conv_nth)
  then show ?thesis
    using ring_ok_nth [of "\<lambda>_. le_valid" lsq_entry_default "lsq_cur q"] assms(1)
    by (simp add: lsq_invar_def lsq_list_def del: nth_ring_list)
qed

lemma lsq_head_list:
  assumes "lsq_invar q" and "lsq_list q \<noteq> []"
  shows "lsq_cur q ! lsq_head q = hd (lsq_list q)"
  using assms lsq_invarD [OF assms(1)]
  by (simp add: lsq_list_def hd_ring_list)

section \<open>One cycle on the list\<close>

definition lsq_next_list :: "LSQInputs \<Rightarrow> LSQDecision \<Rightarrow> LoadStoreQueue \<Rightarrow> LSQEntry list" where
  "lsq_next_list i d q =
     (if li_flush i then []
      else
        let es = map (lsq_wake_entry (li_cdb i)) (lsq_list q);
            es = (if ld_remove_head d then tl es
                  else if ld_mark_request_sent d
                  then (hd es)\<lparr>le_request_sent := True\<rparr> # tl es else es);
            es = (if lsq_accepts i q then es @ [lsq_new_entry i] else es)
        in map update_address es)"

definition lsq_decision_ok :: "LSQDecision \<Rightarrow> LoadStoreQueue \<Rightarrow> bool" where
  "lsq_decision_ok d q \<longleftrightarrow>
     (ld_remove_head d \<or> ld_mark_request_sent d \<longrightarrow> lsq_list q \<noteq> [])
     \<and> \<not> (ld_remove_head d \<and> ld_mark_request_sent d)"

lemma list_update_0: "xs \<noteq> [] \<Longrightarrow> xs[0 := v] = v # tl xs"
  by (cases xs) auto

lemma lsq_cycle:
  fixes i :: LSQInputs and q :: LoadStoreQueue
  assumes inv: "lsq_invar q" and dec: "lsq_decision_ok d q"
  defines "q' \<equiv> lsq_latch (lsq_after i d q)"
  shows "lsq_invar q'" and "lsq_list q' = lsq_next_list i d q"
proof -
  let ?h = "lsq_head q" and ?n = "lsq_count q" and ?a = "lsq_accepts i q"
  let ?ok = "\<lambda>cells h n. length cells = 16
      \<and> ring_ok (\<lambda>_. le_valid) lsq_entry_default cells h n"
  let ?w = "lsq_wake_entry (li_cdb i)"
  have len: "length (lsq_cur q) = 16" and h: "?h < 16" and n: "?n \<le> 16"
    and tail: "lsq_tail q = (?h + ?n) mod 16"
    by (fact lsq_invarD [OF inv])+
  have base: "?ok (map ?w (lsq_cur q)) ?h ?n"
      "ring_list (map ?w (lsq_cur q)) ?h ?n = map ?w (lsq_list q)"
    using ring_ok_map [of "\<lambda>_. le_valid" lsq_entry_default "lsq_cur q" ?h ?n "\<lambda>_. le_valid" ?w]
      inv by (simp_all add: lsq_invar_def lsq_list_def)
  show "lsq_invar q'" "lsq_list q' = lsq_next_list i d q"
  proof (atomize (full), cases "li_flush i")
    case True
    then show "lsq_invar q' \<and> lsq_list q' = lsq_next_list i d q"
      using ring_ok_clear [of 0 16 "\<lambda>_. le_valid" lsq_entry_default]
      by (simp add: q'_def lsq_latch_def lsq_after_def lsq_invar_def lsq_list_def lsq_next_list_def
          lsq_kCapacity_def)
  next
    case False
    define c where "c = (if ld_remove_head d then (map ?w (lsq_cur q))[?h := lsq_entry_default]
       else if ld_mark_request_sent d
       then (map ?w (lsq_cur q))[?h := (map ?w (lsq_cur q) ! ?h)\<lparr>le_request_sent := True\<rparr>]
       else map ?w (lsq_cur q))"
    define es where "es = (if ld_remove_head d then tl (map ?w (lsq_list q))
       else if ld_mark_request_sent d
       then (hd (map ?w (lsq_list q)))\<lparr>le_request_sent := True\<rparr> # tl (map ?w (lsq_list q))
       else map ?w (lsq_list q))"
    define h' where "h' = (if ld_remove_head d then (?h + 1) mod 16 else ?h)"
    define n' where "n' = (if ld_remove_head d then ?n - 1 else ?n)"
    have pos: "0 < ?n" if "ld_remove_head d \<or> ld_mark_request_sent d"
      using dec that by (auto simp: lsq_decision_ok_def lsq_list_Nil)
    have pop: "?ok ((map ?w (lsq_cur q))[?h := lsq_entry_default]) ((?h + 1) mod 16) (?n - 1)"
        "ring_list ((map ?w (lsq_cur q))[?h := lsq_entry_default]) ((?h + 1) mod 16) (?n - 1)
          = tl (map ?w (lsq_list q))" if "ld_remove_head d"
      using ring_ok_pop [of "\<lambda>_. le_valid" lsq_entry_default "map ?w (lsq_cur q)" ?h ?n] base
        pos that len by simp_all
    have send: "?ok ((map ?w (lsq_cur q))[?h := (map ?w (lsq_cur q) ! ?h)\<lparr>le_request_sent := True\<rparr>]) ?h ?n"
        "ring_list ((map ?w (lsq_cur q))[?h := (map ?w (lsq_cur q) ! ?h)\<lparr>le_request_sent := True\<rparr>]) ?h ?n
          = (hd (map ?w (lsq_list q)))\<lparr>le_request_sent := True\<rparr> # tl (map ?w (lsq_list q))"
      if "ld_mark_request_sent d"
    proof -
      have p: "0 < ?n" using pos that by simp
      have hd: "map ?w (lsq_cur q) ! ?h = hd (map ?w (lsq_list q))"
        using lsq_head_list [OF inv] p h len by (simp add: lsq_list_Nil hd_map)
      have ok: "le_valid ((map ?w (lsq_cur q) ! ?h)\<lparr>le_request_sent := True\<rparr>)"
        using lsq_list_valid [OF inv, of "hd (lsq_list q)"] p unfolding hd
        by (simp add: lsq_list_Nil hd_map)
      have ix: "(?h + 0) mod length (map ?w (lsq_cur q)) = ?h" using h len by simp
      note u = ring_ok_update [of "\<lambda>_. le_valid" lsq_entry_default "map ?w (lsq_cur q)" ?h ?n 0,
          unfolded ix, OF _ p ok]
      show "?ok ((map ?w (lsq_cur q))[?h := (map ?w (lsq_cur q) ! ?h)\<lparr>le_request_sent := True\<rparr>]) ?h ?n"
        using u(1) base(1) by simp
      have "ring_list ((map ?w (lsq_cur q))[?h := (map ?w (lsq_cur q) ! ?h)\<lparr>le_request_sent := True\<rparr>]) ?h ?n
          = (map ?w (lsq_list q))[0 := (hd (map ?w (lsq_list q)))\<lparr>le_request_sent := True\<rparr>]"
        using u(2) base unfolding hd by simp
      then show "ring_list ((map ?w (lsq_cur q))[?h := (map ?w (lsq_cur q) ! ?h)\<lparr>le_request_sent := True\<rparr>]) ?h ?n
          = (hd (map ?w (lsq_list q)))\<lparr>le_request_sent := True\<rparr> # tl (map ?w (lsq_list q))"
        using p by (simp add: list_update_0 lsq_list_Nil)
    qed
    have step: "?ok c h' n'" "ring_list c h' n' = es" "lsq_tail q = (h' + n') mod 16" "h' < 16"
      using base pop send dec pos tail h
      by (auto simp: c_def h'_def n'_def es_def lsq_decision_ok_def mod_simps)
    have n': "?a \<Longrightarrow> n' < 16"
      using n pos by (auto simp: n'_def lsq_accepts_def lsq_full_def lsq_kCapacity_def)
    define c' where "c' = (if ?a then c[lsq_tail q := lsq_new_entry i] else c)"
    define n'' where "n'' = (if ?a then Suc n' else n')"
    have push: "?ok c' h' n''" "ring_list c' h' n'' = (if ?a then es @ [lsq_new_entry i] else es)"
      using step n' ring_ok_push [of "\<lambda>_. le_valid" lsq_entry_default c h' n' "lsq_tail q"
          "\<lambda>_. le_valid" "lsq_new_entry i"]
      by (auto simp: c'_def n''_def lsq_new_entry_def)
    note fin = ring_ok_map [of "\<lambda>_. le_valid" lsq_entry_default c' h' n'' "\<lambda>_. le_valid" update_address]
    have q': "lsq_cur q' = map update_address c'" "lsq_head q' = h'" "lsq_count q' = n''"
        "lsq_tail q' = (if ?a then (lsq_tail q + 1) mod 16 else lsq_tail q)"
      using False pos dec unfolding q'_def lsq_after_def Let_def
      by (auto simp: lsq_latch_def c'_def c_def h'_def n''_def n'_def lsq_kCapacity_def
          lsq_decision_ok_def)
    show "lsq_invar q' \<and> lsq_list q' = lsq_next_list i d q"
      using fin push step(3) False
      by (auto simp: lsq_invar_def lsq_list_def [of q'] q' lsq_next_list_def es_def n''_def mod_simps
          Let_def)
  qed
qed

lemma lsq_load_result_cycle:
  "lsq_cur_load_result (lsq_latch (lsq_after i d q)) =
     (if li_flush i then fu_result_default
      else if ld_install_load_result d then ld_completed_load_result d
      else if ld_clear_load_result d then fu_result_default
      else lsq_cur_load_result q)"
  by (simp add: lsq_latch_def lsq_after_def Let_def)

end
