(* ===== verification/IssueUnit.thy ===== *)
theory IssueUnit
  imports ReservationStation LoadStoreQueue
begin

text \<open>
  \<open>tomasulo/issue_unit.cpp\<close>: one decoded instruction, the state of its two source registers and
  the free resources become the entries of the reorder buffer, of the reservation station or the
  load/store queue, and of the rename table.
\<close>

datatype IssueStatus = InvalidInstruction | InvalidAllocation | Unavailability | Issued | Empty

record RenameUpdate =
  ru_rd :: RegisterIndex
  ru_tag :: RobTag
  ru_valid :: bool

definition rename_default :: RenameUpdate where [default_defs]:
  "rename_default = \<lparr>ru_rd = 0, ru_tag = no_tag, ru_valid = False\<rparr>"

record SourceState =
  ss_architectural_value :: Word
  ss_producer :: RobTag
  ss_producer_value :: Word
  ss_producer_ready :: bool

definition source_default :: SourceState where [default_defs]:
  "source_default = \<lparr>ss_architectural_value = 0, ss_producer = no_tag, ss_producer_value = 0,
     ss_producer_ready = False\<rparr>"

record IssueInputs =
  ii_packet :: DecodePacket
  ii_allocated_tag :: RobTag
  ii_rs1 :: SourceState
  ii_rs2 :: SourceState
  ii_cdb :: CDBMsg
  ii_rob_available :: bool
  ii_rs_available :: bool
  ii_lsq_available :: bool

record IssueOutputs =
  io_status :: IssueStatus
  io_rob_entry :: ROBEntry
  io_rs_entry :: RSEntry
  io_lsq_entry :: LSQEntry
  io_rename :: RenameUpdate
  io_pop_decode :: bool
  io_write_rob :: bool
  io_write_rs :: bool
  io_write_lsq :: bool

definition issue_outputs_default :: IssueOutputs where [default_defs]:
  "issue_outputs_default = \<lparr>io_status = Empty, io_rob_entry = rob_entry_default,
     io_rs_entry = rs_entry_default, io_lsq_entry = lsq_entry_default, io_rename = rename_default,
     io_pop_decode = False, io_write_rob = False, io_write_rs = False, io_write_lsq = False\<rparr>"

definition issued :: "IssueOutputs \<Rightarrow> bool" where
  "issued outputs \<longleftrightarrow> io_status outputs = Issued"

definition is_memory_instruction :: "DecodedInstruction \<Rightarrow> bool" where
  "is_memory_instruction ins \<longleftrightarrow> di_is_load ins \<or> di_is_store ins"

definition ready_operand :: "Word \<Rightarrow> Operand" where
  "ready_operand v = operand_default\<lparr>opd_value := v, opd_ready := True\<rparr>"

definition resolve_register :: "RegisterIndex \<Rightarrow> SourceState \<Rightarrow> CDBMsg \<Rightarrow> Operand" where
  "resolve_register idx src msg =
     (if idx = 0 then ready_operand 0
      else if \<not> tag_valid (ss_producer src) then ready_operand (ss_architectural_value src)
      else if msg_valid msg \<and> tag_valid (msg_tag msg) \<and> msg_tag msg = ss_producer src
        then ready_operand (msg_value msg)
      else if ss_producer_ready src then ready_operand (ss_producer_value src)
      else operand_default\<lparr>opd_ready := False, opd_tag := ss_producer src\<rparr>)"

definition select_operand :: "OperandSource \<Rightarrow> Operand \<Rightarrow> Word \<Rightarrow> Address \<Rightarrow> Operand" where
  "select_operand src register_operand immediate pc =
     (case src of
        Immediate \<Rightarrow> ready_operand immediate
      | ProgramCounter \<Rightarrow> ready_operand pc
      | Register \<Rightarrow> register_operand
      | Zero \<Rightarrow> ready_operand 0)"

text \<open>The three entries that \<open>plan\<close> builds.\<close>

definition issue_rob_entry :: "IssueInputs \<Rightarrow> ROBEntry" where
  "issue_rob_entry inputs =
     (let instruction = dp_decoded (ii_packet inputs)
      in rob_entry_default
           \<lparr>re_tag := ii_allocated_tag inputs, re_op := di_op instruction,
            re_pc := dp_pc (ii_packet inputs), re_rd := di_rd instruction,
            re_writes_rd := (di_writes_rd instruction \<and> di_rd instruction \<noteq> 0),
            re_ready := (di_op instruction = OP_HALT),
            re_predicted_next_pc := dp_predicted_pc (ii_packet inputs),
            re_branch_taken := False, re_is_branch := di_is_branch instruction,
            re_is_store := di_is_store instruction, re_is_jump := di_is_jump instruction,
            re_valid := True\<rparr>)"

definition issue_rs_entry :: "IssueInputs \<Rightarrow> Operand \<Rightarrow> Operand \<Rightarrow> RSEntry" where
  "issue_rs_entry inputs rs1 rs2 =
     (let instruction = dp_decoded (ii_packet inputs); pc = dp_pc (ii_packet inputs)
      in rs_entry_default
           \<lparr>rse_op := di_op instruction, rse_destination := ii_allocated_tag inputs,
            rse_lhs := select_operand (di_lhs_source instruction) rs1 (di_immediate instruction) pc,
            rse_rhs := select_operand (di_rhs_source instruction) rs2 (di_immediate instruction) pc,
            rse_immediate := di_immediate instruction, rse_pc := pc,
            rse_predicted_next_pc := dp_predicted_pc (ii_packet inputs), rse_busy := True\<rparr>)"

definition issue_lsq_entry :: "IssueInputs \<Rightarrow> Operand \<Rightarrow> Operand \<Rightarrow> LSQEntry" where
  "issue_lsq_entry inputs rs1 rs2 =
     (let instruction = dp_decoded (ii_packet inputs)
      in lsq_entry_default
           \<lparr>le_type := (if di_is_load instruction then LOAD else STORE),
            le_op := di_op instruction, le_destination := ii_allocated_tag inputs,
            le_base := rs1,
            le_store_data := (if di_is_store instruction then rs2 else ready_operand 0),
            le_immediate := di_immediate instruction, le_address := 0,
            le_address_ready := False, le_request_sent := False, le_valid := True\<rparr>)"

definition issue_plan :: "IssueInputs \<Rightarrow> IssueOutputs" where
  "issue_plan inputs =
     (let outputs = issue_outputs_default;
          instruction = dp_decoded (ii_packet inputs)
      in if \<not> dp_valid (ii_packet inputs) then outputs
         else if di_op instruction = OP_INVALID then outputs\<lparr>io_status := InvalidInstruction\<rparr>
         else if \<not> tag_valid (ii_allocated_tag inputs) then outputs\<lparr>io_status := InvalidAllocation\<rparr>
         else
           let need_lsq = is_memory_instruction instruction;
               is_halt = (di_op instruction = OP_HALT);
               need_rs = (\<not> is_halt \<and> \<not> need_lsq)
           in if \<not> ii_rob_available inputs \<or> (need_lsq \<and> \<not> ii_lsq_available inputs)
                 \<or> (need_rs \<and> \<not> ii_rs_available inputs)
              then outputs\<lparr>io_status := Unavailability\<rparr>
              else
                let rs1 = resolve_register (di_rs1 instruction) (ii_rs1 inputs) (ii_cdb inputs);
                    rs2 = resolve_register (di_rs2 instruction) (ii_rs2 inputs) (ii_cdb inputs);
                    rob_entry = issue_rob_entry inputs;
                    outputs = outputs\<lparr>io_rob_entry := rob_entry, io_write_rob := True\<rparr>;
                    outputs = (if need_rs
                               then outputs\<lparr>io_write_rs := True,
                                            io_rs_entry := issue_rs_entry inputs rs1 rs2\<rparr>
                               else outputs);
                    outputs = (if need_lsq
                               then outputs\<lparr>io_lsq_entry := issue_lsq_entry inputs rs1 rs2,
                                            io_write_lsq := True\<rparr>
                               else outputs);
                    outputs = (if re_writes_rd rob_entry
                               then outputs\<lparr>io_rename := \<lparr>ru_rd = di_rd instruction,
                                              ru_tag = ii_allocated_tag inputs, ru_valid = True\<rparr>\<rparr>
                               else outputs)
                in outputs\<lparr>io_pop_decode := True, io_status := Issued\<rparr>)"

end
