(* ===== verification/IssueCorrect.thy ===== *)
theory IssueCorrect
  imports IssueUnit
begin

text \<open>The issue unit branch by branch: what an issued instruction writes, and that nothing else
  writes anything.\<close>

definition needs_lsq :: "DecodedInstruction \<Rightarrow> bool" where
  "needs_lsq d \<longleftrightarrow> di_is_load d \<or> di_is_store d"

definition needs_rs :: "DecodedInstruction \<Rightarrow> bool" where
  "needs_rs d \<longleftrightarrow> di_op d \<noteq> OP_HALT \<and> \<not> needs_lsq d"

definition can_issue :: "IssueInputs \<Rightarrow> bool" where
  "can_issue i \<longleftrightarrow>
     (let d = dp_decoded (ii_packet i)
      in dp_valid (ii_packet i) \<and> di_op d \<noteq> OP_INVALID \<and> tag_valid (ii_allocated_tag i)
         \<and> ii_rob_available i \<and> (needs_lsq d \<longrightarrow> ii_lsq_available i)
         \<and> (needs_rs d \<longrightarrow> ii_rs_available i))"

definition rs1_operand :: "IssueInputs \<Rightarrow> Operand" where
  "rs1_operand i = resolve_register (di_rs1 (dp_decoded (ii_packet i))) (ii_rs1 i) (ii_cdb i)"

definition rs2_operand :: "IssueInputs \<Rightarrow> Operand" where
  "rs2_operand i = resolve_register (di_rs2 (dp_decoded (ii_packet i))) (ii_rs2 i) (ii_cdb i)"

definition issue_result :: "IssueInputs \<Rightarrow> IssueOutputs" where
  "issue_result i =
     (let d = dp_decoded (ii_packet i)
      in \<lparr>io_status = Issued, io_rob_entry = issue_rob_entry i,
          io_rs_entry = (if needs_rs d then issue_rs_entry i (rs1_operand i) (rs2_operand i)
            else rs_entry_default),
          io_lsq_entry = (if needs_lsq d then issue_lsq_entry i (rs1_operand i) (rs2_operand i)
            else lsq_entry_default),
          io_rename = (if re_writes_rd (issue_rob_entry i)
            then \<lparr>ru_rd = di_rd d, ru_tag = ii_allocated_tag i, ru_valid = True\<rparr>
            else rename_default),
          io_pop_decode = True, io_write_rob = True, io_write_rs = needs_rs d,
          io_write_lsq = needs_lsq d\<rparr>)"

definition refusal :: "IssueInputs \<Rightarrow> IssueStatus" where
  "refusal i =
     (let d = dp_decoded (ii_packet i)
      in if \<not> dp_valid (ii_packet i) then Empty
         else if di_op d = OP_INVALID then InvalidInstruction
         else if \<not> tag_valid (ii_allocated_tag i) then InvalidAllocation
         else Unavailability)"

lemma issue_plan_eq:
  "issue_plan i = (if can_issue i then issue_result i
                   else issue_outputs_default\<lparr>io_status := refusal i\<rparr>)"
proof -
  have m: "is_memory_instruction (dp_decoded (ii_packet i)) = needs_lsq (dp_decoded (ii_packet i))"
    by (simp add: is_memory_instruction_def needs_lsq_def)
  have r: "(di_op (dp_decoded (ii_packet i)) \<noteq> OP_HALT \<and> \<not> needs_lsq (dp_decoded (ii_packet i)))
      = needs_rs (dp_decoded (ii_packet i))"
    by (simp add: needs_rs_def)
  show ?thesis
  proof (cases "can_issue i")
    case True
    then show ?thesis
      unfolding issue_plan_def Let_def m r
      by (simp add: can_issue_def issue_result_def rs1_operand_def rs2_operand_def Let_def
          issue_outputs_default_def)
  next
    case False
    then show ?thesis
      unfolding issue_plan_def Let_def m r
      by (auto simp: can_issue_def refusal_def Let_def issue_outputs_default_def)
  qed
qed

end
