(* ===== verification/QueueRuns.thy ===== *)
theory QueueRuns
  imports RobCorrect RsCorrect LsqCorrect IssueCorrect
begin

text \<open>
  The reorder buffer, the reservation station and the load/store queue over whole runs: each is a
  list or a bag after any sequence of cycles, a tag that has left the reorder buffer does not
  match again, and no ready instruction waits for ever in the reservation station.
\<close>

section \<open>Reorder buffer\<close>

definition rob_step :: "ROBInputs \<Rightarrow> ReorderBuffer \<Rightarrow> ReorderBuffer" where
  "rob_step i r = rob_latch (fst (rob_apply i (rob_plan r) r))"

lemma rob_step_facts:
  assumes "rob_invar r"
  shows "rob_invar (rob_step i r)" and "rob_list (rob_step i r) = rob_next_list i r"
    and "rob_generations (rob_step i r) = rob_next_generations_of i r"
  using rob_cycle [OF assms, of i] by (simp_all add: rob_step_def rob_apply_eq)

lemma rob_invar_new: "rob_invar reorder_buffer_new"
  using ring_ok_clear [of 0 32 "slot_ok (replicate 32 0)" rob_entry_default]
  by (simp add: reorder_buffer_new_def rob_reset_def rob_invar_def rob_kCapacity_def)

lemma rob_invar_run: "rob_invar r \<Longrightarrow> rob_invar (fold rob_step is r)"
  by (induction "is" arbitrary: r) (simp_all add: rob_step_facts)

text \<open>C23: in every run of the reorder buffer, whatever its inputs, the ring of entries is a list of
  at most 32 entries in program order with distinct tags; looking a tag up finds its entry; and a
  cycle marks the completed entries, drops the committed head (or everything, on a misprediction)
  and appends the issued entry if its tag is the expected one.\<close>

theorem rob_refines_list:
  "rob_list (rob_step i (fold rob_step is reorder_buffer_new))
     = rob_next_list i (fold rob_step is reorder_buffer_new)
   \<and> length (rob_list (fold rob_step is reorder_buffer_new)) \<le> 32
   \<and> distinct (map re_tag (rob_list (fold rob_step is reorder_buffer_new)))
   \<and> rob_front (fold rob_step is reorder_buffer_new)
     = (case rob_list (fold rob_step is reorder_buffer_new) of [] \<Rightarrow> None | e # _ \<Rightarrow> Some e)
   \<and> (\<forall>t. rob_lookup (fold rob_step is reorder_buffer_new) t
     = List.find (\<lambda>e. re_tag e = t) (rob_list (fold rob_step is reorder_buffer_new)))"
proof -
  let ?r = "fold rob_step is reorder_buffer_new"
  have inv: "rob_invar ?r" by (rule rob_invar_run [OF rob_invar_new])
  have look: "rob_lookup ?r t = List.find (\<lambda>e. re_tag e = t) (rob_list ?r)" for t
  proof (cases "\<exists>e \<in> set (rob_list ?r). re_tag e = t")
    case True
    then obtain k where k: "k < rob_count ?r" "re_tag (rob_list ?r ! k) = t"
      by (auto simp: in_set_conv_nth)
    have "re_tag (rob_list ?r ! j) \<noteq> t" if "j < k" for j
      using rob_tags_distinct [OF inv, of j k] k that by auto
    then have "List.find (\<lambda>e. re_tag e = t) (rob_list ?r) = Some (rob_list ?r ! k)"
      using k by (auto simp: List.find_Some_iff)
    then show ?thesis using rob_lookup_list [OF inv k(1)] k(2) by simp
  next
    case False
    then have "List.find (\<lambda>e. re_tag e = t) (rob_list ?r) = None"
      by (simp add: List.find_None_iff)
    then show ?thesis using False matching_in_list [OF inv, of t] by (simp add: rob_lookup_def)
  qed
  show ?thesis
    using rob_step_facts(2) [OF inv] distinct_tags [OF inv] rob_front_list [OF inv]
      rob_invarD(4) [OF inv] look by simp
qed

text \<open>
  A tag is stale when no entry has it and the slot it names was last allocated \<open>d\<close> generations
  after it.
\<close>

definition stale_tag :: "nat \<Rightarrow> RobTag \<Rightarrow> ReorderBuffer \<Rightarrow> bool" where
  "stale_tag d t r \<longleftrightarrow> tag_valid t \<and> unat (tag_index t) < 32
     \<and> rob_generations r ! unat (tag_index t) = tag_generation t + of_nat d
     \<and> (\<forall>e \<in> set (rob_list r). re_tag e \<noteq> t)"

lemma rob_next_tags:
  "e \<in> set (rob_next_list i r) \<Longrightarrow>
     re_tag e \<in> re_tag ` set (rob_list r) \<or> (rob_accepts i (rob_plan r) r \<and> re_tag e = next_tag r)"
proof -
  assume e: "e \<in> set (rob_next_list i r)"
  let ?m = "mark (ri_completion i) (ri_store_completion i)"
  have "set (tl (map ?m (rob_list r))) \<subseteq> set (map ?m (rob_list r))"
    by (cases "map ?m (rob_list r)") auto
  then have "e \<in> ?m ` set (rob_list r) \<or> (rob_accepts i (rob_plan r) r \<and> e = ri_issue_entry i)"
    using e by (auto simp: rob_next_list_def Let_def split: if_splits)
  then show ?thesis by (auto simp: rob_accepts_def)
qed

lemma stale_tag_step:
  assumes "rob_invar r" and "stale_tag d t r" and "Suc d < 2 ^ 32"
  shows "stale_tag d t (rob_step i r) \<or> stale_tag (Suc d) t (rob_step i r)"
proof -
  let ?i = "unat (tag_index t)" and ?a = "rob_accepts i (rob_plan r) r"
  have t: "tag_valid t" "?i < 32" "rob_generations r ! ?i = tag_generation t + of_nat d"
      "\<forall>e \<in> set (rob_list r). re_tag e \<noteq> t"
    using assms(2) by (auto simp: stale_tag_def)
  have len: "length (rob_generations r) = 32" and tail: "rob_tail r < 32"
    using rob_invarD(2,5) [OF assms(1)] by simp_all
  have idx: "(of_nat (rob_tail r) :: RobIndex) = tag_index t \<longleftrightarrow> rob_tail r = ?i"
    using tail t(2) unat_index [OF tail] by (metis unsigned_word_eqI word_unat_eq_iff)
  have new: "next_tag r = t \<Longrightarrow> rob_tail r = ?i \<and> tag_generation t = rob_generations r ! ?i + 1"
    using t(1) idx by (auto simp: next_tag_def following_generation_def no_tag_def split: if_splits)
  have "unat (of_nat (Suc d) :: TagGeneration) = Suc d"
    by (rule unat_of_nat_32) (use assms(3) in simp)
  then have ne: "(of_nat (Suc d) :: TagGeneration) \<noteq> 0" by (metis nat.simps(3) unat_0)
  have fresh: "next_tag r \<noteq> t"
  proof
    assume "next_tag r = t"
    then have "tag_generation t = tag_generation t + of_nat d + 1" using new t(3) by simp
    then have "of_nat d + 1 = (0 :: TagGeneration)" by (simp add: add.assoc)
    then show False using ne by (simp add: add.commute)
  qed
  have out: "\<forall>e \<in> set (rob_list (rob_step i r)). re_tag e \<noteq> t"
  proof
    fix e assume "e \<in> set (rob_list (rob_step i r))"
    then have "re_tag e \<in> re_tag ` set (rob_list r) \<or> re_tag e = next_tag r"
      using rob_next_tags [of e i r] by (auto simp: rob_step_facts(2) [OF assms(1)])
    then show "re_tag e \<noteq> t" using t(4) fresh by auto
  qed
  show ?thesis
  proof (cases "?a \<and> rob_tail r = ?i")
    case True
    then have "rob_generations (rob_step i r) ! ?i = tag_generation t + of_nat (Suc d)"
      using t(2,3) len by (simp add: rob_step_facts(3) [OF assms(1)] rob_next_generations_of_def)
    then show ?thesis using t out by (auto simp: stale_tag_def)
  next
    case False
    then have "rob_generations (rob_step i r) ! ?i = rob_generations r ! ?i"
      by (auto simp: rob_step_facts(3) [OF assms(1)] rob_next_generations_of_def)
    then show ?thesis using t out by (auto simp: stale_tag_def)
  qed
qed

lemma stale_tag_run:
  "rob_invar r \<Longrightarrow> stale_tag d t r \<Longrightarrow> d + length is < 2 ^ 32 \<Longrightarrow>
     \<exists>d'. stale_tag d' t (fold rob_step is r)"
proof (induction "is" arbitrary: r d)
  case (Cons i "is")
  have inv: "rob_invar (rob_step i r)" by (rule rob_step_facts [OF Cons.prems(1)])
  have "stale_tag d t (rob_step i r) \<or> stale_tag (Suc d) t (rob_step i r)"
    using Cons.prems by (intro stale_tag_step) auto
  then show ?case
    using Cons.IH [OF inv, of d] Cons.IH [OF inv, of "Suc d"] Cons.prems(3) by auto
qed auto

lemma committed_tag_stale:
  assumes "rob_invar r" and "e \<in> set (rob_list r)"
    and "re_tag e \<notin> re_tag ` set (rob_list (rob_step i r))"
  shows "stale_tag 0 (re_tag e) (rob_step i r)"
proof -
  obtain k where k: "k < rob_count r" "e = rob_list r ! k"
    using assms(2) by (auto simp: in_set_conv_nth)
  let ?j = "(rob_head r + k) mod 32"
  have t: "re_tag e = slot_tag (rob_generations r) ?j"
    using rob_list_nth(2) [OF assms(1), of k] k by simp
  have "rob_next_generations_of i r ! ?j = rob_generations r ! ?j"
  proof (cases "rob_accepts i (rob_plan r) r")
    case True
    then have "rob_count r \<noteq> 32" by (auto simp: rob_accepts_def rob_full_def rob_kCapacity_def)
    then have "rob_tail r \<noteq> ?j"
      using k(1) rob_invarD(4,5) [OF assms(1)] ring_index_inj [of "rob_head r" "rob_count r" 32 k]
      by auto
    then show ?thesis by (simp add: rob_next_generations_of_def)
  qed (simp add: rob_next_generations_of_def)
  then show ?thesis
    using assms(3) by (auto simp: stale_tag_def t rob_step_facts(3) [OF assms(1)] image_iff)
qed

text \<open>C24: a tag that has left the reorder buffer, by commit or by flush, matches nothing for at
  least \<open>2 ^ 32 - 1\<close> further cycles, whatever is issued into its slot: a late result for it is
  ignored.\<close>

theorem retired_tag_never_matches:
  assumes "e \<in> set (rob_list (fold rob_step is reorder_buffer_new))"
    and "re_tag e \<notin> re_tag ` set (rob_list (rob_step i (fold rob_step is reorder_buffer_new)))"
    and "length js < 2 ^ 32"
  shows "rob_lookup (fold rob_step js (rob_step i (fold rob_step is reorder_buffer_new))) (re_tag e) = None"
proof -
  let ?r = "fold rob_step is reorder_buffer_new"
  have inv: "rob_invar ?r" by (rule rob_invar_run [OF rob_invar_new])
  have "\<exists>d. stale_tag d (re_tag e) (fold rob_step js (rob_step i ?r))"
    by (rule stale_tag_run [OF rob_step_facts(1) [OF inv] committed_tag_stale [OF inv assms(1,2)]])
       (use assms(3) in simp)
  moreover have "rob_invar (fold rob_step js (rob_step i ?r))"
    by (rule rob_invar_run [OF rob_step_facts(1) [OF inv]])
  ultimately show ?thesis
    by (auto simp: rob_lookup_def matching_in_list stale_tag_def)
qed

theorem retired_tag_never_matches_witness:
  "\<exists>is i e. e \<in> set (rob_list (fold rob_step is reorder_buffer_new))
     \<and> rob_lookup (fold rob_step is (rob_step i (fold rob_step is reorder_buffer_new))) (re_tag e) = None"
proof -
  let ?e = "rob_entry_default\<lparr>re_tag := \<lparr>tag_index = 0, tag_generation = 1, tag_valid = True\<rparr>,
      re_ready := True, re_valid := True\<rparr>"
  let ?i = "\<lparr>ri_issue_entry = ?e, ri_issue_valid = True, ri_completion = fu_result_default,
      ri_store_completion = store_completion_default\<rparr>"
  let ?n = "?i\<lparr>ri_issue_valid := False\<rparr>"
  let ?r = reorder_buffer_new
  have l0: "rob_list ?r = []" and c0: "\<not> head_commits ?r"
    by (simp_all add: rob_list_Nil head_commits_def reorder_buffer_new_def rob_reset_def)
  have "next_tag ?r = re_tag ?e"
    by (simp add: next_tag_def rob_full_def reorder_buffer_new_def rob_reset_def rob_kCapacity_def
        following_generation_def)
  then have "rob_accepts ?i (rob_plan ?r) ?r"
    using c0 rob_plan_facts(3) [OF rob_invar_new]
    by (simp add: rob_accepts_def rob_full_def reorder_buffer_new_def rob_reset_def rob_kCapacity_def)
  then have l1: "rob_list (rob_step ?i ?r) = [?e]"
    using l0 c0 by (simp add: rob_step_facts(2) [OF rob_invar_new] rob_next_list_def)
  have inv: "rob_invar (rob_step ?i ?r)" by (rule rob_step_facts [OF rob_invar_new])
  have "rob_list (rob_step ?n (rob_step ?i ?r)) = []"
    using l1 by (simp add: rob_step_facts(2) [OF inv] rob_next_list_def rob_accepts_def
        head_commits_def head_mispredicted_def is_control_instruction_def)
  then have "rob_lookup (fold rob_step [?i] (rob_step ?n (fold rob_step [?i] ?r))) (re_tag ?e) = None"
    using l1 by (intro retired_tag_never_matches) auto
  then show ?thesis using l1 by (intro exI [of _ "[?i]"] exI [of _ ?n] exI [of _ ?e]) simp
qed

section \<open>Reservation station\<close>

definition rs_step :: "RSInputs \<Rightarrow> ReservationStation \<Rightarrow> ReservationStation" where
  "rs_step i s = rs_latch (fst (rs_apply i (rs_plan s (rsi_flush i)) s))"

text \<open>C26: a cycle of the reservation station is a cycle on the bag of waiting instructions: every
  operand waiting for the broadcast tag gets its value, the dispatched instruction leaves, the
  issued one enters, and no other is lost, duplicated or changed; a flush empties the bag.\<close>

theorem reservation_station_bag:
  assumes "rs_invar s" and "rsi_issue_valid i \<longrightarrow> rs_available s"
  shows "rs_bag (rs_step i s) =
    (if rsi_flush i then {#}
     else (image_mset (rs_wake_entry (rsi_cdb i)) (rs_bag s) - rs_dispatched i s)
       + (if rsi_issue_valid i then {#(rsi_issue_entry i)\<lparr>rse_busy := True\<rparr>#} else {#}))"
  using rs_cycle(2) [OF assms] assms(2) by (auto simp: rs_step_def rs_next_bag_def)

lemma rs_invar_new: "rs_invar reservation_station_new"
  by (simp add: rs_invar_def reservation_station_new_def rs_reset_def rs_kCapacity_def)

theorem reservation_station_bag_witness:
  "\<exists>i. rsi_issue_valid i \<and> size (rs_bag (rs_step i reservation_station_new)) = 1"
proof -
  let ?i = "\<lparr>rsi_issue_entry = rs_entry_default, rsi_issue_valid = True, rsi_cdb = msg_default,
      rsi_fu_available = True, rsi_flush = False\<rparr>"
  have b: "rs_bag reservation_station_new = {#}"
    by (simp add: rs_bag_def reservation_station_new_def rs_reset_def rs_kCapacity_def
        numeral_eq_Suc)
  have "rs_available reservation_station_new"
    by (simp add: rs_available_def rs_full_def reservation_station_new_def rs_reset_def
        rs_kCapacity_def numeral_eq_Suc)
  then have "rs_bag (rs_step ?i reservation_station_new)
      = {#} - rs_dispatched ?i reservation_station_new + {#rs_entry_default\<lparr>rse_busy := True\<rparr>#}"
    using reservation_station_bag [OF rs_invar_new, of ?i] b by simp
  then have "size (rs_bag (rs_step ?i reservation_station_new)) = 1" by simp
  moreover have "rsi_issue_valid ?i" by simp
  ultimately show ?thesis by blast
qed

text \<open>The slot that is looked at first moves past the dispatched one: no ready slot is overtaken
  for ever.\<close>

definition ready_slot :: "ReservationStation \<Rightarrow> nat \<Rightarrow> bool" where
  "ready_slot s k \<longleftrightarrow> k < rs_kCapacity \<and> rse_busy (rs_cur s ! k)
     \<and> opd_ready (rse_lhs (rs_cur s ! k)) \<and> opd_ready (rse_rhs (rs_cur s ! k))"

definition slot_distance :: "ReservationStation \<Rightarrow> nat \<Rightarrow> nat" where
  "slot_distance s k = (k + rs_kCapacity - rs_dispatch_cursor s) mod rs_kCapacity"

lemma slot_distance_reaches:
  assumes "rs_invar s" and "k < rs_kCapacity"
  shows "(rs_dispatch_cursor s + slot_distance s k) mod rs_kCapacity = k"
    and "slot_distance s k < rs_kCapacity"
  using assms by (simp_all add: rs_invar_def slot_distance_def mod_add_right_eq rs_kCapacity_def)

lemma select_ready_slot:
  assumes "rs_invar s" and "ready_slot s k"
  shows "\<exists>d \<le> slot_distance s k. select_ready_index s = (rs_dispatch_cursor s + d) mod rs_kCapacity"
proof -
  let ?P = "\<lambda>offset. let entry = rs_cur s ! ((rs_dispatch_cursor s + offset) mod rs_kCapacity)
        in rse_busy entry \<and> opd_ready (rse_lhs entry) \<and> opd_ready (rse_rhs entry)"
  let ?d = "slot_distance s k"
  have k: "k < rs_kCapacity" using assms(2) by (simp add: ready_slot_def)
  note r = slot_distance_reaches [OF assms(1) k]
  have P: "?P ?d" using assms(2) by (simp add: ready_slot_def r(1) Let_def)
  obtain d where d: "List.find ?P [0..<rs_kCapacity] = Some d"
    using P r(2) by (cases "List.find ?P [0..<rs_kCapacity]") (auto simp: List.find_None_iff)
  then obtain i where i: "i < rs_kCapacity" "d = i" "\<And>j. j < i \<Longrightarrow> \<not> ?P j"
    by (auto simp: List.find_Some_iff)
  have "d \<le> ?d" using i(2,3) P by (meson not_le_imp_less)
  then show ?thesis using d by (auto simp: select_ready_index_def)
qed

lemma rs_step_keeps:
  assumes "rs_invar s" and "ready_slot s k" and "\<not> rsi_flush i"
    and "rsi_issue_valid i \<longrightarrow> rs_available s" and "rsi_fu_available i \<longrightarrow> select_ready_index s \<noteq> k"
  shows "rs_cur (rs_step i s) ! k = rs_cur s ! k" and "ready_slot (rs_step i s) k"
    and "rs_invar (rs_step i s)"
    and "\<not> rsi_fu_available i \<Longrightarrow> slot_distance (rs_step i s) k = slot_distance s k"
proof -
  have k: "k < rs_kCapacity" "rse_busy (rs_cur s ! k)" and len: "length (rs_cur s) = rs_kCapacity"
    using assms(1,2) by (simp_all add: ready_slot_def rs_invar_def)
  have wake: "rs_wake_entry m (rs_cur s ! k) = rs_cur s ! k" for m
    using assms(2) by (intro wake_ready_entry) (simp_all add: ready_slot_def)
  have freed: "rs_freed i s ! k = rs_cur s ! k" "length (rs_freed i s) = rs_kCapacity"
    using k len assms(5) wake by (auto simp: rs_freed_def Let_def)
  have other: "find_free_index (rs_freed i s) \<noteq> k" if "rsi_issue_valid i"
    using rs_freed_slot(2) [OF assms(1), of i] assms(4) that freed(1) k(2) by auto
  note eq = rs_apply_eq [OF assms(1,3,4)]
  show same: "rs_cur (rs_step i s) ! k = rs_cur s ! k"
    using eq assms(3) freed(1) other by (simp add: rs_step_def rs_latch_def)
  show "rs_invar (rs_step i s)"
    unfolding rs_step_def by (rule rs_cycle(1) [OF assms(1,4)])
  show "ready_slot (rs_step i s) k"
    using assms(2) by (simp add: ready_slot_def same)
  show "slot_distance (rs_step i s) k = slot_distance s k" if "\<not> rsi_fu_available i"
    using eq assms(3) that by (simp add: slot_distance_def rs_step_def rs_latch_def)
qed

lemma rs_step_slot:
  assumes "rs_invar s" and "ready_slot s k" and "\<not> rsi_flush i" and "rsi_fu_available i"
    and "rsi_issue_valid i \<longrightarrow> rs_available s" and "select_ready_index s \<noteq> k"
  shows "rs_cur (rs_step i s) ! k = rs_cur s ! k" and "ready_slot (rs_step i s) k"
    and "rs_invar (rs_step i s)" and "slot_distance (rs_step i s) k < slot_distance s k"
proof -
  have k: "k < rs_kCapacity"
    using assms(2) by (simp_all add: ready_slot_def)
  obtain d where d: "d \<le> slot_distance s k"
      "select_ready_index s = (rs_dispatch_cursor s + d) mod rs_kCapacity"
    using select_ready_slot [OF assms(1,2)] by blast
  have sel: "select_ready_index s \<noteq> rs_kInvalidIndex"
    using d(2) by (simp add: rs_kInvalidIndex_def rs_kCapacity_def)
  note keeps = rs_step_keeps [OF assms(1-3,5)]
  show "rs_cur (rs_step i s) ! k = rs_cur s ! k" "ready_slot (rs_step i s) k" "rs_invar (rs_step i s)"
    using keeps(1-3) assms(6) by simp_all
  note eq = rs_apply_eq [OF assms(1,3,5)]
  have "rs_dispatch_cursor (rs_step i s) = (select_ready_index s + 1) mod rs_kCapacity"
    using eq assms(3,4) sel by (simp add: rs_step_def rs_latch_def)
  then have c: "rs_dispatch_cursor (rs_step i s) = (rs_dispatch_cursor s + (d + 1)) mod 16"
    by (simp add: d(2) rs_kCapacity_def mod_simps)
  have "d \<noteq> slot_distance s k"
    using assms(6) d(2) slot_distance_reaches(1) [OF assms(1) k] by auto
  then have lt: "d < slot_distance s k" using d(1) by simp
  have D: "slot_distance s k < 16" using slot_distance_reaches(2) [OF assms(1) k]
    by (simp add: rs_kCapacity_def)
  have "slot_distance (rs_step i s) k = slot_distance s k - (d + 1)"
  proof -
    have kk: "k = (rs_dispatch_cursor s + slot_distance s k) mod 16"
      using slot_distance_reaches(1) [OF assms(1) k] by (simp add: rs_kCapacity_def)
    have "(rs_dispatch_cursor (rs_step i s) + (slot_distance s k - (d + 1))) mod 16 = k"
    proof -
      have "(rs_dispatch_cursor (rs_step i s) + (slot_distance s k - (d + 1))) mod 16
          = (rs_dispatch_cursor s + (d + 1) + (slot_distance s k - (d + 1))) mod 16"
        by (simp only: c mod_add_left_eq)
      also have "rs_dispatch_cursor s + (d + 1) + (slot_distance s k - (d + 1))
          = rs_dispatch_cursor s + slot_distance s k" using lt by simp
      finally show ?thesis using kk by simp
    qed
    moreover have "(rs_dispatch_cursor (rs_step i s) + slot_distance (rs_step i s) k) mod 16 = k"
      using slot_distance_reaches(1) [OF _ k, of "rs_step i s"] rs_cycle(1) [OF assms(1,5)]
      by (simp add: rs_step_def rs_kCapacity_def)
    moreover have "slot_distance (rs_step i s) k < 16"
      by (simp add: slot_distance_def rs_kCapacity_def)
    ultimately show ?thesis
      using ring_index_inj [of "rs_dispatch_cursor (rs_step i s)" "slot_distance s k - (d + 1)" 16
          "slot_distance (rs_step i s) k"] D by simp
  qed
  then show "slot_distance (rs_step i s) k < slot_distance s k" using lt by simp
qed

definition unflushed :: "RSInputs list \<Rightarrow> ReservationStation \<Rightarrow> bool" where
  "unflushed is s \<longleftrightarrow> (\<forall>n < length is. \<not> rsi_flush (is ! n)
     \<and> (rsi_issue_valid (is ! n) \<longrightarrow> rs_available (fold rs_step (take n is) s)))"

lemma unflushed_Cons:
  "unflushed (i # is) s \<longleftrightarrow> \<not> rsi_flush i \<and> (rsi_issue_valid i \<longrightarrow> rs_available s) \<and> unflushed is (rs_step i s)"
  by (auto simp: unflushed_def nth_Cons take_Cons' split: nat.splits)

text \<open>The number of cycles in which the integer unit takes an instruction.\<close>

definition acceptances :: "RSInputs list \<Rightarrow> nat" where
  "acceptances is = length (filter rsi_fu_available is)"

lemma dispatched_within:
  "rs_invar s \<Longrightarrow> ready_slot s k \<Longrightarrow> unflushed is s \<Longrightarrow> slot_distance s k < acceptances is \<Longrightarrow>
   \<exists>n < length is. rsi_fu_available (is ! n) \<and> acceptances (take n is) \<le> slot_distance s k
     \<and> select_ready_index (fold rs_step (take n is) s) = k
     \<and> rs_cur (fold rs_step (take n is) s) ! k = rs_cur s ! k"
proof (induction "is" arbitrary: s)
  case (Cons i "is")
  note f = Cons.prems(3) [unfolded unflushed_Cons]
  show ?case
  proof (cases "rsi_fu_available i \<and> select_ready_index s = k")
    case True
    then show ?thesis by (intro exI [of _ 0]) (simp add: acceptances_def)
  next
    case False
    then have other: "rsi_fu_available i \<longrightarrow> select_ready_index s \<noteq> k" by blast
    have nf: "\<not> rsi_flush i" and room: "rsi_issue_valid i \<longrightarrow> rs_available s" using f by simp_all
    note keep = rs_step_keeps [OF Cons.prems(1,2) nf room other]
    have nearer: "(if rsi_fu_available i then 1 else 0) + slot_distance (rs_step i s) k \<le> slot_distance s k"
      using rs_step_slot(4) [OF Cons.prems(1,2) nf _ room] keep(4) other by (cases "rsi_fu_available i") auto
    then have "slot_distance (rs_step i s) k < acceptances is"
      using Cons.prems(4) by (auto simp: acceptances_def split: if_splits)
    then obtain n where n: "n < length is" "rsi_fu_available (is ! n)"
        "acceptances (take n is) \<le> slot_distance (rs_step i s) k"
        "select_ready_index (fold rs_step (take n is) (rs_step i s)) = k"
        "rs_cur (fold rs_step (take n is) (rs_step i s)) ! k = rs_cur (rs_step i s) ! k"
      using Cons.IH [OF keep(3,2)] f by blast
    then show ?thesis
      using keep(1) nearer by (intro exI [of _ "Suc n"]) (auto simp: acceptances_def split: if_splits)
  qed
qed (simp add: acceptances_def)

text \<open>C25: round robin: as long as nothing is flushed, an instruction whose operands are ready is
  dispatched at the latest when the integer unit takes an instruction for the sixteenth time: there
  is a cycle in which the unit takes an instruction, fewer than sixteen were taken before, and the
  selected slot is this one, its content unchanged, whatever else is ready or issued meanwhile.\<close>

theorem ready_instruction_dispatched:
  assumes "rs_invar s" and "ready_slot s k" and "unflushed is s" and "16 \<le> acceptances is"
  shows "\<exists>n < length is. rsi_fu_available (is ! n) \<and> acceptances (take n is) < 16
     \<and> select_ready_index (fold rs_step (take n is) s) = k
     \<and> rs_cur (fold rs_step (take n is) s) ! k = rs_cur s ! k"
proof -
  have d: "slot_distance s k < 16" by (simp add: slot_distance_def rs_kCapacity_def)
  then obtain n where "n < length is" "rsi_fu_available (is ! n)" "acceptances (take n is) \<le> slot_distance s k"
      "select_ready_index (fold rs_step (take n is) s) = k"
      "rs_cur (fold rs_step (take n is) s) ! k = rs_cur s ! k"
    using dispatched_within [OF assms(1-3)] assms(4) by auto
  with d show ?thesis by (intro exI [of _ n]) simp
qed

theorem ready_instruction_dispatched_witness:
  "\<exists>s is. ready_slot s 3 \<and> (\<exists>n < 20. rsi_fu_available (is ! n) \<and> select_ready_index (fold rs_step (take n is) s) = 3)"
proof -
  let ?e = "rs_entry_default\<lparr>rse_lhs := operand_default\<lparr>opd_ready := True\<rparr>,
      rse_rhs := operand_default\<lparr>opd_ready := True\<rparr>, rse_busy := True\<rparr>"
  let ?s = "reservation_station_new\<lparr>rs_cur := (rs_cur reservation_station_new)[3 := ?e]\<rparr>"
  let ?in = "\<lambda>taken. \<lparr>rsi_issue_entry = rs_entry_default, rsi_issue_valid = False,
      rsi_cdb = msg_default, rsi_fu_available = taken, rsi_flush = False\<rparr>"
  let ?is = "replicate 4 (?in False) @ replicate 16 (?in True)"
  have "rs_invar ?s" using rs_invar_new by (simp add: rs_invar_def)
  moreover have r: "ready_slot ?s 3"
    by (simp add: ready_slot_def reservation_station_new_def rs_reset_def rs_kCapacity_def)
  moreover have "unflushed ?is ?s" by (simp add: unflushed_def nth_append)
  moreover have "acceptances ?is = 16" by (simp add: acceptances_def)
  moreover have "length ?is = 20" by simp
  ultimately have "\<exists>n < 20. rsi_fu_available (?is ! n) \<and> select_ready_index (fold rs_step (take n ?is) ?s) = 3"
    using ready_instruction_dispatched [of ?s 3 ?is] by (metis order_refl)
  then show ?thesis using r by blast
qed

end
