(* ===== verification/AccessPaths.thy ===== *)
theory AccessPaths
  imports LsqCorrect MemoryCorrect IssueCorrect Arithmetic DecodeWf
begin

text \<open>
  The paths of values into and out of the core: from a load or store in the queue through the
  memory unit, against the accesses of the sequential semantics, and from the register file, the
  rename table and the reorder buffer into the operands of an issued instruction.
\<close>

section \<open>Loads and stores\<close>

lemma zero_extend_narrow:
  "zero_extend (ucast (b :: Byte)) 8 = ucast b" "zero_extend (ucast (h :: HalfWord)) 16 = ucast h"
  by (rule bit_word_eqI, auto simp: zero_extend_take_bit bit_simps dest: bit_imp_le_length)+

lemma loaded_value:
  assumes "load_op opr"
  shows "isa_load opr m a =
     (if snd (read_data m a (memory_width opr))
      then Some (extend_load_result opr (fst (read_data m a (memory_width opr)))) else None)"
  using assms
  by (cases opr)
     (simp_all add: load_op_def sign_extend_byte sign_extend_half zero_extend_narrow
        split: option.split)

lemma stored_image:
  assumes "store_op opr"
  shows "isa_store opr m a v =
     (if in_bounds a (width_in_bytes (memory_width opr))
      then Some (fst (apply_store_write \<lparr>sw_address = a, sw_value = v,
             sw_width = memory_width opr, sw_valid = True\<rparr> m)) else None)"
  using assms mem8.put_ok [of m a] mem16.put_ok [of m a] mem32.put_ok [of m a]
  by (cases opr)
     (simp_all add: store_op_def apply_store_write_def ucast_and_byte ucast_and_half in_bounds_iff
        split: if_splits)

lemma memory_width_ok: "load_op opr \<or> store_op opr \<Longrightarrow> memory_width_asserts opr"
  by (auto simp: load_op_def store_op_def memory_width_asserts_def)

lemma extend_load_ok: "load_op opr \<Longrightarrow> extend_load_asserts opr"
  by (auto simp: load_op_def extend_load_asserts_def)

section \<open>Operands of an issued instruction\<close>

definition source_right :: "(RobTag \<Rightarrow> Word \<Rightarrow> bool) \<Rightarrow> Word \<Rightarrow> SourceState \<Rightarrow> bool" where
  "source_right results v src \<longleftrightarrow>
     (if \<not> tag_valid (ss_producer src) then ss_architectural_value src = v
      else if ss_producer_ready src then ss_producer_value src = v
      else results (ss_producer src) v)"

text \<open>
  A broadcast of the tag is taken before the reorder buffer's value: it must be right for a producer
  that has already finished, too.
\<close>

lemma resolve_right:
  assumes "if idx = 0 then v = 0 else source_right results v src"
    and "broadcast_right results m"
    and "msg_valid m \<Longrightarrow> msg_tag m = ss_producer src \<Longrightarrow> ss_producer_ready src \<Longrightarrow> msg_value m = v"
    and "\<And>t v. results t v \<Longrightarrow> \<not> (msg_valid m \<and> tag_valid t \<and> msg_tag m = t) \<Longrightarrow> results' t v"
  shows "operand_for results' v (resolve_register idx src m)"
proof (cases "idx = 0 \<or> \<not> tag_valid (ss_producer src)")
  case True
  then show ?thesis
    using assms(1)
    by (auto simp: resolve_register_def source_right_def operand_for_def ready_operand_def
        operand_default_def)
next
  case False
  then have src: "source_right results v src" using assms(1) by simp
  show ?thesis
  proof (cases "msg_valid m \<and> tag_valid (msg_tag m) \<and> msg_tag m = ss_producer src")
    case True
    then have "msg_value m = v"
      using src assms(2,3) False by (auto simp: source_right_def broadcast_right_def split: if_splits)
    then show ?thesis
      using False True by (simp add: resolve_register_def operand_for_def ready_operand_def)
  next
    case no: False
    have "\<not> (msg_valid m \<and> tag_valid (ss_producer src) \<and> msg_tag m = ss_producer src)"
      using no by auto
    then have "results (ss_producer src) v \<Longrightarrow> results' (ss_producer src) v"
      by (rule assms(4) [rotated])
    then show ?thesis
      using src False no
      by (auto simp: resolve_register_def source_right_def operand_for_def ready_operand_def
          operand_default_def)
  qed
qed

section \<open>Properties\<close>

text \<open>C28: the load path: what the load/store queue installs for a load is the value of the sequential
  load, sign- or zero-extended, and the memory unit's success flag is whether that load succeeds.\<close>

theorem load_path_correct:
  assumes "load_op (di_op (decode w))"
  shows "isa_load (di_op (decode w)) m a =
    (let r = response_to \<lparr>rq_type = LOAD, rq_width = memory_width (di_op (decode w)), rq_address = a,
                 rq_value = 0, rq_tag = t, rq_valid = True\<rparr> m
     in if rsp_success r then Some (extend_load_result (di_op (decode w)) (rsp_value r)) else None)"
  using loaded_value [OF assms, of m a] read_data_success [of m a "memory_width (di_op (decode w))"]
  by (simp add: response_to_def)

theorem load_path_correct_witness:
  "di_op (decode 0x00058503) = OP_LB
   \<and> isa_load (di_op (decode 0x00058503))
       \<lparr>bytes = (\<lambda>_. 0xF0), load_byte_count = 0, highest_loaded_address = None\<rparr> 8 = Some 0xFFFFFFF0"
proof
  show opr: "di_op (decode 0x00058503) = OP_LB" by code_simp
  let ?m = "\<lparr>bytes = (\<lambda>_. 0xF0), load_byte_count = 0, highest_loaded_address = None\<rparr>"
  have "load_op (di_op (decode 0x00058503))" by (simp add: opr load_op_def)
  note p = load_path_correct [OF this, of ?m 8 no_tag, unfolded opr]
  have "fst (read_data ?m 8 BYTE) = 0xF0" "in_bounds 8 1"
    by (simp_all add: read_byte_def in_bounds_iff)
  moreover have "sign_extend (0xF0 :: Word) 8 = 0xFFFFFFF0" by code_simp
  ultimately show "isa_load (di_op (decode 0x00058503)) ?m 8 = Some 0xFFFFFFF0"
    unfolding opr using p by (simp add: response_to_def Let_def)
qed

text \<open>C29: the store path: what the memory unit writes for a store is the memory of the sequential
  store at every width, and an out-of-bounds store is reported and writes nothing.\<close>

theorem store_path_correct:
  assumes "store_op (di_op (decode w))"
  shows "let q = \<lparr>rq_type = STORE, rq_width = memory_width (di_op (decode w)), rq_address = a,
                 rq_value = v, rq_tag = t, rq_valid = True\<rparr>
     in (if rsp_success (response_to q m) then isa_store (di_op (decode w)) m a v = Some (memory_after q m)
         else isa_store (di_op (decode w)) m a v = None \<and> memory_after q m = m)"
  using stored_image [OF assms, of m a v]
    store_out_of_bounds [of "\<lparr>sw_address = a, sw_value = v, sw_width = memory_width (di_op (decode w)),
      sw_valid = True\<rparr>" m]
  by (simp add: response_to_def memory_after_def)

theorem store_path_correct_witness:
  "di_op (decode 0x00b50023) = OP_SB
   \<and> (\<forall>m. isa_store (di_op (decode 0x00b50023)) m 0x100000 1 = None)"
proof (intro conjI allI)
  show opr: "di_op (decode 0x00b50023) = OP_SB" by code_simp
  fix m :: MemoryImage
  have "store_op (di_op (decode 0x00b50023))" by (simp add: opr store_op_def)
  note p = store_path_correct [OF this, of "0x100000" 1 no_tag m, unfolded opr Let_def]
  have "\<not> in_bounds 0x100000 1" by (simp add: in_bounds_iff)
  then show "isa_store (di_op (decode 0x00b50023)) m 0x100000 1 = None"
    unfolding opr using p by (simp add: response_to_def)
qed

text \<open>C30: the issue unit issues all or nothing: it refuses with the reason of the first failed check
  and writes nowhere, or it writes the reorder buffer, exactly one of the reservation station and
  the load/store queue (neither for the halt instruction), and the rename table exactly for
  instructions with a destination.\<close>

theorem issue_all_or_nothing:
  "if can_issue i
   then io_status (issue_plan i) = Issued \<and> io_write_rob (issue_plan i)
     \<and> io_write_lsq (issue_plan i) = needs_lsq (dp_decoded (ii_packet i))
     \<and> io_write_rs (issue_plan i) = needs_rs (dp_decoded (ii_packet i))
     \<and> \<not> (io_write_lsq (issue_plan i) \<and> io_write_rs (issue_plan i))
     \<and> re_tag (io_rob_entry (issue_plan i)) = ii_allocated_tag i
     \<and> ru_valid (io_rename (issue_plan i)) = re_writes_rd (io_rob_entry (issue_plan i))
   else io_status (issue_plan i) = refusal i \<and> refusal i \<noteq> Issued \<and> \<not> io_write_rob (issue_plan i)
     \<and> \<not> io_write_lsq (issue_plan i) \<and> \<not> io_write_rs (issue_plan i) \<and> \<not> ru_valid (io_rename (issue_plan i))"
  by (simp add: issue_plan_eq issue_result_def issue_outputs_default_def refusal_def needs_rs_def
      rename_default_def issue_rob_entry_def Let_def)

text \<open>C31: operand resolution: whenever the committed register, the reorder buffer's value or the
  producer's announced result is the operand's value, and the broadcast carries right results, the
  operand handed to the reservation station is ready with that value or waits for its producer.  It
  is ready exactly when the value is available now, in the register file, in the reorder buffer or
  on the bus in this very cycle, so that an operand never waits for a result that has passed.\<close>

theorem operand_resolution_correct:
  assumes "if idx = 0 then v = 0 else source_right results v src"
    and "broadcast_right results m"
    and "msg_tag m = ss_producer src \<longrightarrow> ss_producer_ready src \<longrightarrow> msg_value m = v"
  shows "operand_for results v (resolve_register idx src m)
    \<and> (opd_ready (resolve_register idx src m) \<longleftrightarrow>
         idx = 0 \<or> \<not> tag_valid (ss_producer src) \<or> ss_producer_ready src
         \<or> msg_valid m \<and> msg_tag m = ss_producer src)
    \<and> (\<not> opd_ready (resolve_register idx src m) \<longrightarrow> opd_tag (resolve_register idx src m) = ss_producer src)"
proof -
  have "operand_for results v (resolve_register idx src m)"
    using assms by (intro resolve_right [where results = results]) auto
  then show ?thesis by (auto simp: resolve_register_def ready_operand_def operand_default_def)
qed

theorem operand_resolution_correct_witness:
  "\<exists>src m. tag_valid (ss_producer src) \<and> \<not> ss_producer_ready src \<and> msg_valid m
    \<and> opd_value (resolve_register 5 src m) = 42 \<and> opd_ready (resolve_register 5 src m)"
proof -
  let ?t = "\<lparr>tag_index = 2, tag_generation = 1, tag_valid = True\<rparr>"
  let ?src = "source_default\<lparr>ss_producer := ?t\<rparr>"
  let ?m = "\<lparr>msg_tag = ?t, msg_value = 42, msg_valid = True\<rparr>"
  have "operand_for (\<lambda>t v. v = 42) 42 (resolve_register 5 ?src ?m)"
    by (rule operand_resolution_correct [THEN conjunct1])
       (simp_all add: source_right_def broadcast_right_def source_default_def)
  moreover have "opd_ready (resolve_register 5 ?src ?m)"
    by (simp add: resolve_register_def ready_operand_def)
  ultimately have "tag_valid (ss_producer ?src) \<and> \<not> ss_producer_ready ?src \<and> msg_valid ?m
    \<and> opd_value (resolve_register 5 ?src ?m) = 42 \<and> opd_ready (resolve_register 5 ?src ?m)"
    by (simp add: operand_for_def source_default_def)
  then show ?thesis by blast
qed

end
