(* ===== verification/Cpu.thy ===== *)
theory Cpu
  imports Decoder IssueUnit RegisterFile RenameTable CommonDataBus BranchPredictor FunctionalUnit
begin

text \<open>
  \<open>tomasulo/cpu.cpp\<close>: the clock cycle that connects the modules.  A cycle observes the current
  states (phase A), lets four modules plan (phase B), applies the frozen inputs to the next states
  of nine modules (phase C) and latches them (phase D).  The order of the modules inside the
  phases B, C and D is taken from tables that the constructor shuffles.
\<close>

datatype CpuStatus =
    CpuNotLoaded | CpuRunning | CpuHalted | CpuLoadError | CpuFetchOutOfBound
  | CpuInvalidInstruction | CpuMemoryOutOfBound | CpuInternalError

record RunResult =
  rr_status :: CpuStatus
  rr_value :: Word

text \<open>\<open>static_cast<int>\<close> of a status.\<close>

fun status_code :: "CpuStatus \<Rightarrow> nat" where
  "status_code CpuNotLoaded = 0" | "status_code CpuRunning = 1" | "status_code CpuHalted = 2"
| "status_code CpuLoadError = 3" | "status_code CpuFetchOutOfBound = 4"
| "status_code CpuInvalidInstruction = 5" | "status_code CpuMemoryOutOfBound = 6"
| "status_code CpuInternalError = 7"

definition rr_halted :: "RunResult \<Rightarrow> bool" where
  "rr_halted r \<longleftrightarrow> rr_status r = CpuHalted"

definition rr_failed :: "RunResult \<Rightarrow> bool" where
  "rr_failed r \<longleftrightarrow> rr_status r \<noteq> CpuRunning \<and> rr_status r \<noteq> CpuHalted"

record ROBPreview =
  pv_store_request :: StoreCommitRequest
  pv_flush :: bool
  pv_redirect_pc :: Address

definition preview_default :: ROBPreview where [default_defs]:
  "preview_default = \<lparr>pv_store_request = store_request_default, pv_flush = False, pv_redirect_pc = 0\<rparr>"

record CPU =
  memory_unit :: MemoryUnit
  register_file :: RegisterFile
  rename_table :: RenameTable
  rob :: ReorderBuffer
  reservation_station :: ReservationStation
  load_store_queue :: LoadStoreQueue
  functional_unit :: FunctionalUnit
  common_data_bus :: CommonDataBus
  branch_predictor :: BranchPredictor
  current_pc :: Address
  next_pc :: Address
  fetch_stopped :: bool
  next_fetch_stopped :: bool
  cpu_status :: CpuStatus
  cycle_count :: CycleCount
  committed_count :: CycleCount
  exit_code :: Word
  plan_orders :: "nat list list"
  apply_orders :: "nat list list"
  latch_orders :: "nat list list"

definition kOrderVariantCount :: nat where
  "kOrderVariantCount = 64"

section \<open>Construction and loading\<close>

text \<open>
  \<open>std::shuffle\<close> and \<open>std::mt19937\<close> are the parameter \<open>shuffle\<close>: a permutation of the list and the
  engine after it.  The engine is not used again after the constructor.
\<close>

definition shuffle_orders ::
  "('e \<Rightarrow> nat list \<Rightarrow> nat list \<times> 'e) \<Rightarrow> 'e
   \<Rightarrow> (nat list \<times> nat list \<times> nat list) \<times> 'e" where
  "shuffle_orders shuffle random_engine =
     (let base_plan = [0, 1, 2, 3];
          base_apply = [0, 1, 2, 3, 4, 5, 6, 7, 8];
          base_latch = [0, 1, 2, 3, 4, 5, 6, 7, 8];
          (p, e1) = shuffle random_engine base_plan;
          (a, e2) = shuffle e1 base_apply;
          (l, e3) = shuffle e2 base_latch
      in ((p, a, l), e3))"

fun execution_orders ::
  "('e \<Rightarrow> nat list \<Rightarrow> nat list \<times> 'e) \<Rightarrow> nat \<Rightarrow> 'e
   \<Rightarrow> (nat list \<times> nat list \<times> nat list) list" where
  "execution_orders shuffle 0 e = []"
| "execution_orders shuffle (Suc n) e =
     (let (orders, e') = shuffle_orders shuffle e in orders # execution_orders shuffle n e')"

definition initialize_execution_orders ::
  "('e \<Rightarrow> nat list \<Rightarrow> nat list \<times> 'e) \<Rightarrow> 'e \<Rightarrow> CPU \<Rightarrow> CPU" where
  "initialize_execution_orders shuffle e c =
     (let orders = execution_orders shuffle kOrderVariantCount e
      in c\<lparr>plan_orders := map fst orders,
           apply_orders := map (fst \<circ> snd) orders,
           latch_orders := map (snd \<circ> snd) orders\<rparr>)"

definition cpu_new :: "('e \<Rightarrow> nat list \<Rightarrow> nat list \<times> 'e) \<Rightarrow> 'e \<Rightarrow> CPU" where
  "cpu_new shuffle e = initialize_execution_orders shuffle e
     \<lparr>memory_unit = memory_unit_new, register_file = register_file_new,
      rename_table = rename_table_new, rob = reorder_buffer_new,
      reservation_station = reservation_station_new, load_store_queue = load_store_queue_new,
      functional_unit = functional_unit_new, common_data_bus = common_data_bus_new,
      branch_predictor = branch_predictor_new, current_pc = 0, next_pc = 0,
      fetch_stopped = False, next_fetch_stopped = False, cpu_status = CpuNotLoaded,
      cycle_count = 0, committed_count = 0, exit_code = 0,
      plan_orders = [], apply_orders = [], latch_orders = []\<rparr>"

definition cpu_load :: "istream \<Rightarrow> CPU \<Rightarrow> ImageLoadResult \<times> CPU" where
  "cpu_load inputs c =
     (let c = c\<lparr>register_file := register_file_reset (register_file c),
               rename_table := rat_reset (rename_table c),
               rob := rob_reset (rob c),
               reservation_station := rs_reset (reservation_station c),
               load_store_queue := lsq_reset (load_store_queue c),
               functional_unit := fu_reset (functional_unit c),
               common_data_bus := cdb_reset (common_data_bus c),
               branch_predictor := bp_reset (branch_predictor c),
               memory_unit := memory_reset (memory_unit c),
               current_pc := 0, next_pc := 0,
               fetch_stopped := False, next_fetch_stopped := False,
               cycle_count := 0, committed_count := 0, exit_code := 0\<rparr>;
          (result, m) = memory_load inputs (memory_unit c)
      in (result, c\<lparr>memory_unit := m,
                    cpu_status := (if load_ok result then CpuRunning else CpuLoadError)\<rparr>))"

section \<open>Observation\<close>

definition cpu_pc :: "CPU \<Rightarrow> Address" where
  "cpu_pc c = current_pc c"

definition branch_count :: "CPU \<Rightarrow> CycleCount" where
  "branch_count c = prediction_count (branch_predictor c)"

definition correct_branch_count :: "CPU \<Rightarrow> CycleCount" where
  "correct_branch_count c = correct_count (branch_predictor c)"

definition branch_accuracy :: "CPU \<Rightarrow> double" where
  "branch_accuracy c = accuracy (branch_predictor c)"

definition cpu_register_value :: "CPU \<Rightarrow> RegisterIndex \<Rightarrow> Word" where
  "cpu_register_value c index = rf_read (register_file c) index"

definition preview_rob :: "CPU \<Rightarrow> ROBPreview" where
  "preview_rob c =
     (let preview = preview_default
      in case rob_front (rob c) of
           None \<Rightarrow> preview
         | Some head \<Rightarrow>
             let preview = (if re_is_store head \<and> \<not> re_ready head
                            then preview\<lparr>pv_store_request :=
                                   \<lparr>scr_tag = re_tag head, scr_valid = True\<rparr>\<rparr>
                            else preview);
                 is_control = (re_is_branch head \<or> re_is_jump head)
             in if is_control \<and> re_ready head then
                  let preview = preview\<lparr>pv_flush :=
                        (re_predicted_next_pc head \<noteq> re_actual_next_pc head)\<rparr>
                  in if pv_flush preview
                     then preview\<lparr>pv_redirect_pc := re_actual_next_pc head\<rparr> else preview
                else preview)"

text \<open>The predicted next address, and the reference argument \<open>predicted_taken\<close>.\<close>

definition predicted_next_pc :: "CPU \<Rightarrow> DecodedInstruction \<Rightarrow> Address \<Rightarrow> Address \<times> bool" where
  "predicted_next_pc c instruction pc =
     (let sequential = pc + of_nat kInstructionWidth
      in if di_is_branch instruction then
           let predicted_taken = predict_taken (branch_predictor c) pc
           in (if predicted_taken then pc + di_immediate instruction else sequential,
               predicted_taken)
         else if di_op instruction = OP_JAL then (pc + di_immediate instruction, True)
         else if di_op instruction = OP_JALR then (sequential, False)
         else (sequential, False))"

text \<open>The packet, and the reference argument \<open>fetch_error\<close>.\<close>

definition fetchAndDecoded :: "CPU \<Rightarrow> DecodePacket \<times> bool" where
  "fetchAndDecoded c =
     (let request = \<lparr>frq_pc = current_pc c, frq_valid = True\<rparr>;
          response = memory_fetch (memory_unit c) request
      in if \<not> frsp_valid response \<or> \<not> frsp_success response then (packet_default, True)
         else
           let decoded = decode (frsp_instruction response);
               (predicted_pc, predicted_taken) = predicted_next_pc c decoded (frsp_pc response)
           in (packet_default\<lparr>dp_instruction := frsp_instruction response,
                 dp_pc := frsp_pc response, dp_decoded := decoded,
                 dp_predicted_pc := predicted_pc, dp_predicted_taken := predicted_taken,
                 dp_valid := True\<rparr>, False))"

definition source_state :: "CPU \<Rightarrow> RegisterIndex \<Rightarrow> SourceState" where
  "source_state c reg =
     (let source = source_default
      in if reg = 0 then source\<lparr>ss_architectural_value := 0\<rparr>
         else
           let source = source\<lparr>ss_architectural_value := rf_read (register_file c) reg,
                               ss_producer := rat_lookup (rename_table c) reg\<rparr>
           in if \<not> tag_valid (ss_producer source) then source
              else case rob_lookup (rob c) (ss_producer source) of
                     Some producer \<Rightarrow>
                       if re_ready producer
                       then source\<lparr>ss_producer_ready := True,
                                   ss_producer_value := re_value producer\<rparr>
                       else source
                   | None \<Rightarrow> source)"

section \<open>Phase A: the combinational wires\<close>

record CycleView =
  cv_preview :: ROBPreview
  cv_cdb_decision :: CDBDecision
  cv_lsq_observe :: LSQObserveInputs

definition cycle_view :: "CPU \<Rightarrow> CycleView" where
  "cycle_view c =
     (let preview = preview_rob c;
          cdb_inputs =
            (if \<not> pv_flush preview
             then \<lparr>ci_integer_result = fu_result (functional_unit c),
                   ci_load_result = load_result (load_store_queue c)\<rparr>
             else cdb_inputs_default);
          cdb_decision = cdb_plan (common_data_bus c) cdb_inputs
      in \<lparr>cv_preview = preview, cv_cdb_decision = cdb_decision,
          cv_lsq_observe =
            \<lparr>lob_store_request = pv_store_request preview,
             lob_memory_response = data_response (memory_unit c),
             lob_memory_available = data_port_available (memory_unit c),
             lob_load_result_granted = co_load_granted (cd_outputs cdb_decision),
             lob_flush = pv_flush preview\<rparr>\<rparr>)"

abbreviation cv_flush :: "CycleView \<Rightarrow> bool" where
  "cv_flush v \<equiv> pv_flush (cv_preview v)"

abbreviation cv_cdb :: "CycleView \<Rightarrow> CDBOutputs" where
  "cv_cdb v \<equiv> cd_outputs (cv_cdb_decision v)"

section \<open>Phase B: planning\<close>

text \<open>The local variables that the planning loop assigns.\<close>

record PlanWires =
  pw_issue_outputs :: IssueOutputs
  pw_rob_decision :: ROBDecision
  pw_rs_decision :: RSDecision
  pw_lsq_decision :: LSQDecision
  pw_fetch_error :: bool
  pw_asserts :: bool

definition plan_wires_default :: PlanWires where
  "plan_wires_default = \<lparr>pw_issue_outputs = issue_outputs_default,
     pw_rob_decision = rob_outputs_default, pw_rs_decision = rs_decision_default,
     pw_lsq_decision = lsq_decision_default, pw_fetch_error = False, pw_asserts = True\<rparr>"

definition issue_inputs_of :: "CPU \<Rightarrow> CycleView \<Rightarrow> DecodePacket \<Rightarrow> IssueInputs" where
  "issue_inputs_of c v packet =
     \<lparr>ii_packet = packet, ii_allocated_tag = next_tag (rob c),
      ii_rs1 = source_state c (di_rs1 (dp_decoded packet)),
      ii_rs2 = source_state c (di_rs2 (dp_decoded packet)),
      ii_cdb = co_broadcast (cv_cdb v),
      ii_rob_available = (\<not> rob_full (rob c)),
      ii_rs_available = rs_available (reservation_station c),
      ii_lsq_available = (\<not> lsq_full (load_store_queue c))\<rparr>"

definition plan_issue :: "CPU \<Rightarrow> CycleView \<Rightarrow> PlanWires \<Rightarrow> PlanWires" where
  "plan_issue c v w =
     (if \<not> cv_flush v \<and> \<not> fetch_stopped c \<and> \<not> rob_full (rob c) then
        let (packet, fetch_error) = fetchAndDecoded c;
            w = w\<lparr>pw_fetch_error := fetch_error\<rparr>
        in if \<not> fetch_error
           then w\<lparr>pw_issue_outputs := issue_plan (issue_inputs_of c v packet)\<rparr>
           else w
      else w)"

definition plan_module :: "CPU \<Rightarrow> CycleView \<Rightarrow> nat \<Rightarrow> PlanWires \<Rightarrow> PlanWires" where
  "plan_module c v module w =
     (if module = 0 then plan_issue c v w
      else if module = 1 then w\<lparr>pw_rob_decision := rob_plan (rob c)\<rparr>
      else if module = 2 then
        w\<lparr>pw_rs_decision := rs_plan (reservation_station c) (cv_flush v)\<rparr>
      else if module = 3 then
        w\<lparr>pw_lsq_decision := lsq_plan (load_store_queue c) (cv_lsq_observe v),
          pw_asserts := (pw_asserts w \<and> lsq_plan_asserts (load_store_queue c) (cv_lsq_observe v))\<rparr>
      else w)"

section \<open>The frozen inputs of phase C\<close>

record ApplyInputs =
  ai_cdb_decision :: CDBDecision
  ai_rob_inputs :: ROBInputs
  ai_rob_decision :: ROBDecision
  ai_rs_inputs :: RSInputs
  ai_rs_decision :: RSDecision
  ai_lsq_inputs :: LSQInputs
  ai_lsq_decision :: LSQDecision
  ai_execute :: Execute
  ai_flush :: bool
  ai_rob_flush :: bool
  ai_integer_granted :: bool
  ai_register_write :: RegisterWrite
  ai_rat_write :: RATWrite
  ai_rat_commit :: RATCommit
  ai_predictor_update :: BranchPredictorUpdate
  ai_memory_request :: DataMemoryRequest

definition issue_effective :: "PlanWires \<Rightarrow> bool" where
  "issue_effective w \<longleftrightarrow> issued (pw_issue_outputs w) \<and> \<not> ro_flush (pw_rob_decision w)"

definition commit_register_write :: "ROBCommit \<Rightarrow> RegisterWrite" where
  "commit_register_write commit =
     (if rc_valid commit \<and> re_writes_rd (rc_entry commit) \<and> rc_valid commit
      then \<lparr>rw_rd = re_rd (rc_entry commit), rw_value = re_value (rc_entry commit),
            rw_valid = True\<rparr>
      else register_write_default)"

definition issue_rat_write :: "PlanWires \<Rightarrow> RATWrite" where
  "issue_rat_write w =
     (let rename = io_rename (pw_issue_outputs w)
      in if ru_valid rename \<and> issue_effective w
         then \<lparr>ratw_rd = ru_rd rename, ratw_tag = ru_tag rename, ratw_valid = True\<rparr>
         else rat_write_default)"

definition commit_rat_commit :: "ROBCommit \<Rightarrow> RATCommit" where
  "commit_rat_commit commit =
     (if rc_valid commit \<and> re_writes_rd (rc_entry commit)
      then \<lparr>ratc_rd = re_rd (rc_entry commit), ratc_tag = re_tag (rc_entry commit),
            ratc_valid = True\<rparr>
      else rat_commit_default)"

definition commit_predictor_update :: "ROBCommit \<Rightarrow> BranchPredictorUpdate" where
  "commit_predictor_update commit =
     (if rc_valid commit \<and> re_is_branch (rc_entry commit) then
        let entry = rc_entry commit
        in \<lparr>bu_pc = re_pc entry, bu_actual_taken = re_branch_taken entry,
            bu_predicted_next_pc = re_predicted_next_pc entry,
            bu_actual_next_pc = re_actual_next_pc entry, bu_valid = True\<rparr>
      else predictor_update_default)"

definition apply_inputs :: "CPU \<Rightarrow> CycleView \<Rightarrow> PlanWires \<Rightarrow> ApplyInputs" where
  "apply_inputs c v w =
     (let issue = pw_issue_outputs w; cdb = cv_cdb v; flush = cv_flush v;
          commit = ro_commit (pw_rob_decision w);
          lsq_outputs = ld_outputs (pw_lsq_decision w)
      in \<lparr>ai_cdb_decision = cv_cdb_decision v,
          ai_rob_inputs =
            \<lparr>ri_issue_entry = io_rob_entry issue,
             ri_issue_valid = (io_write_rob issue \<and> \<not> flush),
             ri_completion = co_completion cdb,
             ri_store_completion = lo_store_completion lsq_outputs\<rparr>,
          ai_rob_decision = pw_rob_decision w,
          ai_rs_inputs =
            \<lparr>rsi_issue_entry = io_rs_entry issue,
             rsi_issue_valid = (io_write_rs issue \<and> issue_effective w),
             rsi_cdb = co_broadcast cdb,
             rsi_fu_available = can_accept (functional_unit c) (co_integer_granted cdb),
             rsi_flush = flush\<rparr>,
          ai_rs_decision = pw_rs_decision w,
          ai_lsq_inputs =
            \<lparr>li_issue_entry = io_lsq_entry issue,
             li_issue_valid = (io_write_lsq issue \<and> \<not> flush),
             li_cdb = co_broadcast cdb,
             li_store_request = pv_store_request (cv_preview v),
             li_memory_response = data_response (memory_unit c),
             li_memory_available = data_port_available (memory_unit c),
             li_load_result_granted = co_load_granted cdb,
             li_flush = flush\<rparr>,
          ai_lsq_decision = pw_lsq_decision w,
          ai_execute = rso_dispatch (rsd_outputs (pw_rs_decision w)),
          ai_flush = flush,
          ai_rob_flush = ro_flush (pw_rob_decision w),
          ai_integer_granted = co_integer_granted cdb,
          ai_register_write = commit_register_write commit,
          ai_rat_write = issue_rat_write w,
          ai_rat_commit = commit_rat_commit commit,
          ai_predictor_update = commit_predictor_update commit,
          ai_memory_request = lo_memory_request lsq_outputs\<rparr>)"

section \<open>Phase C: applying\<close>

text \<open>The machine with the local variables that the apply loop assigns.\<close>

record ApplyState =
  as_cpu :: CPU
  as_rob_issue_accepted :: bool
  as_rs_issue_accepted :: bool
  as_lsq_issue_accepted :: bool
  as_fu_accepted :: bool
  as_memory_accepted :: bool
  as_asserts :: bool

definition apply_module :: "ApplyInputs \<Rightarrow> nat \<Rightarrow> ApplyState \<Rightarrow> ApplyState" where
  "apply_module i module s =
     (let c = as_cpu s in
      if module = 0 then
        s\<lparr>as_cpu := c\<lparr>common_data_bus := cdb_apply (ai_cdb_decision i) (common_data_bus c)\<rparr>\<rparr>
      else if module = 1 then
        let (r, accepted) = rob_apply (ai_rob_inputs i) (ai_rob_decision i) (rob c)
        in s\<lparr>as_cpu := c\<lparr>rob := r\<rparr>, as_rob_issue_accepted := accepted\<rparr>
      else if module = 2 then
        let (r, accepted) = rs_apply (ai_rs_inputs i) (ai_rs_decision i) (reservation_station c)
        in s\<lparr>as_cpu := c\<lparr>reservation_station := r\<rparr>, as_rs_issue_accepted := accepted\<rparr>
      else if module = 3 then
        let (q, accepted) = lsq_apply (ai_lsq_inputs i) (ai_lsq_decision i) (load_store_queue c)
        in s\<lparr>as_cpu := c\<lparr>load_store_queue := q\<rparr>, as_lsq_issue_accepted := accepted,
             as_asserts := (as_asserts s
               \<and> lsq_apply_asserts (ai_lsq_inputs i) (ai_lsq_decision i) (load_store_queue c))\<rparr>
      else if module = 4 then
        let (f, accepted) = fu_apply (ai_execute i) (ai_flush i) (ai_integer_granted i)
                              (functional_unit c)
        in s\<lparr>as_cpu := c\<lparr>functional_unit := f\<rparr>, as_fu_accepted := accepted,
             as_asserts := (as_asserts s
               \<and> fu_apply_asserts (ai_execute i) (ai_flush i) (ai_integer_granted i)
                   (functional_unit c))\<rparr>
      else if module = 5 then
        s\<lparr>as_cpu := c\<lparr>register_file := rf_apply (ai_register_write i) (register_file c)\<rparr>\<rparr>
      else if module = 6 then
        s\<lparr>as_cpu := c\<lparr>rename_table :=
             rat_apply (ai_rat_write i) (ai_rat_commit i) (ai_rob_flush i) (rename_table c)\<rparr>\<rparr>
      else if module = 7 then
        s\<lparr>as_cpu := c\<lparr>branch_predictor := bp_apply (ai_predictor_update i) (branch_predictor c)\<rparr>\<rparr>
      else if module = 8 then
        let (m, accepted) = memory_apply (ai_memory_request i) (memory_unit c)
        in s\<lparr>as_cpu := c\<lparr>memory_unit := m\<rparr>, as_memory_accepted := accepted,
             as_asserts := (as_asserts s
               \<and> memory_apply_asserts (ai_memory_request i) (memory_unit c))\<rparr>
      else s)"

text \<open>The assertions that follow the apply loop.\<close>

definition accepted_asserts :: "CycleView \<Rightarrow> PlanWires \<Rightarrow> ApplyInputs \<Rightarrow> ApplyState \<Rightarrow> bool" where
  "accepted_asserts v w i s \<longleftrightarrow>
     (issue_effective w \<longrightarrow>
        as_rob_issue_accepted s
        \<and> (io_write_rs (pw_issue_outputs w) \<longrightarrow> as_rs_issue_accepted s)
        \<and> (io_write_lsq (pw_issue_outputs w) \<longrightarrow> as_lsq_issue_accepted s))
     \<and> (rso_dispatch_valid (rsd_outputs (pw_rs_decision w)) \<and> rsi_fu_available (ai_rs_inputs i)
        \<and> \<not> cv_flush v \<longrightarrow> as_fu_accepted s)
     \<and> (rq_valid (lo_memory_request (ld_outputs (pw_lsq_decision w))) \<longrightarrow> as_memory_accepted s)"

section \<open>Phase D: latching\<close>

definition latch_module :: "nat \<Rightarrow> CPU \<times> bool \<Rightarrow> CPU \<times> bool" where
  "latch_module module s =
     (case s of (c, asserts) \<Rightarrow>
      if module = 0 then (c\<lparr>register_file := rf_latch (register_file c)\<rparr>, asserts)
      else if module = 1 then (c\<lparr>rename_table := rat_latch (rename_table c)\<rparr>, asserts)
      else if module = 2 then (c\<lparr>rob := rob_latch (rob c)\<rparr>, asserts)
      else if module = 3 then
        (c\<lparr>reservation_station := rs_latch (reservation_station c)\<rparr>, asserts)
      else if module = 4 then (c\<lparr>load_store_queue := lsq_latch (load_store_queue c)\<rparr>, asserts)
      else if module = 5 then (c\<lparr>functional_unit := fu_latch (functional_unit c)\<rparr>, asserts)
      else if module = 6 then (c\<lparr>common_data_bus := cdb_latch (common_data_bus c)\<rparr>, asserts)
      else if module = 7 then
        (c\<lparr>memory_unit := memory_latch (memory_unit c)\<rparr>,
         asserts \<and> memory_latch_asserts (memory_unit c))
      else if module = 8 then (c\<lparr>branch_predictor := bp_latch (branch_predictor c)\<rparr>, asserts)
      else (c, asserts))"

definition order_index :: "CPU \<Rightarrow> nat" where
  "order_index c = unat (cycle_count c mod of_nat kOrderVariantCount)"

definition latch_all :: "CPU \<Rightarrow> CPU \<times> bool" where
  "latch_all c = fold latch_module (latch_orders c ! order_index c) (c, True)"

section \<open>The cycle\<close>

definition cycle_next_pc :: "PlanWires \<Rightarrow> CPU \<Rightarrow> CPU" where
  "cycle_next_pc w c =
     (let c = (if issue_effective w then
                 let c = c\<lparr>next_pc := re_predicted_next_pc (io_rob_entry (pw_issue_outputs w))\<rparr>
                 in if re_op (io_rob_entry (pw_issue_outputs w)) = OP_HALT
                    then c\<lparr>next_fetch_stopped := True\<rparr> else c
               else c)
      in if ro_flush (pw_rob_decision w)
         then c\<lparr>next_pc := ro_redirect_pc (pw_rob_decision w), next_fetch_stopped := False\<rparr>
         else c)"

text \<open>
  The code between the loops of the phases C and D: the commit counter, the next status in the
  order of the code's assignments, and the exit code.
\<close>

definition cycle_status :: "PlanWires \<Rightarrow> CPU \<Rightarrow> CPU \<times> CpuStatus" where
  "cycle_status w c =
     (let next_status = cpu_status c;
          commit = ro_commit (pw_rob_decision w);
          c = (if rc_valid commit \<and> re_op (rc_entry commit) \<noteq> OP_HALT
               then c\<lparr>committed_count := committed_count c + 1\<rparr> else c);
          next_status = (if pw_fetch_error w \<and> rob_empty (rob c)
                         then CpuFetchOutOfBound else next_status);
          next_status = (if io_status (pw_issue_outputs w) = InvalidInstruction \<and> rob_empty (rob c)
                         then CpuInvalidInstruction else next_status);
          next_status = (if io_status (pw_issue_outputs w) = InvalidAllocation
                         then CpuInternalError else next_status);
          next_status = (if lo_memory_error (ld_outputs (pw_lsq_decision w))
                         then CpuMemoryOutOfBound else next_status)
      in if rc_halted commit
         then (c\<lparr>exit_code := rf_read (register_file c) 10 AND 0xff\<rparr>, CpuHalted)
         else (c, next_status))"

text \<open>
  One clock cycle.  The result is \<open>None\<close> when an assertion of the code fails: the program aborts.
\<close>

definition cycle :: "CPU \<Rightarrow> CPU option" where
  "cycle c =
     (if cpu_status c \<noteq> CpuRunning then Some c
      else
        let c = c\<lparr>cycle_count := cycle_count c + 1\<rparr>;
            c = c\<lparr>next_pc := current_pc c, next_fetch_stopped := fetch_stopped c\<rparr>;
            v = cycle_view c;
            index = order_index c;
            w = fold (plan_module c v) (plan_orders c ! index) plan_wires_default;
            i = apply_inputs c v w;
            c = cycle_next_pc w c;
            s = fold (apply_module i) (apply_orders c ! index)
                  \<lparr>as_cpu = c, as_rob_issue_accepted = False, as_rs_issue_accepted = False,
                   as_lsq_issue_accepted = False, as_fu_accepted = False,
                   as_memory_accepted = False, as_asserts = True\<rparr>;
            (c, next_status) = cycle_status w (as_cpu s);
            (c, latched) = latch_all c;
            c = c\<lparr>current_pc := next_pc c, fetch_stopped := next_fetch_stopped c,
                  cpu_status := next_status\<rparr>
        in if pw_asserts w \<and> as_asserts s \<and> accepted_asserts v w i s \<and> latched
           then Some c else None)"

text \<open>The loop of \<open>run\<close>; a program that never stops has no result.\<close>

partial_function (option) cpu_loop :: "CPU \<Rightarrow> CPU option" where
  "cpu_loop c =
     (if cpu_status c = CpuRunning
      then (case cycle c of None \<Rightarrow> None | Some c' \<Rightarrow> cpu_loop c')
      else Some c)"

definition cpu_run :: "CPU \<Rightarrow> (CPU \<times> RunResult) option" where
  "cpu_run c =
     (if cpu_status c \<noteq> CpuRunning
      then Some (c, \<lparr>rr_status = cpu_status c, rr_value = exit_code c\<rparr>)
      else
        case cpu_loop c of
          None \<Rightarrow> None
        | Some c' \<Rightarrow> Some (c', \<lparr>rr_status = cpu_status c', rr_value = exit_code c'\<rparr>))"

end
