(* ===== verification/CycleOrder.thy ===== *)
theory CycleOrder
  imports Cpu RobCorrect
begin

text \<open>
  The order of the modules inside a phase does not matter: when the shuffled tables are
  permutations of the module numbers, a cycle is the parallel composition of the modules'
  transitions.  The canonical cycle of this theory is what all later proofs about the core use.
\<close>

section \<open>Schedules\<close>

definition permutation_of :: "nat \<Rightarrow> nat list \<Rightarrow> bool" where
  "permutation_of n xs \<longleftrightarrow> mset xs = mset [0..<n]"

lemma permutation_ofD:
  assumes "permutation_of n xs"
  shows "distinct xs" and "set xs = {0..<n}"
  using assms unfolding permutation_of_def
  by (metis distinct_upt mset_eq_imp_distinct_iff) (metis assms mset_eq_setD permutation_of_def set_upt)

definition orders_ok :: "CPU \<Rightarrow> bool" where
  "orders_ok c \<longleftrightarrow>
     length (plan_orders c) = kOrderVariantCount \<and> list_all (permutation_of 4) (plan_orders c)
     \<and> length (apply_orders c) = kOrderVariantCount \<and> list_all (permutation_of 9) (apply_orders c)
     \<and> length (latch_orders c) = kOrderVariantCount \<and> list_all (permutation_of 9) (latch_orders c)"

lemma order_index_less: "order_index c < kOrderVariantCount"
proof -
  have "unat (cycle_count c mod 64) < unat (64 :: 64 word)"
    by (simp add: unat_mod)
  then show ?thesis by (simp add: order_index_def kOrderVariantCount_def)
qed

lemma orders_at:
  assumes "orders_ok c"
  shows "permutation_of 4 (plan_orders c ! order_index d)"
    and "permutation_of 9 (apply_orders c ! order_index d)"
    and "permutation_of 9 (latch_orders c ! order_index d)"
  using assms order_index_less [of d] by (simp_all add: orders_ok_def list_all_length)

text \<open>A component that only step \<open>k\<close> touches, and the conjunction of the steps' assertions.\<close>

lemma fold_component:
  assumes "\<And>m s. G (f m s) = (if m = k then u (G s) else G s)" and "distinct xs"
  shows "G (fold f xs s) = (if k \<in> set xs then u (G s) else G s)"
  using assms(2) by (induction xs arbitrary: s) (auto simp: assms(1))

lemma fold_untouched:
  assumes "\<And>m s. G (f m s) = G s"
  shows "G (fold f xs s) = G s"
  by (induction xs arbitrary: s) (auto simp: assms)

lemma fold_asserts:
  assumes "\<And>m s. A (f m s) = (A s \<and> ok m s)"
    and "\<And>m m' s. m \<noteq> m' \<Longrightarrow> ok m (f m' s) = ok m s" and "distinct xs"
  shows "A (fold f xs s) = (A s \<and> (\<forall>m \<in> set xs. ok m s))"
  using assms(3)
proof (induction xs arbitrary: s)
  case (Cons x xs)
  then have "\<And>m. m \<in> set xs \<Longrightarrow> ok m (f x s) = ok m s"
    using assms(2) by (metis distinct.simps(2))
  then show ?case using Cons by (auto simp: assms(1))
qed simp

section \<open>Planning\<close>

lemma plan_issue_eq:
  "plan_issue c v w =
     (if \<not> cv_flush v \<and> \<not> fetch_stopped c \<and> \<not> rob_full (rob c)
      then w\<lparr>pw_issue_outputs := (if snd (fetchAndDecoded c) then pw_issue_outputs w
               else issue_plan (issue_inputs_of c v (fst (fetchAndDecoded c)))),
             pw_fetch_error := snd (fetchAndDecoded c)\<rparr>
      else w)"
  by (simp add: plan_issue_def Let_def split: prod.split)

lemma plan_components:
  "(pw_issue_outputs (plan_module c v m w), pw_fetch_error (plan_module c v m w)) =
     (if m = 0 then
        (if \<not> cv_flush v \<and> \<not> fetch_stopped c \<and> \<not> rob_full (rob c)
         then (if snd (fetchAndDecoded c) then pw_issue_outputs w
               else issue_plan (issue_inputs_of c v (fst (fetchAndDecoded c))),
               snd (fetchAndDecoded c))
         else (pw_issue_outputs w, pw_fetch_error w))
      else (pw_issue_outputs w, pw_fetch_error w))"
  "pw_rob_decision (plan_module c v m w) = (if m = 1 then rob_plan (rob c) else pw_rob_decision w)"
  "pw_rs_decision (plan_module c v m w) =
     (if m = 2 then rs_plan (reservation_station c) (cv_flush v) else pw_rs_decision w)"
  "(pw_lsq_decision (plan_module c v m w), pw_asserts (plan_module c v m w)) =
     (if m = 3 then (lsq_plan (load_store_queue c) (cv_lsq_observe v),
         pw_asserts w \<and> lsq_plan_asserts (load_store_queue c) (cv_lsq_observe v))
      else (pw_lsq_decision w, pw_asserts w))"
  by (simp_all add: plan_module_def plan_issue_eq)

definition planned :: "CPU \<Rightarrow> CycleView \<Rightarrow> PlanWires" where
  "planned c v =
     (let fetching = (\<not> cv_flush v \<and> \<not> fetch_stopped c \<and> \<not> rob_full (rob c));
          (packet, fetch_error) = fetchAndDecoded c
      in \<lparr>pw_issue_outputs = (if fetching \<and> \<not> fetch_error
            then issue_plan (issue_inputs_of c v packet) else issue_outputs_default),
          pw_rob_decision = rob_plan (rob c),
          pw_rs_decision = rs_plan (reservation_station c) (cv_flush v),
          pw_lsq_decision = lsq_plan (load_store_queue c) (cv_lsq_observe v),
          pw_fetch_error = (fetching \<and> fetch_error),
          pw_asserts = lsq_plan_asserts (load_store_queue c) (cv_lsq_observe v)\<rparr>)"

lemma plan_canonical:
  assumes "permutation_of 4 xs"
  shows "fold (plan_module c v) xs plan_wires_default = planned c v"
proof -
  note p = permutation_ofD [OF assms]
  note f = fold_component [where f = "plan_module c v" and xs = xs and s = plan_wires_default,
      OF _ p(1)]
  let ?r = "fold (plan_module c v) xs plan_wires_default"
  have "(pw_issue_outputs ?r, pw_fetch_error ?r)
        = (pw_issue_outputs (planned c v), pw_fetch_error (planned c v))"
      "pw_rob_decision ?r = pw_rob_decision (planned c v)"
      "pw_rs_decision ?r = pw_rs_decision (planned c v)"
      "(pw_lsq_decision ?r, pw_asserts ?r) = (pw_lsq_decision (planned c v), pw_asserts (planned c v))"
    using
      f [of "\<lambda>w. (pw_issue_outputs w, pw_fetch_error w)" 0
          "\<lambda>(i, e). if \<not> cv_flush v \<and> \<not> fetch_stopped c \<and> \<not> rob_full (rob c)
             then (if snd (fetchAndDecoded c) then i
                   else issue_plan (issue_inputs_of c v (fst (fetchAndDecoded c))),
                   snd (fetchAndDecoded c))
             else (i, e)"]
      f [of pw_rob_decision 1 "\<lambda>_. rob_plan (rob c)"]
      f [of pw_rs_decision 2 "\<lambda>_. rs_plan (reservation_station c) (cv_flush v)"]
      f [of "\<lambda>w. (pw_lsq_decision w, pw_asserts w)" 3
          "\<lambda>(_, a). (lsq_plan (load_store_queue c) (cv_lsq_observe v),
             a \<and> lsq_plan_asserts (load_store_queue c) (cv_lsq_observe v))"]
    by (simp_all only: plan_components p(2) prod.case)
       (simp_all add: planned_def plan_wires_default_def Let_def split: prod.split)
  then show ?thesis by (intro PlanWires.equality) simp_all
qed

section \<open>Applying\<close>

lemma apply_module_fst_snd:
  "apply_module i module s =
     (let c = as_cpu s in
      if module = 0 then
        s\<lparr>as_cpu := c\<lparr>common_data_bus := cdb_apply (ai_cdb_decision i) (common_data_bus c)\<rparr>\<rparr>
      else if module = 1 then
        let x = rob_apply (ai_rob_inputs i) (ai_rob_decision i) (rob c)
        in s\<lparr>as_cpu := c\<lparr>rob := fst x\<rparr>, as_rob_issue_accepted := snd x\<rparr>
      else if module = 2 then
        let x = rs_apply (ai_rs_inputs i) (ai_rs_decision i) (reservation_station c)
        in s\<lparr>as_cpu := c\<lparr>reservation_station := fst x\<rparr>, as_rs_issue_accepted := snd x\<rparr>
      else if module = 3 then
        let x = lsq_apply (ai_lsq_inputs i) (ai_lsq_decision i) (load_store_queue c)
        in s\<lparr>as_cpu := c\<lparr>load_store_queue := fst x\<rparr>, as_lsq_issue_accepted := snd x,
             as_asserts := (as_asserts s
               \<and> lsq_apply_asserts (ai_lsq_inputs i) (ai_lsq_decision i) (load_store_queue c))\<rparr>
      else if module = 4 then
        let x = fu_apply (ai_execute i) (ai_flush i) (ai_integer_granted i) (functional_unit c)
        in s\<lparr>as_cpu := c\<lparr>functional_unit := fst x\<rparr>, as_fu_accepted := snd x,
             as_asserts := (as_asserts s
               \<and> fu_apply_asserts (ai_execute i) (ai_flush i) (ai_integer_granted i)
                   (functional_unit c))\<rparr>
      else if module = 5 then
        s\<lparr>as_cpu := c\<lparr>register_file := rf_apply (ai_register_write i) (register_file c)\<rparr>\<rparr>
      else if module = 6 then
        s\<lparr>as_cpu := c\<lparr>rename_table :=
             rat_apply (ai_rat_write i) (ai_rat_commit i) (ai_rob_flush i) (rename_table c)\<rparr>\<rparr>
      else if module = 7 then
        s\<lparr>as_cpu := c\<lparr>branch_predictor := bp_apply (ai_predictor_update i) (branch_predictor c)\<rparr>\<rparr>
      else if module = 8 then
        let x = memory_apply (ai_memory_request i) (memory_unit c)
        in s\<lparr>as_cpu := c\<lparr>memory_unit := fst x\<rparr>, as_memory_accepted := snd x,
             as_asserts := (as_asserts s
               \<and> memory_apply_asserts (ai_memory_request i) (memory_unit c))\<rparr>
      else s)"
  by (simp only: apply_module_def Let_def case_prod_beta)

definition rest_of :: "CPU \<Rightarrow> CPU" where
  "rest_of c = c\<lparr>memory_unit := memory_unit_new, register_file := register_file_new,
     rename_table := rename_table_new, rob := reorder_buffer_new,
     reservation_station := reservation_station_new, load_store_queue := load_store_queue_new,
     functional_unit := functional_unit_new, common_data_bus := common_data_bus_new,
     branch_predictor := branch_predictor_new\<rparr>"

definition apply_ok :: "ApplyInputs \<Rightarrow> nat \<Rightarrow> ApplyState \<Rightarrow> bool" where
  "apply_ok i m s \<longleftrightarrow>
     (m = 3 \<longrightarrow> lsq_apply_asserts (ai_lsq_inputs i) (ai_lsq_decision i) (load_store_queue (as_cpu s)))
     \<and> (m = 4 \<longrightarrow> fu_apply_asserts (ai_execute i) (ai_flush i) (ai_integer_granted i)
          (functional_unit (as_cpu s)))
     \<and> (m = 8 \<longrightarrow> memory_apply_asserts (ai_memory_request i) (memory_unit (as_cpu s)))"

lemmas apply_module_simps = apply_module_fst_snd Let_def

lemma apply_components:
  "common_data_bus (as_cpu (apply_module i m s)) =
     (if m = 0 then cdb_apply (ai_cdb_decision i) (common_data_bus (as_cpu s))
      else common_data_bus (as_cpu s))"
  "(rob (as_cpu (apply_module i m s)), as_rob_issue_accepted (apply_module i m s)) =
     (if m = 1 then rob_apply (ai_rob_inputs i) (ai_rob_decision i) (rob (as_cpu s))
      else (rob (as_cpu s), as_rob_issue_accepted s))"
  "(reservation_station (as_cpu (apply_module i m s)), as_rs_issue_accepted (apply_module i m s)) =
     (if m = 2 then rs_apply (ai_rs_inputs i) (ai_rs_decision i) (reservation_station (as_cpu s))
      else (reservation_station (as_cpu s), as_rs_issue_accepted s))"
  "(load_store_queue (as_cpu (apply_module i m s)), as_lsq_issue_accepted (apply_module i m s)) =
     (if m = 3 then lsq_apply (ai_lsq_inputs i) (ai_lsq_decision i) (load_store_queue (as_cpu s))
      else (load_store_queue (as_cpu s), as_lsq_issue_accepted s))"
  "(functional_unit (as_cpu (apply_module i m s)), as_fu_accepted (apply_module i m s)) =
     (if m = 4 then fu_apply (ai_execute i) (ai_flush i) (ai_integer_granted i)
        (functional_unit (as_cpu s))
      else (functional_unit (as_cpu s), as_fu_accepted s))"
  "register_file (as_cpu (apply_module i m s)) =
     (if m = 5 then rf_apply (ai_register_write i) (register_file (as_cpu s))
      else register_file (as_cpu s))"
  "rename_table (as_cpu (apply_module i m s)) =
     (if m = 6 then rat_apply (ai_rat_write i) (ai_rat_commit i) (ai_rob_flush i)
        (rename_table (as_cpu s))
      else rename_table (as_cpu s))"
  "branch_predictor (as_cpu (apply_module i m s)) =
     (if m = 7 then bp_apply (ai_predictor_update i) (branch_predictor (as_cpu s))
      else branch_predictor (as_cpu s))"
  "(memory_unit (as_cpu (apply_module i m s)), as_memory_accepted (apply_module i m s)) =
     (if m = 8 then memory_apply (ai_memory_request i) (memory_unit (as_cpu s))
      else (memory_unit (as_cpu s), as_memory_accepted s))"
  "rest_of (as_cpu (apply_module i m s)) = rest_of (as_cpu s)"
  by (simp_all add: apply_module_simps rest_of_def)

lemma apply_asserts:
  "as_asserts (apply_module i m s) = (as_asserts s \<and> apply_ok i m s)"
  by (simp add: apply_module_simps apply_ok_def)

lemma apply_ok_other: "m \<noteq> m' \<Longrightarrow> apply_ok i m (apply_module i m' s) = apply_ok i m s"
  by (auto simp: apply_ok_def apply_module_simps)

lemma apply_ok_all:
  "(\<forall>m \<in> {0..<9}. apply_ok i m s) \<longleftrightarrow>
     lsq_apply_asserts (ai_lsq_inputs i) (ai_lsq_decision i) (load_store_queue (as_cpu s))
     \<and> fu_apply_asserts (ai_execute i) (ai_flush i) (ai_integer_granted i) (functional_unit (as_cpu s))
     \<and> memory_apply_asserts (ai_memory_request i) (memory_unit (as_cpu s))"
  (is "?all \<longleftrightarrow> ?A \<and> ?B \<and> ?C")
proof
  assume ?all
  then have "apply_ok i 3 s" "apply_ok i 4 s" "apply_ok i 8 s" by simp_all
  then show "?A \<and> ?B \<and> ?C" by (simp add: apply_ok_def)
qed (simp add: apply_ok_def)

definition applied :: "ApplyInputs \<Rightarrow> ApplyState \<Rightarrow> ApplyState" where
  "applied i s =
     (let c = as_cpu s;
          r = rob_apply (ai_rob_inputs i) (ai_rob_decision i) (rob c);
          rs = rs_apply (ai_rs_inputs i) (ai_rs_decision i) (reservation_station c);
          q = lsq_apply (ai_lsq_inputs i) (ai_lsq_decision i) (load_store_queue c);
          f = fu_apply (ai_execute i) (ai_flush i) (ai_integer_granted i) (functional_unit c);
          m = memory_apply (ai_memory_request i) (memory_unit c)
      in \<lparr>as_cpu = c\<lparr>common_data_bus := cdb_apply (ai_cdb_decision i) (common_data_bus c),
            rob := fst r, reservation_station := fst rs, load_store_queue := fst q,
            functional_unit := fst f,
            register_file := rf_apply (ai_register_write i) (register_file c),
            rename_table := rat_apply (ai_rat_write i) (ai_rat_commit i) (ai_rob_flush i)
              (rename_table c),
            branch_predictor := bp_apply (ai_predictor_update i) (branch_predictor c),
            memory_unit := fst m\<rparr>,
          as_rob_issue_accepted = snd r, as_rs_issue_accepted = snd rs,
          as_lsq_issue_accepted = snd q, as_fu_accepted = snd f, as_memory_accepted = snd m,
          as_asserts = (as_asserts s
            \<and> lsq_apply_asserts (ai_lsq_inputs i) (ai_lsq_decision i) (load_store_queue c)
            \<and> fu_apply_asserts (ai_execute i) (ai_flush i) (ai_integer_granted i) (functional_unit c)
            \<and> memory_apply_asserts (ai_memory_request i) (memory_unit c))\<rparr>)"

lemma cpu_eqI:
  assumes "memory_unit c = memory_unit d" "register_file c = register_file d"
    "rename_table c = rename_table d" "rob c = rob d"
    "reservation_station c = reservation_station d" "load_store_queue c = load_store_queue d"
    "functional_unit c = functional_unit d" "common_data_bus c = common_data_bus d"
    "branch_predictor c = branch_predictor d" "rest_of c = rest_of d"
  shows "c = (d :: CPU)"
  using assms by (cases c; cases d) (simp add: rest_of_def)

lemma apply_canonical:
  assumes "permutation_of 9 xs"
  shows "fold (apply_module i) xs s = applied i s"
proof -
  note p = permutation_ofD [OF assms]
  note f = fold_component [where f = "apply_module i" and xs = xs and s = s, OF _ p(1)]
  let ?r = "fold (apply_module i) xs s"
  have c1: "(rob (as_cpu ?r), as_rob_issue_accepted ?r)
      = rob_apply (ai_rob_inputs i) (ai_rob_decision i) (rob (as_cpu s))"
    using f [of "\<lambda>s. (rob (as_cpu s), as_rob_issue_accepted s)" 1
        "\<lambda>(r, _). rob_apply (ai_rob_inputs i) (ai_rob_decision i) r"]
    unfolding apply_components(2) p(2) by simp
  have c2: "(reservation_station (as_cpu ?r), as_rs_issue_accepted ?r)
      = rs_apply (ai_rs_inputs i) (ai_rs_decision i) (reservation_station (as_cpu s))"
    using f [of "\<lambda>s. (reservation_station (as_cpu s), as_rs_issue_accepted s)" 2
        "\<lambda>(r, _). rs_apply (ai_rs_inputs i) (ai_rs_decision i) r"]
    unfolding apply_components(3) p(2) by simp
  have c3: "(load_store_queue (as_cpu ?r), as_lsq_issue_accepted ?r)
      = lsq_apply (ai_lsq_inputs i) (ai_lsq_decision i) (load_store_queue (as_cpu s))"
    using f [of "\<lambda>s. (load_store_queue (as_cpu s), as_lsq_issue_accepted s)" 3
        "\<lambda>(r, _). lsq_apply (ai_lsq_inputs i) (ai_lsq_decision i) r"]
    unfolding apply_components(4) p(2) by simp
  have c4: "(functional_unit (as_cpu ?r), as_fu_accepted ?r)
      = fu_apply (ai_execute i) (ai_flush i) (ai_integer_granted i) (functional_unit (as_cpu s))"
    using f [of "\<lambda>s. (functional_unit (as_cpu s), as_fu_accepted s)" 4
        "\<lambda>(r, _). fu_apply (ai_execute i) (ai_flush i) (ai_integer_granted i) r"]
    unfolding apply_components(5) p(2) by simp
  have c5: "(memory_unit (as_cpu ?r), as_memory_accepted ?r)
      = memory_apply (ai_memory_request i) (memory_unit (as_cpu s))"
    using f [of "\<lambda>s. (memory_unit (as_cpu s), as_memory_accepted s)" 8
        "\<lambda>(r, _). memory_apply (ai_memory_request i) r"]
    unfolding apply_components(9) p(2) by simp
  note c = c1 c2 c3 c4 c5
  have d1: "common_data_bus (as_cpu ?r) = cdb_apply (ai_cdb_decision i) (common_data_bus (as_cpu s))"
    using f [of "\<lambda>s. common_data_bus (as_cpu s)" 0 "cdb_apply (ai_cdb_decision i)"]
    unfolding apply_components(1) p(2) by simp
  have d2: "register_file (as_cpu ?r) = rf_apply (ai_register_write i) (register_file (as_cpu s))"
    using f [of "\<lambda>s. register_file (as_cpu s)" 5 "rf_apply (ai_register_write i)"]
    unfolding apply_components(6) p(2) by simp
  have d3: "rename_table (as_cpu ?r) = rat_apply (ai_rat_write i) (ai_rat_commit i) (ai_rob_flush i) (rename_table (as_cpu s))"
    using f [of "\<lambda>s. rename_table (as_cpu s)" 6 "rat_apply (ai_rat_write i) (ai_rat_commit i) (ai_rob_flush i)"]
    unfolding apply_components(7) p(2) by simp
  have d4: "branch_predictor (as_cpu ?r) = bp_apply (ai_predictor_update i) (branch_predictor (as_cpu s))"
    using f [of "\<lambda>s. branch_predictor (as_cpu s)" 7 "bp_apply (ai_predictor_update i)"]
    unfolding apply_components(8) p(2) by simp
  note d = d1 d2 d3 d4
  have e: "rest_of (as_cpu ?r) = rest_of (as_cpu s)"
    by (rule fold_untouched) (rule apply_components)
  have "as_asserts ?r = (as_asserts s \<and> (\<forall>m \<in> set xs. apply_ok i m s))"
    by (rule fold_asserts) (rule apply_asserts, erule apply_ok_other, rule p(1))
  then have a: "as_asserts ?r = as_asserts (applied i s)"
    by (simp only: p(2) apply_ok_all) (simp add: applied_def Let_def)
  have m: "rob (as_cpu ?r) = rob (as_cpu (applied i s))"
      "reservation_station (as_cpu ?r) = reservation_station (as_cpu (applied i s))"
      "load_store_queue (as_cpu ?r) = load_store_queue (as_cpu (applied i s))"
      "functional_unit (as_cpu ?r) = functional_unit (as_cpu (applied i s))"
      "memory_unit (as_cpu ?r) = memory_unit (as_cpu (applied i s))"
    by (simp_all add: applied_def Let_def c [symmetric])
  have l: "as_rob_issue_accepted ?r = as_rob_issue_accepted (applied i s)"
      "as_rs_issue_accepted ?r = as_rs_issue_accepted (applied i s)"
      "as_lsq_issue_accepted ?r = as_lsq_issue_accepted (applied i s)"
      "as_fu_accepted ?r = as_fu_accepted (applied i s)"
      "as_memory_accepted ?r = as_memory_accepted (applied i s)"
    by (simp_all add: applied_def Let_def c [symmetric])
  have o: "common_data_bus (as_cpu ?r) = common_data_bus (as_cpu (applied i s))"
      "register_file (as_cpu ?r) = register_file (as_cpu (applied i s))"
      "rename_table (as_cpu ?r) = rename_table (as_cpu (applied i s))"
      "branch_predictor (as_cpu ?r) = branch_predictor (as_cpu (applied i s))"
      "rest_of (as_cpu ?r) = rest_of (as_cpu (applied i s))"
    by (simp_all add: applied_def Let_def d e) (simp add: rest_of_def)
  have "as_cpu ?r = as_cpu (applied i s)"
    by (rule cpu_eqI) (simp_all only: m o)
  then show ?thesis using a l by (intro ApplyState.equality) simp_all
qed

section \<open>Latching\<close>

definition latched :: "CPU \<Rightarrow> CPU" where
  "latched c = c\<lparr>register_file := rf_latch (register_file c),
     rename_table := rat_latch (rename_table c), rob := rob_latch (rob c),
     reservation_station := rs_latch (reservation_station c),
     load_store_queue := lsq_latch (load_store_queue c),
     functional_unit := fu_latch (functional_unit c),
     common_data_bus := cdb_latch (common_data_bus c),
     memory_unit := memory_latch (memory_unit c),
     branch_predictor := bp_latch (branch_predictor c)\<rparr>"

lemma latch_commute:
  "latch_module a (latch_module b s) = latch_module b (latch_module a s)"
  by (cases s) (simp add: latch_module_def)

lemma latch_canonical:
  assumes "permutation_of 9 xs"
  shows "fold latch_module xs (c, True) = (latched c, memory_latch_asserts (memory_unit c))"
proof -
  have "fold latch_module xs (c, True) = fold latch_module [0, 1, 2, 3, 4, 5, 6, 7, 8] (c, True)"
  proof (rule fold_schedule_perm)
    show "latch_module a (latch_module b s) = latch_module b (latch_module a s)" for a b s
      by (rule latch_commute)
    have "[0..<9] = [0, 1, 2, 3, 4, 5, 6, 7, 8 :: nat]" by code_simp
    then show "mset xs = mset [0, 1, 2, 3, 4, 5, 6, 7, 8]"
      using assms by (simp only: permutation_of_def)
  qed
  also have "\<dots> = (latched c, memory_latch_asserts (memory_unit c))"
    by (simp add: latch_module_def latched_def)
  finally show ?thesis .
qed

section \<open>The canonical cycle\<close>

definition cycle_wires :: "CPU \<Rightarrow> PlanWires" where
  "cycle_wires c = planned c (cycle_view c)"

definition cycle_inputs :: "CPU \<Rightarrow> ApplyInputs" where
  "cycle_inputs c = apply_inputs c (cycle_view c) (cycle_wires c)"

definition pc_after :: "CPU \<Rightarrow> Address" where
  "pc_after c =
     (let w = cycle_wires c
      in if ro_flush (pw_rob_decision w) then ro_redirect_pc (pw_rob_decision w)
         else if issue_effective w then re_predicted_next_pc (io_rob_entry (pw_issue_outputs w))
         else current_pc c)"

definition stopped_after :: "CPU \<Rightarrow> bool" where
  "stopped_after c =
     (let w = cycle_wires c
      in if ro_flush (pw_rob_decision w) then False
         else if issue_effective w \<and> re_op (io_rob_entry (pw_issue_outputs w)) = OP_HALT then True
         else fetch_stopped c)"

definition status_after :: "CPU \<Rightarrow> CpuStatus" where
  "status_after c =
     (let w = cycle_wires c
      in if rc_halted (ro_commit (pw_rob_decision w)) then CpuHalted
         else if lo_memory_error (ld_outputs (pw_lsq_decision w)) then CpuMemoryOutOfBound
         else if io_status (pw_issue_outputs w) = InvalidAllocation then CpuInternalError
         else if io_status (pw_issue_outputs w) = InvalidInstruction \<and> rob_empty (rob c)
           then CpuInvalidInstruction
         else if pw_fetch_error w \<and> rob_empty (rob c) then CpuFetchOutOfBound
         else cpu_status c)"

definition next_cpu :: "CPU \<Rightarrow> CPU" where
  "next_cpu c =
     (let w = cycle_wires c; i = cycle_inputs c; commit = ro_commit (pw_rob_decision w)
      in c\<lparr>register_file := rf_latch (rf_apply (ai_register_write i) (register_file c)),
           rename_table := rat_latch (rat_apply (ai_rat_write i) (ai_rat_commit i)
             (ai_rob_flush i) (rename_table c)),
           rob := rob_latch (fst (rob_apply (ai_rob_inputs i) (ai_rob_decision i) (rob c))),
           reservation_station := rs_latch (fst (rs_apply (ai_rs_inputs i) (ai_rs_decision i)
             (reservation_station c))),
           load_store_queue := lsq_latch (fst (lsq_apply (ai_lsq_inputs i) (ai_lsq_decision i)
             (load_store_queue c))),
           functional_unit := fu_latch (fst (fu_apply (ai_execute i) (ai_flush i)
             (ai_integer_granted i) (functional_unit c))),
           common_data_bus := cdb_latch (cdb_apply (ai_cdb_decision i) (common_data_bus c)),
           memory_unit := memory_latch (fst (memory_apply (ai_memory_request i) (memory_unit c))),
           branch_predictor := bp_latch (bp_apply (ai_predictor_update i) (branch_predictor c)),
           current_pc := pc_after c, next_pc := pc_after c,
           fetch_stopped := stopped_after c, next_fetch_stopped := stopped_after c,
           cpu_status := status_after c,
           cycle_count := cycle_count c + 1,
           committed_count :=
             (if rc_valid commit \<and> re_op (rc_entry commit) \<noteq> OP_HALT
              then committed_count c + 1 else committed_count c),
           exit_code := (if rc_halted commit then rf_read (register_file c) 10 AND 0xff
              else exit_code c)\<rparr>)"

definition cycle_asserts :: "CPU \<Rightarrow> bool" where
  "cycle_asserts c \<longleftrightarrow>
     (let w = cycle_wires c; i = cycle_inputs c
      in pw_asserts w
         \<and> lsq_apply_asserts (ai_lsq_inputs i) (ai_lsq_decision i) (load_store_queue c)
         \<and> fu_apply_asserts (ai_execute i) (ai_flush i) (ai_integer_granted i) (functional_unit c)
         \<and> memory_apply_asserts (ai_memory_request i) (memory_unit c)
         \<and> (issue_effective w \<longrightarrow>
              snd (rob_apply (ai_rob_inputs i) (ai_rob_decision i) (rob c))
              \<and> (io_write_rs (pw_issue_outputs w) \<longrightarrow>
                   snd (rs_apply (ai_rs_inputs i) (ai_rs_decision i) (reservation_station c)))
              \<and> (io_write_lsq (pw_issue_outputs w) \<longrightarrow>
                   snd (lsq_apply (ai_lsq_inputs i) (ai_lsq_decision i) (load_store_queue c))))
         \<and> (rso_dispatch_valid (rsd_outputs (pw_rs_decision w)) \<and> rsi_fu_available (ai_rs_inputs i)
              \<and> \<not> cv_flush (cycle_view c) \<longrightarrow>
              snd (fu_apply (ai_execute i) (ai_flush i) (ai_integer_granted i) (functional_unit c)))
         \<and> (rq_valid (lo_memory_request (ld_outputs (pw_lsq_decision w))) \<longrightarrow>
              snd (memory_apply (ai_memory_request i) (memory_unit c)))
         \<and> memory_latch_asserts (fst (memory_apply (ai_memory_request i) (memory_unit c))))"

text \<open>The bookkeeping registers set at the start of a cycle are not observed by the phases.\<close>

definition counters :: "CPU \<Rightarrow> CycleCount \<Rightarrow> Address \<Rightarrow> bool \<Rightarrow> CPU" where
  "counters c x y z = c\<lparr>cycle_count := x, next_pc := y, next_fetch_stopped := z\<rparr>"

lemma counters_fields:
  "rob (counters c x y z) = rob c" "functional_unit (counters c x y z) = functional_unit c"
  "load_store_queue (counters c x y z) = load_store_queue c"
  "memory_unit (counters c x y z) = memory_unit c"
  "common_data_bus (counters c x y z) = common_data_bus c"
  "reservation_station (counters c x y z) = reservation_station c"
  "register_file (counters c x y z) = register_file c"
  "rename_table (counters c x y z) = rename_table c"
  "branch_predictor (counters c x y z) = branch_predictor c"
  "current_pc (counters c x y z) = current_pc c" "fetch_stopped (counters c x y z) = fetch_stopped c"
  by (simp_all add: counters_def)

lemma observe_preview: "preview_rob (counters c x y z) = preview_rob c"
  by (simp only: preview_rob_def counters_fields)

lemma observe_view: "cycle_view (counters c x y z) = cycle_view c"
  by (simp only: cycle_view_def observe_preview counters_fields)

lemma observe_fetch: "fetchAndDecoded (counters c x y z) = fetchAndDecoded c"
  by (simp only: fetchAndDecoded_def predicted_next_pc_def counters_fields)

lemma observe_source: "source_state (counters c x y z) r = source_state c r"
  by (simp only: source_state_def counters_fields)

lemma observe_planned: "planned (counters c x y z) v = planned c v"
  by (simp only: planned_def issue_inputs_of_def observe_source observe_fetch counters_fields)

lemma observe_inputs: "apply_inputs (counters c x y z) v w = apply_inputs c v w"
  by (simp only: apply_inputs_def counters_fields)

lemma cycle_canonical:
  assumes "orders_ok c" and "cpu_status c = CpuRunning"
  shows "cycle c = (if cycle_asserts c then Some (next_cpu c) else None)"
proof -
  define d where "d = counters c (cycle_count c + 1) (current_pc c) (fetch_stopped c)"
  note o = orders_at [OF assms(1), of d]
  have ord: "plan_orders d = plan_orders c" "apply_orders d = apply_orders c"
      "latch_orders d = latch_orders c"
    by (simp_all add: d_def counters_def)
  define s where "s = \<lparr>as_cpu = cycle_next_pc (cycle_wires c) d, as_rob_issue_accepted = False,
     as_rs_issue_accepted = False, as_lsq_issue_accepted = False, as_fu_accepted = False,
     as_memory_accepted = False, as_asserts = True\<rparr>"
  have v: "cycle_view d = cycle_view c"
    by (simp only: d_def observe_view)
  have w: "fold (plan_module d (cycle_view c)) (plan_orders c ! order_index d) plan_wires_default
      = cycle_wires c"
    by (simp only: plan_canonical [OF o(1)] cycle_wires_def) (simp only: d_def observe_planned)
  have i: "apply_inputs d (cycle_view c) (cycle_wires c) = cycle_inputs c"
    by (simp only: d_def observe_inputs cycle_inputs_def)
  have a: "fold (apply_module (cycle_inputs c)) (apply_orders c ! order_index d) s
      = applied (cycle_inputs c) s"
    by (rule apply_canonical [OF o(2)])
  have cs: "order_index (fst (cycle_status (cycle_wires c) (as_cpu (applied (cycle_inputs c) s))))
      = order_index d \<and> latch_orders (fst (cycle_status (cycle_wires c)
          (as_cpu (applied (cycle_inputs c) s)))) = latch_orders c"
    by (simp add: cycle_status_def applied_def Let_def s_def cycle_next_pc_def order_index_def d_def
        counters_def)
  have l: "latch_all (fst (cycle_status (cycle_wires c) (as_cpu (applied (cycle_inputs c) s))))
      = (latched (fst (cycle_status (cycle_wires c) (as_cpu (applied (cycle_inputs c) s)))),
         memory_latch_asserts (memory_unit (fst (cycle_status (cycle_wires c)
           (as_cpu (applied (cycle_inputs c) s))))))"
    by (simp only: latch_all_def cs latch_canonical [OF o(3)])
  have "cycle c =
    (let c1 = fst (cycle_status (cycle_wires c) (as_cpu (applied (cycle_inputs c) s)));
         st = snd (cycle_status (cycle_wires c) (as_cpu (applied (cycle_inputs c) s)));
         c2 = latched c1
     in if pw_asserts (cycle_wires c) \<and> as_asserts (applied (cycle_inputs c) s)
           \<and> accepted_asserts (cycle_view c) (cycle_wires c) (cycle_inputs c)
               (applied (cycle_inputs c) s)
           \<and> memory_latch_asserts (memory_unit c1)
        then Some (c2\<lparr>current_pc := next_pc c2, fetch_stopped := next_fetch_stopped c2,
                      cpu_status := st\<rparr>) else None)"
  proof -
    let ?c = "c\<lparr>cycle_count := cycle_count c + 1\<rparr>"
    have d: "?c\<lparr>next_pc := current_pc ?c, next_fetch_stopped := fetch_stopped ?c\<rparr> = d"
      by (simp add: d_def counters_def)
    have npc: "apply_orders (cycle_next_pc (cycle_wires c) d) = apply_orders c"
      by (simp add: cycle_next_pc_def Let_def d_def counters_def)
    have run: "(cpu_status c \<noteq> CpuRunning) = False" using assms(2) by simp
    show ?thesis
      unfolding cycle_def run if_False Let_def d v ord w i s_def [symmetric] npc a
      by (simp only: l case_prod_beta fst_conv snd_conv simp_thms)
  qed
  also have "\<dots> = (if cycle_asserts c then Some (next_cpu c) else None)"
  proof -
    let ?w = "cycle_wires c" and ?i = "cycle_inputs c"
    let ?c1 = "fst (cycle_status ?w (as_cpu (applied ?i s)))"
    let ?st = "snd (cycle_status ?w (as_cpu (applied ?i s)))"
    let ?c2 = "(latched ?c1)\<lparr>current_pc := next_pc (latched ?c1),
       fetch_stopped := next_fetch_stopped (latched ?c1), cpu_status := ?st\<rparr>"
    define e where "e = cycle_next_pc ?w d"
    have e: "memory_unit e = memory_unit c" "register_file e = register_file c"
        "rename_table e = rename_table c" "rob e = rob c"
        "reservation_station e = reservation_station c" "load_store_queue e = load_store_queue c"
        "functional_unit e = functional_unit c" "common_data_bus e = common_data_bus c"
        "branch_predictor e = branch_predictor c" "next_pc e = pc_after c"
        "next_fetch_stopped e = stopped_after c" "cpu_status e = cpu_status c"
        "cycle_count e = cycle_count c + 1" "committed_count e = committed_count c"
        "exit_code e = exit_code c" "plan_orders e = plan_orders c"
        "apply_orders e = apply_orders c" "latch_orders e = latch_orders c"
      by (simp_all add: e_def d_def counters_def cycle_next_pc_def pc_after_def stopped_after_def
          Let_def)
    have s: "as_cpu s = e" "as_asserts s" by (simp_all add: s_def e_def)
    note f = cycle_status_def applied_def Let_def s e
    have asserts: "pw_asserts ?w \<and> as_asserts (applied ?i s)
        \<and> accepted_asserts (cycle_view c) ?w ?i (applied ?i s)
        \<and> memory_latch_asserts (memory_unit ?c1) \<longleftrightarrow> cycle_asserts c"
      by (simp add: f cycle_asserts_def accepted_asserts_def)
    have "?c2 = next_cpu c"
      by (rule CPU.equality) (simp_all add: f latched_def next_cpu_def status_after_def)
    then show ?thesis
      unfolding Let_def asserts by simp
  qed
  finally show ?thesis .
qed

end
