(* ===== verification/Program.thy ===== *)
theory Program
  imports Cpu
begin

text \<open>
  \<open>main.cpp\<close>: load the image from the standard input, run the core, print the low byte of the
  result on the standard output and the statistics, or what went wrong, on the error stream.
\<close>

record ProcessResult =
  exit_status :: int
  standard_output :: string
  error_output :: string

definition fault_report :: "RunResult \<Rightarrow> CPU \<Rightarrow> string" where
  "fault_report result cpu =
     ''CPU stopped with status '' @ decimal (status_code (rr_status result))
       @ '' at pc=0x'' @ hexadecimal (unat (cpu_pc cpu)) @ newline"

definition statistics_report :: "CPU \<Rightarrow> string" where
  "statistics_report cpu =
     ''cycles: '' @ decimal (unat (cycle_count cpu)) @ newline
       @ ''committed: '' @ decimal (unat (committed_count cpu)) @ newline
       @ ''branches: '' @ decimal (unat (branch_count cpu)) @ newline
       @ ''correct predictions: '' @ decimal (unat (correct_branch_count cpu)) @ newline
       @ ''accuracy: '' @ print_double (branch_accuracy cpu) @ newline"

text \<open>
  The random engine is seeded with 0.  The result is \<open>None\<close> when the program does not return: an
  assertion fails, or the loop of \<open>run\<close> does not end.
\<close>

definition cpu_main ::
  "('e \<Rightarrow> nat list \<Rightarrow> nat list \<times> 'e) \<Rightarrow> (nat \<Rightarrow> 'e) \<Rightarrow> istream \<Rightarrow> ProcessResult option" where
  "cpu_main shuffle seeded_engine inputs =
     (let (load_result, cpu) = cpu_load inputs (cpu_new shuffle (seeded_engine 0))
      in if \<not> load_ok load_result
         then Some \<lparr>exit_status = 1, standard_output = [],
                    error_output = ''failed to load memory image'' @ newline\<rparr>
         else
           case cpu_run cpu of
             None \<Rightarrow> None
           | Some (cpu, result) \<Rightarrow>
               if \<not> rr_halted result
               then Some \<lparr>exit_status = 1, standard_output = [], error_output = fault_report result cpu\<rparr>
               else Some \<lparr>exit_status = 0,
                          standard_output = decimal (unat (rr_value result AND 0xff)) @ newline,
                          error_output = statistics_report cpu\<rparr>)"

end
