(* ===== verification/ScheduleCorrect.thy ===== *)
theory ScheduleCorrect
  imports CycleOrder Program
begin

text \<open>
  The shuffled orders are invisible: whatever permutations the constructor draws, the program
  prints the same result.
\<close>

section \<open>The tables\<close>

definition permutes :: "('e \<Rightarrow> nat list \<Rightarrow> nat list \<times> 'e) \<Rightarrow> bool" where
  "permutes shuffle \<longleftrightarrow> (\<forall>e xs. mset (fst (shuffle e xs)) = mset xs)"

definition tables_ok :: "nat list \<times> nat list \<times> nat list \<Rightarrow> bool" where
  "tables_ok t \<longleftrightarrow> permutation_of 4 (fst t) \<and> permutation_of 9 (fst (snd t))
     \<and> permutation_of 9 (snd (snd t))"

lemma shuffle_orders_ok:
  assumes "permutes shuffle"
  shows "tables_ok (fst (shuffle_orders shuffle e))"
proof -
  have u: "[0..<4] = [0, 1, 2, 3 :: nat]" "[0..<9] = [0, 1, 2, 3, 4, 5, 6, 7, 8 :: nat]"
    by code_simp+
  have p: "mset (fst (shuffle e xs)) = mset xs" for e xs
    using assms by (simp add: permutes_def)
  show ?thesis
    unfolding tables_ok_def permutation_of_def shuffle_orders_def Let_def case_prod_beta u
    by (simp only: fst_conv snd_conv p simp_thms)
qed

lemma execution_orders_ok:
  assumes "permutes shuffle"
  shows "length (execution_orders shuffle n e) = n \<and> list_all tables_ok (execution_orders shuffle n e)"
  using shuffle_orders_ok [OF assms]
  by (induction n arbitrary: e) (auto simp: case_prod_beta)

lemma orders_ok_new:
  assumes "permutes shuffle"
  shows "orders_ok (cpu_new shuffle e)"
  using execution_orders_ok [OF assms, of kOrderVariantCount e]
  by (auto simp: cpu_new_def initialize_execution_orders_def Let_def orders_ok_def list_all_iff
      tables_ok_def)

section \<open>Forgetting the tables\<close>

definition with_orders :: "CPU \<Rightarrow> CPU \<Rightarrow> CPU" where
  "with_orders c d = c\<lparr>plan_orders := plan_orders d, apply_orders := apply_orders d,
     latch_orders := latch_orders d\<rparr>"

lemma with_orders_fields:
  "rob (with_orders c d) = rob c" "functional_unit (with_orders c d) = functional_unit c"
  "load_store_queue (with_orders c d) = load_store_queue c"
  "memory_unit (with_orders c d) = memory_unit c"
  "common_data_bus (with_orders c d) = common_data_bus c"
  "reservation_station (with_orders c d) = reservation_station c"
  "register_file (with_orders c d) = register_file c"
  "rename_table (with_orders c d) = rename_table c"
  "branch_predictor (with_orders c d) = branch_predictor c"
  "current_pc (with_orders c d) = current_pc c" "fetch_stopped (with_orders c d) = fetch_stopped c"
  "cpu_status (with_orders c d) = cpu_status c" "exit_code (with_orders c d) = exit_code c"
  "cycle_count (with_orders c d) = cycle_count c"
  "committed_count (with_orders c d) = committed_count c"
  by (simp_all add: with_orders_def)

lemma with_orders_view: "cycle_view (with_orders c d) = cycle_view c"
  by (simp only: cycle_view_def preview_rob_def with_orders_fields)

lemma with_orders_wires: "cycle_wires (with_orders c d) = cycle_wires c"
  by (simp only: cycle_wires_def with_orders_view planned_def issue_inputs_of_def source_state_def
      fetchAndDecoded_def predicted_next_pc_def with_orders_fields)

lemma with_orders_inputs: "cycle_inputs (with_orders c d) = cycle_inputs c"
  by (simp only: cycle_inputs_def with_orders_view with_orders_wires apply_inputs_def
      with_orders_fields)

lemma with_orders_asserts: "cycle_asserts (with_orders c d) = cycle_asserts c"
  by (simp only: cycle_asserts_def with_orders_view with_orders_wires with_orders_inputs
      with_orders_fields)

lemma with_orders_next: "next_cpu (with_orders c d) = with_orders (next_cpu c) d"
proof -
  have "pc_after (with_orders c d) = pc_after c" "stopped_after (with_orders c d) = stopped_after c"
      "status_after (with_orders c d) = status_after c"
    by (simp_all only: pc_after_def stopped_after_def status_after_def with_orders_wires
        with_orders_fields)
  note s = this
  show ?thesis
    unfolding next_cpu_def Let_def with_orders_wires with_orders_inputs with_orders_fields s
    by (simp add: with_orders_def)
qed

definition same_machine :: "CPU \<Rightarrow> CPU \<Rightarrow> bool" where
  "same_machine c d \<longleftrightarrow> d = with_orders c d"

lemma same_machine_sym: "same_machine c d \<Longrightarrow> same_machine d c"
  unfolding same_machine_def by (cases c; cases d) (simp add: with_orders_def)

lemma same_machine_fields:
  assumes "same_machine c d"
  shows "cpu_status d = cpu_status c" "exit_code d = exit_code c"
  using assms with_orders_fields unfolding same_machine_def by metis+

lemma with_orders_reports:
  "fault_report r (with_orders c d) = fault_report r c"
  "statistics_report (with_orders c d) = statistics_report c"
  by (simp_all add: fault_report_def statistics_report_def with_orders_def cpu_pc_def branch_count_def
      correct_branch_count_def branch_accuracy_def)

lemma same_machine_reports:
  assumes "same_machine c d"
  shows "fault_report r d = fault_report r c" "statistics_report d = statistics_report c"
  using assms with_orders_reports unfolding same_machine_def by metis+

lemma next_cpu_orders:
  "plan_orders (next_cpu c) = plan_orders c" "apply_orders (next_cpu c) = apply_orders c"
  "latch_orders (next_cpu c) = latch_orders c"
  by (simp_all add: next_cpu_def Let_def)

lemma orders_ok_next: "orders_ok c \<Longrightarrow> orders_ok (next_cpu c)"
  by (simp add: orders_ok_def next_cpu_orders)

lemma same_machine_cycle:
  assumes "same_machine c d" and "orders_ok c" and "orders_ok d" and "cpu_status c = CpuRunning"
    and "cycle c = Some c'"
  shows "\<exists>d'. cycle d = Some d' \<and> same_machine c' d' \<and> orders_ok c' \<and> orders_ok d'"
proof -
  have d: "d = with_orders c d" using assms(1) by (simp add: same_machine_def)
  have run: "cpu_status d = CpuRunning" using same_machine_fields [OF assms(1)] assms(4) by simp
  have c': "cycle_asserts c" "c' = next_cpu c"
    using assms(5) cycle_canonical [OF assms(2,4)] by (auto split: if_splits)
  have a: "cycle_asserts d" using c'(1) with_orders_asserts d by metis
  have n: "next_cpu d = with_orders c' (next_cpu d)"
  proof -
    have "next_cpu d = with_orders (next_cpu c) d" using with_orders_next d by metis
    moreover have "with_orders c' (next_cpu d) = with_orders c' d"
      by (simp add: with_orders_def next_cpu_orders)
    ultimately show ?thesis by (simp add: c'(2))
  qed
  show ?thesis
    using cycle_canonical [OF assms(3) run] a n c'(2) orders_ok_next assms(2,3)
    by (simp add: same_machine_def)
qed

lemma same_machine_loop:
  assumes "cpu_loop c = Some r" and "same_machine c d" and "orders_ok c" and "orders_ok d"
  shows "\<exists>r'. cpu_loop d = Some r' \<and> same_machine r r'"
proof -
  have "\<forall>d. same_machine c d \<longrightarrow> orders_ok c \<longrightarrow> orders_ok d \<longrightarrow>
      (\<exists>r'. cpu_loop d = Some r' \<and> same_machine r r')"
  proof (rule cpu_loop.raw_induct [where P = "\<lambda>c r. \<forall>d. same_machine c d \<longrightarrow> orders_ok c \<longrightarrow>
        orders_ok d \<longrightarrow> (\<exists>r'. cpu_loop d = Some r' \<and> same_machine r r')", OF _ assms(1)],
      intro allI impI)
    fix loop c r d
    assume IH: "\<And>x y. loop x = Some y \<Longrightarrow> \<forall>d. same_machine x d \<longrightarrow> orders_ok x \<longrightarrow>
        orders_ok d \<longrightarrow> (\<exists>r'. cpu_loop d = Some r' \<and> same_machine y r')"
      and eq: "(if cpu_status c = CpuRunning
        then (case cycle c of None \<Rightarrow> None | Some c' \<Rightarrow> loop c') else Some c) = Some r"
      and same: "same_machine c d" "orders_ok c" "orders_ok d"
    note st = same_machine_fields(1) [OF same(1)]
    show "\<exists>r'. cpu_loop d = Some r' \<and> same_machine r r'"
    proof (cases "cpu_status c = CpuRunning")
      case False
      then show ?thesis using eq same st by (subst cpu_loop.simps) simp
    next
      case True
      then obtain c' where c': "cycle c = Some c'" "loop c' = Some r"
        using eq by (auto split: option.splits)
      obtain d' where d': "cycle d = Some d'" "same_machine c' d'" "orders_ok c'" "orders_ok d'"
        using same_machine_cycle [OF same True c'(1)] by blast
      then have "\<exists>r'. cpu_loop d' = Some r' \<and> same_machine r r'" using IH [OF c'(2)] by blast
      then show ?thesis using True st d'(1) by (subst cpu_loop.simps) simp
    qed
  qed
  then show ?thesis using assms(2-4) by blast
qed

lemma same_machine_loops:
  assumes "same_machine c d" and "orders_ok c" and "orders_ok d"
  shows "rel_option same_machine (cpu_loop c) (cpu_loop d)"
proof (cases "cpu_loop c")
  case (Some r)
  then show ?thesis using same_machine_loop [OF Some assms] by auto
next
  case None
  have "cpu_loop d = None"
  proof (cases "cpu_loop d")
    case (Some r)
    then show ?thesis
      using same_machine_loop [OF Some same_machine_sym [OF assms(1)] assms(3,2)] None by auto
  qed
  then show ?thesis using None by simp
qed

lemma cpu_load_orders:
  "orders_ok c \<Longrightarrow> orders_ok (snd (cpu_load inputs c))"
  by (simp add: cpu_load_def Let_def orders_ok_def case_prod_beta)

lemma same_machine_load:
  assumes "same_machine c d"
  shows "same_machine (snd (cpu_load inputs c)) (snd (cpu_load inputs d))"
    and "fst (cpu_load inputs d) = fst (cpu_load inputs c)"
proof -
  have d: "d = with_orders c d" using assms by (simp add: same_machine_def)
  have l: "cpu_load inputs (with_orders c x)
      = (fst (cpu_load inputs c), with_orders (snd (cpu_load inputs c)) x)" for x
    by (simp add: cpu_load_def Let_def with_orders_def case_prod_beta)
  have o: "with_orders e (snd (cpu_load inputs x)) = with_orders e x" for e x
    by (simp add: cpu_load_def Let_def with_orders_def case_prod_beta)
  show "same_machine (snd (cpu_load inputs c)) (snd (cpu_load inputs d))"
    unfolding same_machine_def o using l [of d] d by (metis snd_conv)
  show "fst (cpu_load inputs d) = fst (cpu_load inputs c)"
    using l [of d] d by (metis fst_conv)
qed

lemma same_machine_new: "same_machine (cpu_new sh e) (cpu_new sh' e')"
  by (simp add: same_machine_def with_orders_def cpu_new_def initialize_execution_orders_def Let_def)

section \<open>Properties\<close>

text \<open>C22: one cycle of the core does not depend on the order in which its modules plan, apply and
  latch: with any tables of permutations it is the parallel composition \<open>next_cpu\<close> of the modules'
  transitions, and it fails an assertion exactly when \<open>cycle_asserts\<close> does not hold.\<close>

theorem cycle_order_independent:
  assumes "orders_ok c" and "cpu_status c = CpuRunning"
  shows "cycle c = (if cycle_asserts c then Some (next_cpu c) else None)"
  using assms by (rule cycle_canonical)

theorem cycle_order_independent_witness:
  "\<exists>c. cycle c = (if cycle_asserts c then Some (next_cpu c) else None) \<and> cpu_status c = CpuRunning
     \<and> plan_orders c ! 0 = [3, 2, 1, 0]"
proof -
  let ?sh = "\<lambda>(e :: unit) xs. (rev xs, e)"
  let ?c = "(cpu_new ?sh ())\<lparr>cpu_status := CpuRunning\<rparr>"
  have "permutes ?sh" by (simp add: permutes_def)
  then have o: "orders_ok ?c" using orders_ok_new [of ?sh "()"] by (simp add: orders_ok_def)
  have "plan_orders ?c ! 0 = [3, 2, 1, 0]"
    by (simp add: cpu_new_def initialize_execution_orders_def Let_def kOrderVariantCount_def
        numeral_eq_Suc shuffle_orders_def)
  then show ?thesis
    using cycle_order_independent [OF o] by (intro exI [of _ ?c]) simp
qed

text \<open>C21: the program's output does not depend on the random engine: for any two permuting shuffles
  and seeds, \<open>main\<close> ends in the same exit code and writes the same text on both streams, statistics
  included, or runs for ever, or aborts, in both.\<close>

theorem output_independent_of_seed:
  assumes "permutes shuffle" and "permutes shuffle'"
  shows "cpu_main shuffle seeded inputs = cpu_main shuffle' seeded' inputs"
proof -
  let ?c = "cpu_new shuffle (seeded 0)" and ?d = "cpu_new shuffle' (seeded' 0)"
  let ?lc = "snd (cpu_load inputs ?c)" and ?ld = "snd (cpu_load inputs ?d)"
  note l = same_machine_load [OF same_machine_new, of inputs shuffle "seeded 0" shuffle' "seeded' 0"]
  note st = same_machine_fields [OF l(1)]
  have r: "rel_option same_machine (cpu_loop ?lc) (cpu_loop ?ld)"
    by (rule same_machine_loops [OF l(1) cpu_load_orders cpu_load_orders])
       (rule orders_ok_new, rule assms)+
  have load: "fst (cpu_load inputs ?d) = fst (cpu_load inputs ?c)" by (rule same_machine_load(2) [OF same_machine_new])
  have run: "rel_option (rel_prod same_machine (=)) (cpu_run ?lc) (cpu_run ?ld)"
    using r st l(1) same_machine_fields
    by (cases "cpu_loop ?lc"; cases "cpu_loop ?ld") (auto simp: cpu_run_def)
  show ?thesis
    using run load same_machine_reports
    by (cases "cpu_run ?lc"; cases "cpu_run ?ld") (auto simp: cpu_main_def Let_def case_prod_beta)
qed

theorem output_independent_of_seed_witness:
  "\<forall>inputs. cpu_main (\<lambda>(e :: nat) xs. (xs, e)) id inputs
     = cpu_main (\<lambda>(e :: nat) xs. (rev xs, Suc e)) Suc inputs"
proof
  fix inputs
  show "cpu_main (\<lambda>(e :: nat) xs. (xs, e)) id inputs
     = cpu_main (\<lambda>(e :: nat) xs. (rev xs, Suc e)) Suc inputs"
    by (rule output_independent_of_seed) (simp_all add: permutes_def)
qed

end
