(* ===== verification/CycleFacts.thy ===== *)
theory CycleFacts
  imports CycleOrder LsqCorrect RsCorrect IssueCorrect
begin

text \<open>
  The wires of a canonical cycle, said over the lists of the queues: who flushes, what the bus
  carries, what the head of the load/store queue does, and which instruction is issued.
\<close>

section \<open>Flush\<close>

definition flushing :: "CPU \<Rightarrow> bool" where
  "flushing c \<longleftrightarrow> head_commits (rob c) \<and> head_mispredicted (hd (rob_list (rob c)))"

definition store_waiting :: "CPU \<Rightarrow> bool" where
  "store_waiting c \<longleftrightarrow> rob_list (rob c) \<noteq> [] \<and> re_is_store (hd (rob_list (rob c)))
     \<and> \<not> re_ready (hd (rob_list (rob c)))"

lemma preview_facts:
  assumes "rob_invar (rob c)"
  shows "pv_flush (preview_rob c) = flushing c"
    and "pv_store_request (preview_rob c) =
      (if store_waiting c then \<lparr>scr_tag = re_tag (hd (rob_list (rob c))), scr_valid = True\<rparr>
       else store_request_default)"
  by (cases "rob_list (rob c)";
      auto simp: preview_rob_def rob_front_list [OF assms] flushing_def head_commits_def
        head_mispredicted_def is_control_instruction_def preview_default_def Let_def
        store_waiting_def)+

lemma cycle_view_simps [simp]:
  "cv_preview (cycle_view c) = preview_rob c"
  "lob_flush (cv_lsq_observe (cycle_view c)) = pv_flush (preview_rob c)"
  "lob_memory_response (cv_lsq_observe (cycle_view c)) = mu_current_response (memory_unit c)"
  "lob_memory_available (cv_lsq_observe (cycle_view c)) = data_port_available (memory_unit c)"
  "lob_store_request (cv_lsq_observe (cycle_view c)) = pv_store_request (preview_rob c)"
  "lob_load_result_granted (cv_lsq_observe (cycle_view c)) = co_load_granted (cv_cdb (cycle_view c))"
  by (simp_all add: cycle_view_def Let_def data_response_def)

section \<open>The bus\<close>

definition bus :: "CPU \<Rightarrow> CDBOutputs" where
  "bus c = cv_cdb (cycle_view c)"

definition bus_message :: "FUResult \<Rightarrow> CDBMsg" where
  "bus_message f = (if fu_valid f then \<lparr>msg_tag = fu_tag f, msg_value = fu_value f, msg_valid = True\<rparr>
     else msg_default)"

lemma bus_plan:
  assumes "rob_invar (rob c)"
  shows "bus c = cd_outputs (cdb_plan (common_data_bus c)
     (if flushing c then cdb_inputs_default
      else \<lparr>ci_integer_result = fu_current_result (functional_unit c),
            ci_load_result = lsq_cur_load_result (load_store_queue c)\<rparr>))"
  by (simp add: bus_def cycle_view_def Let_def preview_facts(1) [OF assms] fu_result_def
      load_result_def)

lemma bus_cases:
  assumes "rob_invar (rob c)"
  obtains
    (none) "bus c = cdb_outputs_default"
  | (integer) "\<not> flushing c" "co_integer_granted (bus c)" "\<not> co_load_granted (bus c)"
      "valid_candidate (fu_current_result (functional_unit c))"
      "co_completion (bus c) = fu_current_result (functional_unit c)"
  | (load) "\<not> flushing c" "co_load_granted (bus c)" "\<not> co_integer_granted (bus c)"
      "valid_candidate (lsq_cur_load_result (load_store_queue c))"
      "co_completion (bus c) = lsq_cur_load_result (load_store_queue c)"
proof -
  let ?i = "if flushing c then cdb_inputs_default
      else \<lparr>ci_integer_result = fu_current_result (functional_unit c),
            ci_load_result = lsq_cur_load_result (load_store_queue c)\<rparr>"
  have no: "flushing c \<Longrightarrow> \<not> valid_candidate (ci_integer_result ?i) \<and> \<not> valid_candidate (ci_load_result ?i)"
    by (simp add: cdb_inputs_default_def)
  consider "co_integer_granted (bus c)" | "co_load_granted (bus c)"
    | "\<not> co_integer_granted (bus c)" "\<not> co_load_granted (bus c)" by blast
  then show thesis
  proof cases
    case 1
    note g = cdb_integer_granted [OF 1 [unfolded bus_plan [OF assms]]]
    have "\<not> flushing c" using no g by blast
    then show thesis
      using g 1 by (intro integer) (auto simp: bus_plan [OF assms])
  next
    case 2
    note g = cdb_load_granted [OF 2 [unfolded bus_plan [OF assms]]]
    have "\<not> flushing c" using no g by blast
    then show thesis
      using g 2 by (intro load) (auto simp: bus_plan [OF assms])
  next
    case 3
    then show thesis
      using cdb_no_grant [of "common_data_bus c" ?i] by (intro none) (simp add: bus_plan [OF assms])
  qed
qed

lemma bus_broadcast:
  assumes "rob_invar (rob c)"
  shows "co_broadcast (bus c) = bus_message (co_completion (bus c))"
    and "fu_valid (co_completion (bus c)) \<Longrightarrow> tag_valid (fu_tag (co_completion (bus c)))"
    and "flushing c \<Longrightarrow> bus c = cdb_outputs_default"
proof -
  let ?i = "if flushing c then cdb_inputs_default
      else \<lparr>ci_integer_result = fu_current_result (functional_unit c),
            ci_load_result = lsq_cur_load_result (load_store_queue c)\<rparr>"
  show "co_broadcast (bus c) = bus_message (co_completion (bus c))"
    using assms
  proof (cases rule: bus_cases)
    case none
    then show ?thesis by (simp add: cdb_outputs_default_def bus_message_def fu_result_default_def)
  next
    case integer
    then show ?thesis
      using cdb_integer_granted [of "common_data_bus c" ?i] bus_plan [OF assms]
      by (simp add: bus_message_def valid_candidate_iff)
  next
    case load
    then show ?thesis
      using cdb_load_granted [of "common_data_bus c" ?i] bus_plan [OF assms]
      by (simp add: bus_message_def valid_candidate_iff)
  qed
  show "fu_valid (co_completion (bus c)) \<Longrightarrow> tag_valid (fu_tag (co_completion (bus c)))"
    using assms
    by (cases rule: bus_cases)
       (auto simp: cdb_outputs_default_def fu_result_default_def valid_candidate_iff)
  show "flushing c \<Longrightarrow> bus c = cdb_outputs_default"
    using assms by (cases rule: bus_cases) auto
qed

section \<open>The head of the load/store queue\<close>

abbreviation lsq_entries :: "CPU \<Rightarrow> LSQEntry list" where
  "lsq_entries c \<equiv> lsq_list (load_store_queue c)"

definition response_for_head :: "CPU \<Rightarrow> bool" where
  "response_for_head c \<longleftrightarrow> \<not> flushing c \<and> lsq_entries c \<noteq> []
     \<and> matching_response (hd (lsq_entries c)) (mu_current_response (memory_unit c))"

definition head_finishes :: "CPU \<Rightarrow> bool" where
  "head_finishes c \<longleftrightarrow> response_for_head c \<and> rsp_success (mu_current_response (memory_unit c))"

definition head_sends :: "CPU \<Rightarrow> bool" where
  "head_sends c \<longleftrightarrow> \<not> flushing c \<and> lsq_entries c \<noteq> []
     \<and> \<not> le_request_sent (hd (lsq_entries c)) \<and> le_address_ready (hd (lsq_entries c))
     \<and> data_port_available (memory_unit c)
     \<and> (if le_type (hd (lsq_entries c)) = LOAD
        then \<not> fu_valid (lsq_cur_load_result (load_store_queue c)) \<or> co_load_granted (bus c)
        else opd_ready (le_store_data (hd (lsq_entries c))) \<and> store_waiting c
             \<and> re_tag (hd (rob_list (rob c))) = le_destination (hd (lsq_entries c)))"

definition lsq_dec :: "CPU \<Rightarrow> LSQDecision" where
  "lsq_dec c = lsq_plan (load_store_queue c) (cv_lsq_observe (cycle_view c))"

lemma lsq_defaults [simp]:
  "ld_outputs lsq_decision_default = lsq_outputs_default"
  "ld_completed_load_result lsq_decision_default = fu_result_default"
  "\<not> ld_clear_load_result lsq_decision_default"
  "\<not> ld_install_load_result lsq_decision_default"
  "\<not> ld_remove_head lsq_decision_default"
  "\<not> ld_mark_request_sent lsq_decision_default"
  "lo_memory_request lsq_outputs_default = request_default"
  "lo_store_completion lsq_outputs_default = store_completion_default"
  "\<not> lo_memory_error lsq_outputs_default"
  by (simp_all add: lsq_decision_default_def lsq_outputs_default_def)

lemma lsq_plan_facts:
  assumes "rob_invar (rob c)" and "lsq_invar (load_store_queue c)"
  shows "ld_remove_head (lsq_dec c) = head_finishes c"
    and "ld_install_load_result (lsq_dec c) =
      (head_finishes c \<and> le_type (hd (lsq_entries c)) = LOAD)"
    and "ld_mark_request_sent (lsq_dec c) = head_sends c"
    and "head_finishes c \<Longrightarrow> le_type (hd (lsq_entries c)) = LOAD \<Longrightarrow>
      ld_completed_load_result (lsq_dec c) = fu_result_default
        \<lparr>fu_tag := le_destination (hd (lsq_entries c)),
         fu_value := extend_load_result (le_op (hd (lsq_entries c)))
           (rsp_value (mu_current_response (memory_unit c))),
         fu_valid := True\<rparr>"
    and "ld_clear_load_result (lsq_dec c) =
      (\<not> flushing c \<and> co_load_granted (bus c) \<and> fu_valid (lsq_cur_load_result (load_store_queue c)))"
    and "lo_memory_request (ld_outputs (lsq_dec c)) =
      (if head_sends c then make_memory_request (hd (lsq_entries c)) else request_default)"
    and "lo_store_completion (ld_outputs (lsq_dec c)) =
      (if head_finishes c \<and> le_type (hd (lsq_entries c)) = STORE
       then \<lparr>scc_tag = le_destination (hd (lsq_entries c)), scc_valid = True\<rparr>
       else store_completion_default)"
    and "lo_memory_error (ld_outputs (lsq_dec c)) =
      (response_for_head c \<and> \<not> rsp_success (mu_current_response (memory_unit c)))"
proof -
  let ?q = "load_store_queue c" and ?h = "hd (lsq_entries c)"
  let ?d0 = "lsq_decision_default\<lparr>ld_clear_load_result :=
     (co_load_granted (bus c) \<and> fu_valid (lsq_cur_load_result ?q))\<rparr>"
  have hd: "lsq_list ?q \<noteq> [] \<Longrightarrow> lsq_cur ?q ! lsq_head ?q = ?h"
    by (rule lsq_head_list [OF assms(2)])
  have e: "lsq_empty ?q = (lsq_list ?q = [])"
    by (simp add: lsq_empty_def lsq_list_Nil)
  have v: "lsq_list ?q \<noteq> [] \<Longrightarrow> le_valid ?h"
    by (rule lsq_list_valid [OF assms(2)]) simp
  have st: "le_type x \<noteq> LOAD \<longleftrightarrow> le_type x = STORE" for x :: LSQEntry
    by (cases "le_type x") simp_all
  have sr: "(scr_valid (pv_store_request (preview_rob c))
        \<and> scr_tag (pv_store_request (preview_rob c)) = le_destination ?h)
      = (store_waiting c \<and> re_tag (hd (rob_list (rob c))) = le_destination ?h)"
    by (auto simp: preview_facts(2) [OF assms(1)] store_request_default_def)
  have d: "lsq_dec c = (if flushing c then lsq_decision_default
      else lsq_plan_request ?q (cv_lsq_observe (cycle_view c))
        (lsq_plan_response ?q (mu_current_response (memory_unit c)) ?d0))"
    by (simp add: lsq_dec_def lsq_plan_def preview_facts(1) [OF assms(1)] bus_def Let_def)
  have resp: "lsq_plan_response ?q (mu_current_response (memory_unit c)) ?d0 =
      (if lsq_list ?q \<noteq> [] \<and> matching_response ?h (mu_current_response (memory_unit c)) then
         if \<not> rsp_success (mu_current_response (memory_unit c))
         then ?d0\<lparr>ld_outputs := (ld_outputs ?d0)\<lparr>lo_memory_error := True\<rparr>\<rparr>
         else if le_type ?h = LOAD
         then ?d0\<lparr>ld_completed_load_result := fu_result_default
                \<lparr>fu_tag := le_destination ?h,
                 fu_value := extend_load_result (le_op ?h) (rsp_value (mu_current_response (memory_unit c))),
                 fu_valid := True\<rparr>,
              ld_install_load_result := True, ld_remove_head := True\<rparr>
         else ?d0\<lparr>ld_outputs := (ld_outputs ?d0)\<lparr>lo_store_completion :=
                \<lparr>scc_tag = le_destination ?h, scc_valid = True\<rparr>\<rparr>, ld_remove_head := True\<rparr>
       else ?d0)" if "\<not> flushing c"
    unfolding lsq_plan_response_def Let_def e using hd by auto
  have req: "lsq_plan_request ?q (cv_lsq_observe (cycle_view c)) x =
      (if head_sends c then x\<lparr>ld_outputs := (ld_outputs x)\<lparr>lo_memory_request := make_memory_request ?h\<rparr>,
           ld_mark_request_sent := True\<rparr> else x)" if "\<not> flushing c" for x
    using that hd v sr
    by (auto simp: lsq_plan_request_def Let_def e head_sends_def bus_def)
  have fin: "head_finishes c = (\<not> flushing c \<and> lsq_list ?q \<noteq> []
      \<and> matching_response ?h (mu_current_response (memory_unit c))
      \<and> rsp_success (mu_current_response (memory_unit c)))"
    by (auto simp: head_finishes_def response_for_head_def)
  have nf: "flushing c \<Longrightarrow> \<not> head_sends c" by (simp add: head_sends_def)
  note s = d fin nf response_for_head_def
  show "ld_remove_head (lsq_dec c) = head_finishes c"
    by (cases "flushing c") (auto simp: s resp req)
  show "ld_install_load_result (lsq_dec c) = (head_finishes c \<and> le_type ?h = LOAD)"
    by (cases "flushing c") (auto simp: s resp req)
  show "ld_mark_request_sent (lsq_dec c) = head_sends c"
    by (cases "flushing c") (auto simp: s resp req)
  show "head_finishes c \<Longrightarrow> le_type ?h = LOAD \<Longrightarrow>
      ld_completed_load_result (lsq_dec c) = fu_result_default
        \<lparr>fu_tag := le_destination ?h,
         fu_value := extend_load_result (le_op ?h) (rsp_value (mu_current_response (memory_unit c))),
         fu_valid := True\<rparr>"
    by (auto simp: s resp req)
  show "ld_clear_load_result (lsq_dec c) =
      (\<not> flushing c \<and> co_load_granted (bus c) \<and> fu_valid (lsq_cur_load_result ?q))"
    by (cases "flushing c") (auto simp: s resp req)
  show "lo_memory_request (ld_outputs (lsq_dec c)) =
      (if head_sends c then make_memory_request ?h else request_default)"
    by (cases "flushing c") (auto simp: s resp req)
  show "lo_store_completion (ld_outputs (lsq_dec c)) =
      (if head_finishes c \<and> le_type ?h = STORE
       then \<lparr>scc_tag = le_destination ?h, scc_valid = True\<rparr> else store_completion_default)"
    by (cases "flushing c"; cases "le_type ?h") (auto simp: s resp req)
  show "lo_memory_error (ld_outputs (lsq_dec c)) =
      (response_for_head c \<and> \<not> rsp_success (mu_current_response (memory_unit c)))"
    by (cases "flushing c") (auto simp: s resp req)
qed

end
