(* ===== verification/CoreStep.thy ===== *)
theory CoreStep
  imports CycleFacts QueueRuns AccessPaths ModulesCorrect
begin

text \<open>
  One canonical cycle over lists, bags and maps: which instruction is issued, and what the reorder
  buffer, the reservation station, the load/store queue, the integer unit, the register file, the
  rename table and the memory are afterwards.  Nothing here refers to ring positions, to the order
  of modules or to the record of wires any more.
\<close>

section \<open>Shapes\<close>

definition shapes :: "CPU \<Rightarrow> bool" where [inv_defs]:
  "shapes c \<longleftrightarrow> rob_invar (rob c) \<and> lsq_invar (load_store_queue c)
     \<and> rs_invar (reservation_station c) \<and> rf_invar (register_file c) \<and> rat_invar (rename_table c)"

abbreviation rob_entries :: "CPU \<Rightarrow> ROBEntry list" where
  "rob_entries c \<equiv> rob_list (rob c)"

abbreviation core_memory :: "CPU \<Rightarrow> MemoryImage" where
  "core_memory c \<equiv> mu_memory (memory_unit c)"

abbreviation unit_result :: "CPU \<Rightarrow> FUResult" where
  "unit_result c \<equiv> fu_current_result (functional_unit c)"

abbreviation loaded :: "CPU \<Rightarrow> FUResult" where
  "loaded c \<equiv> lsq_cur_load_result (load_store_queue c)"

abbreviation transaction :: "CPU \<Rightarrow> DataTransaction" where
  "transaction c \<equiv> mu_current_transaction (memory_unit c)"

abbreviation response :: "CPU \<Rightarrow> DataMemoryResponse" where
  "response c \<equiv> mu_current_response (memory_unit c)"

lemma rob_full_list: "rob_full (rob c) \<longleftrightarrow> length (rob_entries c) = 32"
  by (simp add: rob_full_def rob_kCapacity_def)

lemma rob_empty_list: "rob_empty (rob c) \<longleftrightarrow> rob_entries c = []"
  by (simp add: rob_empty_def rob_list_Nil)

section \<open>Fetch and issue\<close>

definition fetching :: "CPU \<Rightarrow> bool" where
  "fetching c \<longleftrightarrow> \<not> flushing c \<and> \<not> fetch_stopped c \<and> \<not> rob_full (rob c)"

definition fetched :: "CPU \<Rightarrow> Word option" where
  "fetched c = read_word (core_memory c) (current_pc c)"

definition packet_of :: "CPU \<Rightarrow> Word \<Rightarrow> DecodePacket" where
  "packet_of c w = packet_default\<lparr>dp_instruction := w, dp_pc := current_pc c, dp_decoded := decode w,
     dp_predicted_pc := fst (predicted_next_pc c (decode w) (current_pc c)),
     dp_predicted_taken := snd (predicted_next_pc c (decode w) (current_pc c)), dp_valid := True\<rparr>"

lemma fetch_packet:
  "fetchAndDecoded c = (case fetched c of None \<Rightarrow> (packet_default, True) | Some w \<Rightarrow> (packet_of c w, False))"
  by (simp add: fetchAndDecoded_def memory_fetch_def fetched_def packet_of_def Let_def
      fetch_response_default_def case_prod_beta split: option.split)

definition issue_in :: "CPU \<Rightarrow> Word \<Rightarrow> IssueInputs" where
  "issue_in c w = issue_inputs_of c (cycle_view c) (packet_of c w)"

definition issuing :: "CPU \<Rightarrow> Word option" where
  "issuing c = (case fetched c of None \<Rightarrow> None
     | Some w \<Rightarrow> if fetching c \<and> can_issue (issue_in c w) then Some w else None)"

lemma issue_in_simps:
  "ii_packet (issue_in c w) = packet_of c w" "ii_allocated_tag (issue_in c w) = next_tag (rob c)"
  "ii_rs1 (issue_in c w) = source_state c (di_rs1 (decode w))"
  "ii_rs2 (issue_in c w) = source_state c (di_rs2 (decode w))"
  "ii_cdb (issue_in c w) = co_broadcast (bus c)"
  "ii_rob_available (issue_in c w) = (\<not> rob_full (rob c))"
  "ii_rs_available (issue_in c w) = rs_available (reservation_station c)"
  "ii_lsq_available (issue_in c w) = (\<not> lsq_full (load_store_queue c))"
  by (simp_all add: issue_in_def issue_inputs_of_def packet_of_def bus_def)

lemma packet_of_simps [simp]:
  "dp_decoded (packet_of c w) = decode w" "dp_pc (packet_of c w) = current_pc c"
  "dp_valid (packet_of c w)"
  "dp_predicted_pc (packet_of c w) = fst (predicted_next_pc c (decode w) (current_pc c))"
  by (simp_all add: packet_of_def)

lemma next_tag_valid: "tag_valid (next_tag r) \<longleftrightarrow> \<not> rob_full r"
  by (simp add: next_tag_def)

lemma issuingD:
  assumes "issuing c = Some w"
  shows "fetched c = Some w" "\<not> flushing c" "\<not> fetch_stopped c" "\<not> rob_full (rob c)"
    "di_op (decode w) \<noteq> OP_INVALID" "needs_lsq (decode w) \<Longrightarrow> \<not> lsq_full (load_store_queue c)"
    "needs_rs (decode w) \<Longrightarrow> rs_available (reservation_station c)"
  using assms
  by (auto simp: issuing_def fetching_def can_issue_def Let_def issue_in_simps
      split: option.splits if_splits)

definition issue_out :: "CPU \<Rightarrow> IssueOutputs" where
  "issue_out c = pw_issue_outputs (cycle_wires c)"

lemma issue_out_Some:
  assumes "shapes c" and "issuing c = Some w"
  shows "issue_out c = issue_result (issue_in c w)"
  using assms
  by (auto simp: issue_out_def cycle_wires_def planned_def Let_def fetch_packet issuing_def
      preview_facts(1) shapes_def issue_plan_eq fetching_def issue_in_def split: option.splits if_splits)

lemma refusal_not_issued: "refusal i \<noteq> Issued"
  by (simp add: refusal_def Let_def)

lemma issue_out_None:
  assumes "shapes c" and "issuing c = None"
  shows "\<not> io_write_rob (issue_out c)" "\<not> io_write_rs (issue_out c)" "\<not> io_write_lsq (issue_out c)"
    "io_status (issue_out c) \<noteq> Issued" "\<not> ru_valid (io_rename (issue_out c))"
proof -
  have "issue_out c = issue_outputs_default \<or> (\<exists>i. issue_out c = issue_outputs_default\<lparr>io_status := refusal i\<rparr>)"
    using assms
    by (auto simp: issue_out_def cycle_wires_def planned_def Let_def fetch_packet issuing_def
        preview_facts(1) shapes_def issue_plan_eq fetching_def issue_in_def split: option.splits if_splits)
  then show "\<not> io_write_rob (issue_out c)" "\<not> io_write_rs (issue_out c)" "\<not> io_write_lsq (issue_out c)"
    "io_status (issue_out c) \<noteq> Issued" "\<not> ru_valid (io_rename (issue_out c))"
    by (auto simp: issue_outputs_default_def rename_default_def refusal_not_issued)
qed

lemma cycle_decisions:
  assumes "shapes c"
  shows "pw_rob_decision (cycle_wires c) = rob_plan (rob c)"
    and "pw_rs_decision (cycle_wires c) = rs_plan (reservation_station c) (flushing c)"
    and "pw_lsq_decision (cycle_wires c) = lsq_dec c"
    and "ro_flush (rob_plan (rob c)) = flushing c"
    and "cv_flush (cycle_view c) = flushing c"
  using assms
  by (simp_all add: cycle_wires_def planned_def Let_def case_prod_beta preview_facts(1) shapes_def
      lsq_dec_def rob_plan_facts(3) flushing_def)

lemma issue_effective_iff:
  assumes "shapes c"
  shows "issue_effective (cycle_wires c) \<longleftrightarrow> issuing c \<noteq> None"
proof (cases "issuing c")
  case None
  then show ?thesis
    using issue_out_None(4) [OF assms] by (simp add: issue_effective_def issued_def issue_out_def)
next
  case (Some w)
  then show ?thesis
    using issue_out_Some [OF assms Some] issuingD(2) [OF Some]
    by (simp add: issue_effective_def issued_def issue_out_def [symmetric] issue_result_def Let_def
        cycle_decisions [OF assms])
qed

section \<open>The queues afterwards\<close>

definition issued_entries :: "CPU \<Rightarrow> ROBEntry list" where
  "issued_entries c = (case issuing c of None \<Rightarrow> [] | Some w \<Rightarrow> [issue_rob_entry (issue_in c w)])"

definition issued_rs :: "CPU \<Rightarrow> RSEntry multiset" where
  "issued_rs c = (case issuing c of None \<Rightarrow> {#}
     | Some w \<Rightarrow> if needs_rs (decode w)
         then {#issue_rs_entry (issue_in c w) (rs1_operand (issue_in c w)) (rs2_operand (issue_in c w))#}
         else {#})"

definition issued_lsq :: "CPU \<Rightarrow> LSQEntry list" where
  "issued_lsq c = (case issuing c of None \<Rightarrow> []
     | Some w \<Rightarrow> if needs_lsq (decode w)
         then [issue_lsq_entry (issue_in c w) (rs1_operand (issue_in c w)) (rs2_operand (issue_in c w))]
         else [])"

definition completion :: "CPU \<Rightarrow> FUResult" where
  "completion c = co_completion (bus c)"

definition store_done :: "CPU \<Rightarrow> StoreCommitCompletion" where
  "store_done c = (if head_finishes c \<and> le_type (hd (lsq_entries c)) = STORE
     then \<lparr>scc_tag = le_destination (hd (lsq_entries c)), scc_valid = True\<rparr>
     else store_completion_default)"

definition marked :: "CPU \<Rightarrow> ROBEntry \<Rightarrow> ROBEntry" where
  "marked c = mark (completion c) (store_done c)"

text \<open>The reorder buffer after its completions and its commit, before the issue.\<close>

definition kept_entries :: "CPU \<Rightarrow> ROBEntry list" where
  "kept_entries c = (if flushing c then []
     else if head_commits (rob c) then tl (map (marked c) (rob_entries c))
     else map (marked c) (rob_entries c))"

lemma issue_entry_tag [simp]:
  "re_tag (issue_rob_entry i) = ii_allocated_tag i" "re_valid (issue_rob_entry i)"
  by (simp_all add: issue_rob_entry_def Let_def)

lemma next_rob:
  assumes "shapes c"
  shows "rob (next_cpu c) = rob_step (ai_rob_inputs (cycle_inputs c)) (rob c)"
    and "rob_invar (rob (next_cpu c))"
    and "rob_entries (next_cpu c) = kept_entries c @ issued_entries c"
    and "issuing c \<noteq> None \<Longrightarrow>
      snd (rob_apply (ai_rob_inputs (cycle_inputs c)) (ai_rob_decision (cycle_inputs c)) (rob c))"
proof -
  let ?i = "ai_rob_inputs (cycle_inputs c)"
  have inv: "rob_invar (rob c)" using assms by (simp add: shapes_def)
  have l: "lsq_invar (load_store_queue c)" using assms by (simp add: shapes_def)
  have dec: "ai_rob_decision (cycle_inputs c) = rob_plan (rob c)"
    by (simp add: cycle_inputs_def apply_inputs_def Let_def cycle_decisions [OF assms])
  have i: "ri_issue_entry ?i = io_rob_entry (issue_out c)"
      "ri_issue_valid ?i = (io_write_rob (issue_out c) \<and> \<not> flushing c)"
      "ri_completion ?i = completion c" "ri_store_completion ?i = store_done c"
    using lsq_plan_facts(7) [OF inv l] preview_facts(1) [OF inv]
    by (simp_all add: cycle_inputs_def apply_inputs_def Let_def cycle_decisions [OF assms]
        issue_out_def completion_def bus_def store_done_def)
  show r: "rob (next_cpu c) = rob_step ?i (rob c)"
    by (simp add: next_cpu_def Let_def rob_step_def dec)
  show "rob_invar (rob (next_cpu c))" unfolding r by (rule rob_step_facts [OF inv])
  have acc: "rob_accepts ?i (rob_plan (rob c)) (rob c) = (issuing c \<noteq> None)"
  proof (cases "issuing c")
    case None
    then show ?thesis using issue_out_None(1) [OF assms] by (simp add: rob_accepts_def i)
  next
    case (Some w)
    then show ?thesis
      using issue_out_Some [OF assms Some] issuingD(2,4) [OF Some]
      by (simp add: rob_accepts_def i cycle_decisions [OF assms] issue_result_def Let_def
          issue_in_simps)
  qed
  have e: "issued_entries c = (if issuing c \<noteq> None then [ri_issue_entry ?i] else [])"
    using issue_out_Some [OF assms]
    by (auto simp: issued_entries_def i issue_result_def Let_def split: option.split)
  show "rob_entries (next_cpu c) = kept_entries c @ issued_entries c"
    unfolding r rob_step_facts(2) [OF inv] rob_next_list_def acc e
    by (auto simp: Let_def i kept_entries_def marked_def [abs_def] flushing_def)
  show "issuing c \<noteq> None \<Longrightarrow>
      snd (rob_apply ?i (ai_rob_decision (cycle_inputs c)) (rob c))"
    by (simp add: rob_apply_eq dec acc)
qed

text \<open>The dispatched instruction, as the integer unit accepts it.\<close>

definition unit_free :: "CPU \<Rightarrow> bool" where
  "unit_free c \<longleftrightarrow> co_integer_granted (bus c) \<or> \<not> fu_valid (unit_result c)"

definition dispatched :: "CPU \<Rightarrow> RSEntry option" where
  "dispatched c = (if \<not> flushing c \<and> select_ready_index (reservation_station c) \<noteq> rs_kInvalidIndex
        \<and> unit_free c
     then Some (rs_cur (reservation_station c) ! select_ready_index (reservation_station c)) else None)"

lemma dispatchedD:
  assumes "shapes c" and "dispatched c = Some x"
  shows "x \<in># rs_bag (reservation_station c)" "opd_ready (rse_lhs x)" "opd_ready (rse_rhs x)"
    "rse_busy x"
proof -
  let ?s = "reservation_station c"
  have k: "select_ready_index ?s \<noteq> rs_kInvalidIndex" "x = rs_cur ?s ! select_ready_index ?s"
    using assms(2) by (auto simp: dispatched_def split: if_splits)
  note sel = select_ready [OF k(1)]
  show "opd_ready (rse_lhs x)" "opd_ready (rse_rhs x)" "rse_busy x"
    using sel by (simp_all add: k(2))
  have "x \<in> set (rs_cur ?s)"
    using sel(1) assms(1) by (simp add: k(2) shapes_def rs_invar_def)
  then show "x \<in># rs_bag ?s" using \<open>rse_busy x\<close> by (simp add: rs_bag_def)
qed

definition option_mset :: "'a option \<Rightarrow> 'a multiset" where
  "option_mset x = (case x of None \<Rightarrow> {#} | Some a \<Rightarrow> {#a#})"

definition kept_rs :: "CPU \<Rightarrow> RSEntry multiset" where
  "kept_rs c = (if flushing c then {#}
     else image_mset (rs_wake_entry (co_broadcast (bus c)))
            (rs_bag (reservation_station c) - option_mset (dispatched c)))"

lemma image_mset_minus: "B \<subseteq># A \<Longrightarrow> image_mset f (A - B) = image_mset f A - image_mset f B"
  by (rule image_mset_Diff)

lemma station_inputs:
  assumes "shapes c"
  defines "i \<equiv> ai_rs_inputs (cycle_inputs c)"
  shows "rsi_issue_entry i = io_rs_entry (issue_out c)"
    "rsi_issue_valid i = (io_write_rs (issue_out c) \<and> issuing c \<noteq> None)"
    "rsi_cdb i = co_broadcast (bus c)" "rsi_fu_available i = unit_free c" "rsi_flush i = flushing c"
    "ai_rs_decision (cycle_inputs c) = rs_plan (reservation_station c) (rsi_flush i)"
    "rsi_issue_valid i \<longrightarrow> rs_available (reservation_station c)"
    "reservation_station (next_cpu c) = rs_step i (reservation_station c)"
proof -
  let ?s = "reservation_station c"
  have inv: "rs_invar ?s" "rob_invar (rob c)" using assms by (simp_all add: shapes_def)
  show i: "rsi_issue_entry i = io_rs_entry (issue_out c)"
    "rsi_issue_valid i = (io_write_rs (issue_out c) \<and> issuing c \<noteq> None)"
    "rsi_cdb i = co_broadcast (bus c)" "rsi_fu_available i = unit_free c" "rsi_flush i = flushing c"
    using preview_facts(1) [OF inv(2)] issue_effective_iff [OF assms(1)]
    by (simp_all add: i_def cycle_inputs_def apply_inputs_def Let_def issue_out_def bus_def can_accept_def
        unit_free_def)
  show dec: "ai_rs_decision (cycle_inputs c) = rs_plan ?s (rsi_flush i)"
    by (simp add: i) (simp add: cycle_inputs_def apply_inputs_def Let_def cycle_decisions [OF assms(1)])
  show "rsi_issue_valid i \<longrightarrow> rs_available ?s"
  proof
    assume v: "rsi_issue_valid i"
    then obtain w where w: "issuing c = Some w" by (auto simp: i)
    then have "needs_rs (decode w)"
      using v issue_out_Some [OF assms(1) w] by (simp add: i issue_result_def Let_def issue_in_simps)
    then show "rs_available ?s" using issuingD(7) [OF w] by simp
  qed
  show "reservation_station (next_cpu c) = rs_step i ?s"
    by (simp add: next_cpu_def Let_def dec rs_step_def i_def)
qed

lemma next_rs:
  assumes "shapes c"
  shows "rs_invar (reservation_station (next_cpu c))"
    and "rs_bag (reservation_station (next_cpu c)) = kept_rs c + issued_rs c"
    and "io_write_rs (issue_out c) \<Longrightarrow> issuing c \<noteq> None \<Longrightarrow> snd (rs_apply (ai_rs_inputs (cycle_inputs c))
      (ai_rs_decision (cycle_inputs c)) (reservation_station c))"
proof -
  let ?i = "ai_rs_inputs (cycle_inputs c)" and ?s = "reservation_station c"
  have inv: "rs_invar ?s" "rob_invar (rob c)" using assms by (simp_all add: shapes_def)
  note i = station_inputs(1-5) [OF assms]
  note dec = station_inputs(6) [OF assms]
  note av = station_inputs(7) [OF assms]
  note nx = station_inputs(8) [OF assms, unfolded rs_step_def]
  note cyc = rs_cycle [OF inv(1) av]
  show "rs_invar (reservation_station (next_cpu c))" unfolding nx by (rule cyc)
  have e: "(if rsi_issue_valid ?i then {#(rsi_issue_entry ?i)\<lparr>rse_busy := True\<rparr>#} else {#}) = issued_rs c"
  proof (cases "issuing c")
    case None
    then show ?thesis by (simp add: i issued_rs_def)
  next
    case (Some w)
    then show ?thesis
      using issue_out_Some [OF assms Some]
      by (simp add: i issued_rs_def issue_result_def Let_def issue_in_simps issue_rs_entry_def)
  qed
  have d: "image_mset (rs_wake_entry (co_broadcast (bus c))) (rs_bag ?s) - rs_dispatched ?i ?s
      = kept_rs c" if "\<not> flushing c"
  proof (cases "dispatched c")
    case None
    then have "rs_dispatched ?i ?s = {#}"
      using that by (auto simp: rs_dispatched_def dispatched_def i split: if_splits)
    then show ?thesis using None that by (simp add: kept_rs_def option_mset_def)
  next
    case (Some x)
    note x = dispatchedD [OF assms Some]
    have "rs_dispatched ?i ?s = {#x#}"
      using Some by (auto simp: rs_dispatched_def dispatched_def i split: if_splits)
    moreover have "rs_wake_entry m x = x" for m by (rule wake_ready_entry [OF x(2,3)])
    ultimately show ?thesis
      using that Some x(1) by (simp add: kept_rs_def option_mset_def image_mset_Diff)
  qed
  have "rs_bag (reservation_station (next_cpu c)) = rs_next_bag ?i ?s"
    unfolding nx by (rule cyc)
  then show "rs_bag (reservation_station (next_cpu c)) = kept_rs c + issued_rs c"
  proof (cases "flushing c")
    case True
    then have "issuing c = None" by (metis issuingD(2) not_Some_eq)
    then show ?thesis
      using True \<open>rs_bag (reservation_station (next_cpu c)) = rs_next_bag ?i ?s\<close>
      by (simp add: rs_next_bag_def i kept_rs_def issued_rs_def)
  next
    case False
    then show ?thesis
      using d e av \<open>rs_bag (reservation_station (next_cpu c)) = rs_next_bag ?i ?s\<close>
      by (auto simp: rs_next_bag_def i)
  qed
  show "io_write_rs (issue_out c) \<Longrightarrow> issuing c \<noteq> None \<Longrightarrow> snd (rs_apply ?i
      (ai_rs_decision (cycle_inputs c)) ?s)"
    using cyc(3) issuingD(2) by (auto simp: dec i)
qed

section \<open>Units afterwards\<close>

lemma next_unit:
  assumes "shapes c"
  shows "unit_result (next_cpu c) =
     (if flushing c then fu_result_default
      else case dispatched c of
        Some x \<Rightarrow> if fu_valid (execute_instruction (make_execute x)) then execute_instruction (make_execute x)
          else if co_integer_granted (bus c) \<and> fu_valid (unit_result c) then fu_result_default
          else unit_result c
      | None \<Rightarrow> if co_integer_granted (bus c) \<and> fu_valid (unit_result c) then fu_result_default
          else unit_result c)"
    and "(\<And>x. dispatched c = Some x \<Longrightarrow> fu_valid (execute_instruction (make_execute x))) \<Longrightarrow>
      fu_apply_asserts (ai_execute (cycle_inputs c)) (ai_flush (cycle_inputs c))
        (ai_integer_granted (cycle_inputs c)) (functional_unit c)"
    and "(\<And>x. dispatched c = Some x \<Longrightarrow> fu_valid (execute_instruction (make_execute x))) \<Longrightarrow>
      rso_dispatch_valid (rsd_outputs (pw_rs_decision (cycle_wires c)))
        \<and> rsi_fu_available (ai_rs_inputs (cycle_inputs c)) \<and> \<not> cv_flush (cycle_view c) \<Longrightarrow>
      snd (fu_apply (ai_execute (cycle_inputs c)) (ai_flush (cycle_inputs c))
        (ai_integer_granted (cycle_inputs c)) (functional_unit c))"
proof -
  let ?i = "cycle_inputs c" and ?s = "reservation_station c"
  have inv: "rob_invar (rob c)" using assms by (simp add: shapes_def)
  have i: "ai_execute ?i = rso_dispatch (rsd_outputs (rs_plan ?s (flushing c)))"
      "ai_flush ?i = flushing c" "ai_integer_granted ?i = co_integer_granted (bus c)"
      "rsi_fu_available (ai_rs_inputs ?i) = unit_free c"
    using preview_facts(1) [OF inv]
    by (simp_all add: cycle_inputs_def apply_inputs_def Let_def cycle_decisions [OF assms] bus_def
        can_accept_def unit_free_def)
  have d: "dispatched c = (if \<not> flushing c \<and> ex_valid (ai_execute ?i) \<and> unit_free c
      then Some (rs_cur ?s ! select_ready_index ?s) else None)"
    and x: "\<not> flushing c \<Longrightarrow> ex_valid (ai_execute ?i) \<Longrightarrow>
      ai_execute ?i = make_execute (rs_cur ?s ! select_ready_index ?s)"
    by (cases "select_ready_index ?s = rs_kInvalidIndex";
        auto simp: i dispatched_def rs_plan_facts make_execute_def execute_default_def
          rs_decision_default_def rs_outputs_default_def)+
  have "unit_result (next_cpu c) = fu_nxt (ai_execute ?i, flushing c, co_integer_granted (bus c)) (unit_result c)"
    using fu.latch_installs [of "(ai_execute ?i, flushing c, co_integer_granted (bus c))" "functional_unit c"]
    by (simp add: next_cpu_def Let_def i)
  then show "unit_result (next_cpu c) =
     (if flushing c then fu_result_default
      else case dispatched c of
        Some x \<Rightarrow> if fu_valid (execute_instruction (make_execute x)) then execute_instruction (make_execute x)
          else if co_integer_granted (bus c) \<and> fu_valid (unit_result c) then fu_result_default
          else unit_result c
      | None \<Rightarrow> if co_integer_granted (bus c) \<and> fu_valid (unit_result c) then fu_result_default
          else unit_result c)"
    using x by (auto simp: fu_nxt_def d unit_free_def)
  show "fu_apply_asserts (ai_execute ?i) (ai_flush ?i) (ai_integer_granted ?i) (functional_unit c)"
    if "\<And>x. dispatched c = Some x \<Longrightarrow> fu_valid (execute_instruction (make_execute x))"
  proof (cases "dispatched c")
    case None
    then show ?thesis
      by (auto simp: fu_apply_asserts_def i(2,3) d can_accept_def unit_free_def split: if_splits)
  next
    case (Some y)
    then have "fu_valid (execute_instruction (ai_execute ?i))"
      using that [OF Some] x by (auto simp: d split: if_splits)
    then show ?thesis by (simp add: fu_apply_asserts_def)
  qed
  show "snd (fu_apply (ai_execute ?i) (ai_flush ?i) (ai_integer_granted ?i) (functional_unit c))"
    if v: "\<And>x. dispatched c = Some x \<Longrightarrow> fu_valid (execute_instruction (make_execute x))"
      and g: "rso_dispatch_valid (rsd_outputs (pw_rs_decision (cycle_wires c)))
        \<and> rsi_fu_available (ai_rs_inputs ?i) \<and> \<not> cv_flush (cycle_view c)"
  proof -
    have f: "\<not> flushing c" "unit_free c"
      using g preview_facts(1) [OF inv] by (simp_all add: i(4))
    have "ex_valid (ai_execute ?i)"
      using g f by (auto simp: cycle_decisions [OF assms] i rs_plan_facts make_execute_def)
    then show ?thesis
      using v x d f by (simp add: fu_apply_def i(2,3) Let_def can_accept_def unit_free_def)
  qed
qed

section \<open>The load/store queue and the memory afterwards\<close>

text \<open>The head of the queue is answered only if its request was sent.\<close>

definition sent_answered :: "CPU \<Rightarrow> bool" where
  "sent_answered c \<longleftrightarrow> (response_for_head c \<longrightarrow> le_request_sent (hd (lsq_entries c)))"

definition head_request :: "CPU \<Rightarrow> DataMemoryRequest" where
  "head_request c = (if head_sends c then make_memory_request (hd (lsq_entries c)) else request_default)"

definition kept_lsq :: "CPU \<Rightarrow> LSQEntry list" where
  "kept_lsq c = (if flushing c then []
     else
       let es = map (lsq_wake_entry (co_broadcast (bus c))) (lsq_entries c)
       in if head_finishes c then tl es
          else if head_sends c then (hd es)\<lparr>le_request_sent := True\<rparr> # tl es
          else es)"

lemma next_lsq:
  assumes "shapes c" and "sent_answered c"
  shows "lsq_invar (load_store_queue (next_cpu c))"
    and "lsq_entries (next_cpu c) = map update_address (kept_lsq c @ issued_lsq c)"
    and "loaded (next_cpu c) =
     (if flushing c then fu_result_default
      else if head_finishes c \<and> le_type (hd (lsq_entries c)) = LOAD
        then fu_result_default
          \<lparr>fu_tag := le_destination (hd (lsq_entries c)),
           fu_value := extend_load_result (le_op (hd (lsq_entries c))) (rsp_value (response c)),
           fu_valid := True\<rparr>
      else if co_load_granted (bus c) \<and> fu_valid (loaded c) then fu_result_default
      else loaded c)"
    and "io_write_lsq (issue_out c) \<Longrightarrow> issuing c \<noteq> None \<Longrightarrow> snd (lsq_apply (ai_lsq_inputs (cycle_inputs c))
      (ai_lsq_decision (cycle_inputs c)) (load_store_queue c))"
    and "(head_finishes c \<Longrightarrow> le_type (hd (lsq_entries c)) = LOAD \<Longrightarrow> \<not> fu_valid (loaded c)) \<Longrightarrow>
      lsq_apply_asserts (ai_lsq_inputs (cycle_inputs c)) (ai_lsq_decision (cycle_inputs c))
        (load_store_queue c)"
proof -
  let ?i = "ai_lsq_inputs (cycle_inputs c)" and ?q = "load_store_queue c"
  have inv: "lsq_invar ?q" "rob_invar (rob c)" using assms(1) by (simp_all add: shapes_def)
  note plan = lsq_plan_facts [OF inv(2,1)]
  have dec: "ai_lsq_decision (cycle_inputs c) = lsq_dec c"
    by (simp add: cycle_inputs_def apply_inputs_def Let_def cycle_decisions [OF assms(1)])
  have i: "li_issue_entry ?i = io_lsq_entry (issue_out c)"
      "li_issue_valid ?i = (io_write_lsq (issue_out c) \<and> \<not> flushing c)"
      "li_cdb ?i = co_broadcast (bus c)" "li_flush ?i = flushing c"
    using preview_facts(1) [OF inv(2)]
    by (simp_all add: cycle_inputs_def apply_inputs_def Let_def issue_out_def bus_def)
  have ok: "lsq_decision_ok (lsq_dec c) ?q"
    using assms(2)
    by (auto simp: lsq_decision_ok_def plan head_finishes_def response_for_head_def head_sends_def
        sent_answered_def)
  have nx: "load_store_queue (next_cpu c) = lsq_latch (lsq_after ?i (lsq_dec c) ?q)"
    by (simp add: next_cpu_def Let_def dec lsq_apply_eq)
  note cyc = lsq_cycle [OF inv(1) ok, of ?i]
  show "lsq_invar (load_store_queue (next_cpu c))" unfolding nx by (rule cyc)
  have acc: "lsq_accepts ?i ?q = (issued_lsq c \<noteq> [])"
    and new: "issued_lsq c \<noteq> [] \<Longrightarrow> issued_lsq c = [lsq_new_entry ?i]"
  proof (atomize (full), cases "issuing c")
    case None
    then show "lsq_accepts ?i ?q = (issued_lsq c \<noteq> []) \<and> (issued_lsq c \<noteq> [] \<longrightarrow> issued_lsq c = [lsq_new_entry ?i])"
      using issue_out_None(3) [OF assms(1)] by (simp add: lsq_accepts_def i issued_lsq_def)
  next
    case (Some w)
    then show "lsq_accepts ?i ?q = (issued_lsq c \<noteq> []) \<and> (issued_lsq c \<noteq> [] \<longrightarrow> issued_lsq c = [lsq_new_entry ?i])"
      using issue_out_Some [OF assms(1) Some] issuingD(2,6) [OF Some]
      by (simp add: lsq_accepts_def i issued_lsq_def issue_result_def Let_def issue_in_simps
          issue_lsq_entry_def lsq_new_entry_def)
  qed
  have nf: "flushing c \<Longrightarrow> issued_lsq c = []"
    using issuingD(2) by (auto simp: issued_lsq_def split: option.split)
  have app: "(if issued_lsq c \<noteq> [] then xs @ [lsq_new_entry ?i] else xs) = xs @ issued_lsq c" for xs
    using new by (cases "issued_lsq c = []") auto
  show "lsq_entries (next_cpu c) = map update_address (kept_lsq c @ issued_lsq c)"
    unfolding nx cyc(2) lsq_next_list_def Let_def acc app i plan(1,3)
    using nf by (simp add: kept_lsq_def Let_def)
  show "loaded (next_cpu c) =
     (if flushing c then fu_result_default
      else if head_finishes c \<and> le_type (hd (lsq_entries c)) = LOAD
        then fu_result_default
          \<lparr>fu_tag := le_destination (hd (lsq_entries c)),
           fu_value := extend_load_result (le_op (hd (lsq_entries c))) (rsp_value (response c)),
           fu_valid := True\<rparr>
      else if co_load_granted (bus c) \<and> fu_valid (loaded c) then fu_result_default
      else loaded c)"
    unfolding nx lsq_load_result_cycle using plan(4) by (simp add: plan i)
  show "io_write_lsq (issue_out c) \<Longrightarrow> issuing c \<noteq> None \<Longrightarrow>
      snd (lsq_apply ?i (ai_lsq_decision (cycle_inputs c)) ?q)"
    unfolding dec lsq_apply_eq snd_conv acc
    using issue_out_Some [OF assms(1)]
    by (auto simp: issued_lsq_def issue_result_def Let_def issue_in_simps)
  show "lsq_apply_asserts ?i (ai_lsq_decision (cycle_inputs c)) ?q"
    if "head_finishes c \<Longrightarrow> le_type (hd (lsq_entries c)) = LOAD \<Longrightarrow> \<not> fu_valid (loaded c)"
  proof -
    have "head_finishes c \<Longrightarrow> 0 < lsq_count ?q"
      by (auto simp: head_finishes_def response_for_head_def lsq_list_Nil)
    then show ?thesis
      using that by (auto simp: lsq_apply_asserts_def dec plan i)
  qed
qed

lemma next_memory:
  assumes "shapes c"
  shows "memory_unit (next_cpu c) = mem_cycle (head_request c) (memory_unit c)"
    and "ai_memory_request (cycle_inputs c) = head_request c"
    and "lo_memory_request (ld_outputs (pw_lsq_decision (cycle_wires c))) = head_request c"
    and "lo_memory_error (ld_outputs (pw_lsq_decision (cycle_wires c))) =
      (response_for_head c \<and> \<not> rsp_success (response c))"
proof -
  have inv: "lsq_invar (load_store_queue c)" "rob_invar (rob c)" using assms by (simp_all add: shapes_def)
  note plan = lsq_plan_facts [OF inv(2,1)]
  show r: "ai_memory_request (cycle_inputs c) = head_request c"
    by (simp add: cycle_inputs_def apply_inputs_def Let_def cycle_decisions [OF assms] plan
        head_request_def)
  show "memory_unit (next_cpu c) = mem_cycle (head_request c) (memory_unit c)"
    by (simp add: next_cpu_def Let_def mem_cycle_def r)
  show "lo_memory_request (ld_outputs (pw_lsq_decision (cycle_wires c))) = head_request c"
    "lo_memory_error (ld_outputs (pw_lsq_decision (cycle_wires c))) =
      (response_for_head c \<and> \<not> rsp_success (response c))"
    by (simp_all add: cycle_decisions [OF assms] plan head_request_def)
qed

section \<open>Registers, program counter and status afterwards\<close>

lemma next_registers:
  assumes "shapes c"
  shows "rf_invar (register_file (next_cpu c))"
    and "rf_read (register_file (next_cpu c)) r =
      (if head_commits (rob c) \<and> re_writes_rd (hd (rob_entries c)) \<and> r = re_rd (hd (rob_entries c))
          \<and> r \<noteq> 0 \<and> unat r < 32
       then re_value (hd (rob_entries c)) else rf_read (register_file c) r)"
proof -
  have inv: "rob_invar (rob c)" "rf_invar (register_file c)" using assms by (simp_all add: shapes_def)
  note plan = rob_plan_facts [OF inv(1)]
  have w: "ai_register_write (cycle_inputs c) = commit_register_write (ro_commit (rob_plan (rob c)))"
    by (simp add: cycle_inputs_def apply_inputs_def Let_def cycle_decisions [OF assms])
  have nx: "register_file (next_cpu c) = rf_latch (rf_apply (commit_register_write (ro_commit (rob_plan (rob c))))
      (register_file c))"
    by (simp add: next_cpu_def Let_def w)
  show "rf_invar (register_file (next_cpu c))" unfolding nx by (rule rf_invar_cycle [OF inv(2)])
  show "rf_read (register_file (next_cpu c)) r =
      (if head_commits (rob c) \<and> re_writes_rd (hd (rob_entries c)) \<and> r = re_rd (hd (rob_entries c))
          \<and> r \<noteq> 0 \<and> unat r < 32
       then re_value (hd (rob_entries c)) else rf_read (register_file c) r)"
    unfolding nx rf_read_cycle [OF inv(2)]
    using plan(1,2)
    by (auto simp: commit_register_write_def register_write_default_def kRegisterCount_def)
qed

lemma next_renames:
  assumes "shapes c"
  shows "rat_invar (rename_table (next_cpu c))"
    and "rat_lookup (rename_table (next_cpu c)) r =
      (if flushing c then no_tag
       else if issued_entries c \<noteq> [] \<and> re_writes_rd (hd (issued_entries c))
           \<and> r = re_rd (hd (issued_entries c)) \<and> valid_register r
         then re_tag (hd (issued_entries c))
       else if head_commits (rob c) \<and> re_writes_rd (hd (rob_entries c)) \<and> r = re_rd (hd (rob_entries c))
           \<and> rat_lookup (rename_table c) r = re_tag (hd (rob_entries c))
         then no_tag
       else rat_lookup (rename_table c) r)"
proof -
  have inv: "rob_invar (rob c)" "rat_invar (rename_table c)" using assms by (simp_all add: shapes_def)
  note plan = rob_plan_facts [OF inv(1)]
  have w: "ai_rat_write (cycle_inputs c) = issue_rat_write (cycle_wires c)"
      "ai_rat_commit (cycle_inputs c) = commit_rat_commit (ro_commit (rob_plan (rob c)))"
      "ai_rob_flush (cycle_inputs c) = flushing c"
    by (simp_all add: cycle_inputs_def apply_inputs_def Let_def cycle_decisions [OF assms])
  have nx: "rename_table (next_cpu c) = rat_latch (rat_apply (issue_rat_write (cycle_wires c))
      (commit_rat_commit (ro_commit (rob_plan (rob c)))) (flushing c) (rename_table c))"
    by (simp add: next_cpu_def Let_def w)
  show "rat_invar (rename_table (next_cpu c))" unfolding nx by (rule rat_invar_cycle [OF inv(2)])
  have tag: "head_commits (rob c) \<Longrightarrow> tag_valid (re_tag (hd (rob_entries c)))"
    using rob_list_nth(2) [OF inv(1), of 0]
    by (cases "rob_entries c") (auto simp: head_commits_def hd_conv_nth rob_list_Nil)
  have commit: "(ratc_valid (commit_rat_commit (ro_commit (rob_plan (rob c))))
        \<and> tag_valid (ratc_tag (commit_rat_commit (ro_commit (rob_plan (rob c)))))
        \<and> r = ratc_rd (commit_rat_commit (ro_commit (rob_plan (rob c))))
        \<and> rat_lookup (rename_table c) r = ratc_tag (commit_rat_commit (ro_commit (rob_plan (rob c)))))
      = (head_commits (rob c) \<and> re_writes_rd (hd (rob_entries c)) \<and> r = re_rd (hd (rob_entries c))
           \<and> rat_lookup (rename_table c) r = re_tag (hd (rob_entries c)))"
    using plan(1,2) tag by (auto simp: commit_rat_commit_def rat_commit_default_def)
  have issue: "(ratw_valid (issue_rat_write (cycle_wires c)) \<and> tag_valid (ratw_tag (issue_rat_write (cycle_wires c)))
        \<and> valid_register r \<and> r = ratw_rd (issue_rat_write (cycle_wires c)))
      = (issued_entries c \<noteq> [] \<and> re_writes_rd (hd (issued_entries c))
           \<and> r = re_rd (hd (issued_entries c)) \<and> valid_register r)
    \<and> (issued_entries c \<noteq> [] \<and> re_writes_rd (hd (issued_entries c)) \<longrightarrow>
        ratw_tag (issue_rat_write (cycle_wires c)) = re_tag (hd (issued_entries c)))"
  proof (cases "issuing c")
    case None
    then show ?thesis
      using issue_effective_iff [OF assms]
      by (simp add: issue_rat_write_def Let_def issued_entries_def rat_write_default_def)
  next
    case (Some w)
    have "tag_valid (ii_allocated_tag (issue_in c w))"
      using issuingD(4) [OF Some] by (simp add: issue_in_simps next_tag_valid)
    moreover have "re_rd (issue_rob_entry (issue_in c w)) = di_rd (decode w)"
      by (simp add: issue_rob_entry_def Let_def issue_in_simps)
    ultimately show ?thesis
      using issue_effective_iff [OF assms] issue_out_Some [OF assms Some] Some
      by (auto simp: issue_rat_write_def Let_def issued_entries_def rat_write_default_def
          issue_out_def issue_result_def issue_in_simps rename_default_def)
  qed
  show "rat_lookup (rename_table (next_cpu c)) r =
      (if flushing c then no_tag
       else if issued_entries c \<noteq> [] \<and> re_writes_rd (hd (issued_entries c))
           \<and> r = re_rd (hd (issued_entries c)) \<and> valid_register r
         then re_tag (hd (issued_entries c))
       else if head_commits (rob c) \<and> re_writes_rd (hd (rob_entries c)) \<and> r = re_rd (hd (rob_entries c))
           \<and> rat_lookup (rename_table c) r = re_tag (hd (rob_entries c))
         then no_tag
       else rat_lookup (rename_table c) r)"
    unfolding nx rat_lookup_cycle [OF inv(2)] commit
    using issue by auto
qed

lemma next_control:
  assumes "shapes c"
  shows "current_pc (next_cpu c) =
      (if flushing c then re_actual_next_pc (hd (rob_entries c))
       else case issuing c of
         Some w \<Rightarrow> fst (predicted_next_pc c (decode w) (current_pc c)) | None \<Rightarrow> current_pc c)"
    and "fetch_stopped (next_cpu c) =
      (if flushing c then False
       else case issuing c of Some w \<Rightarrow> di_op (decode w) = OP_HALT \<or> fetch_stopped c
         | None \<Rightarrow> fetch_stopped c)"
    and "committed_count (next_cpu c) =
      (if head_commits (rob c) \<and> re_op (hd (rob_entries c)) \<noteq> OP_HALT
       then committed_count c + 1 else committed_count c)"
    and "exit_code (next_cpu c) =
      (if head_commits (rob c) \<and> re_op (hd (rob_entries c)) = OP_HALT
       then rf_read (register_file c) 10 AND 0xff else exit_code c)"
    and "cpu_status (next_cpu c) =
      (if head_commits (rob c) \<and> re_op (hd (rob_entries c)) = OP_HALT then CpuHalted
       else if response_for_head c \<and> \<not> rsp_success (response c) then CpuMemoryOutOfBound
       else if fetching c \<and> rob_entries c = [] \<and> fetched c = None then CpuFetchOutOfBound
       else if fetching c \<and> rob_entries c = []
           \<and> (\<exists>w. fetched c = Some w \<and> di_op (decode w) = OP_INVALID) then CpuInvalidInstruction
       else cpu_status c)"
proof -
  have inv: "rob_invar (rob c)" using assms by (simp add: shapes_def)
  note plan = rob_plan_facts [OF inv]
  note eff = issue_effective_iff [OF assms] issue_out_Some [OF assms]
  have e: "re_predicted_next_pc (issue_rob_entry (issue_in c w))
        = fst (predicted_next_pc c (decode w) (current_pc c))"
      "re_op (issue_rob_entry (issue_in c w)) = di_op (decode w)" for w
    by (simp_all add: issue_rob_entry_def Let_def issue_in_simps)
  have out: "\<And>w. issuing c = Some w \<Longrightarrow> io_rob_entry (pw_issue_outputs (cycle_wires c)) = issue_rob_entry (issue_in c w)"
    using eff(2) by (simp add: issue_out_def [symmetric] issue_result_def Let_def)
  show "current_pc (next_cpu c) =
      (if flushing c then re_actual_next_pc (hd (rob_entries c))
       else case issuing c of
         Some w \<Rightarrow> fst (predicted_next_pc c (decode w) (current_pc c)) | None \<Rightarrow> current_pc c)"
    using plan(4) eff(1)
    by (auto simp: next_cpu_def Let_def pc_after_def cycle_decisions [OF assms] out e split: option.split)
  show "fetch_stopped (next_cpu c) =
      (if flushing c then False
       else case issuing c of Some w \<Rightarrow> di_op (decode w) = OP_HALT \<or> fetch_stopped c
         | None \<Rightarrow> fetch_stopped c)"
    using eff(1)
    by (auto simp: next_cpu_def Let_def stopped_after_def cycle_decisions [OF assms] out e split: option.split)
  show "committed_count (next_cpu c) =
      (if head_commits (rob c) \<and> re_op (hd (rob_entries c)) \<noteq> OP_HALT
       then committed_count c + 1 else committed_count c)"
    using plan(1,2) by (auto simp: next_cpu_def Let_def cycle_decisions [OF assms])
  show "exit_code (next_cpu c) =
      (if head_commits (rob c) \<and> re_op (hd (rob_entries c)) = OP_HALT
       then rf_read (register_file c) 10 AND 0xff else exit_code c)"
    using plan(5) by (simp add: next_cpu_def Let_def cycle_decisions [OF assms])
  have st: "pw_fetch_error (cycle_wires c) = (fetching c \<and> fetched c = None)"
    using preview_facts(1) [OF inv]
    by (auto simp: cycle_wires_def planned_def Let_def fetch_packet fetching_def split: option.split)
  have io: "io_status (issue_out c) \<noteq> InvalidAllocation
      \<and> (io_status (issue_out c) = InvalidInstruction) =
        (fetching c \<and> (\<exists>w. fetched c = Some w \<and> di_op (decode w) = OP_INVALID))"
  proof (cases "fetching c \<and> fetched c \<noteq> None")
    case True
    then obtain w where w: "fetched c = Some w" "fetching c" by auto
    have "issue_out c = issue_plan (issue_in c w)"
      using w preview_facts(1) [OF inv]
      by (simp add: issue_out_def cycle_wires_def planned_def Let_def fetch_packet fetching_def
          issue_in_def)
    moreover have "tag_valid (ii_allocated_tag (issue_in c w))"
      using w(2) by (simp add: issue_in_simps next_tag_valid fetching_def)
    ultimately show ?thesis
      using w by (auto simp: issue_plan_eq issue_result_def refusal_def can_issue_def Let_def
          issue_in_simps issue_outputs_default_def)
  next
    case False
    then have "issue_out c = issue_outputs_default"
      using preview_facts(1) [OF inv]
      by (auto simp: issue_out_def cycle_wires_def planned_def Let_def fetch_packet fetching_def)
    then show ?thesis using False by (auto simp: issue_outputs_default_def)
  qed
  show "cpu_status (next_cpu c) =
      (if head_commits (rob c) \<and> re_op (hd (rob_entries c)) = OP_HALT then CpuHalted
       else if response_for_head c \<and> \<not> rsp_success (response c) then CpuMemoryOutOfBound
       else if fetching c \<and> rob_entries c = [] \<and> fetched c = None then CpuFetchOutOfBound
       else if fetching c \<and> rob_entries c = []
           \<and> (\<exists>w. fetched c = Some w \<and> di_op (decode w) = OP_INVALID) then CpuInvalidInstruction
       else cpu_status c)"
    using io plan(5) st
    by (auto simp: next_cpu_def Let_def status_after_def cycle_decisions(1) [OF assms]
        next_memory(4) [OF assms] rob_empty_list issue_out_def)
qed

lemma shapes_next:
  assumes "shapes c" and "sent_answered c"
  shows "shapes (next_cpu c)"
  using next_rob(2) [OF assms(1)] next_rs(1) [OF assms(1)] next_lsq(1) [OF assms]
    next_registers(1) [OF assms(1)] next_renames(1) [OF assms(1)]
  by (simp add: shapes_def)

end
