(* ===== verification/Ghost.thy ===== *)
theory Ghost
  imports RobCorrect DecodeWf
begin

text \<open>
  The sequential run behind the reorder buffer.  Starting from the committed machine state, each
  entry in flight is annotated with the state of the sequential machine in which its instruction
  executes, or with \<open>None\<close> from the first entry on whose predecessor's predicted address is not the
  address the sequential machine goes to: the wrong path.
\<close>

section \<open>Facts about a sequential step\<close>

definition here :: "isa_state \<Rightarrow> DecodedInstruction option" where
  "here s = map_option decode (read_word (isa_mem s) (isa_pc s))"

lemma here_wf: "here s = Some d \<Longrightarrow> decoded_wf d"
  by (auto simp: here_def decode_wf)

lemma isa_step_here:
  "isa_step s = (case here s of None \<Rightarrow> FetchFault | Some d \<Rightarrow> isa_exec d s)"
  by (simp add: isa_step_def here_def split: option.split)

text \<open>The value an instruction writes to its destination.\<close>

definition isa_result :: "isa_state \<Rightarrow> Word option" where
  "isa_result s =
     (case here s of
        None \<Rightarrow> None
      | Some d \<Rightarrow>
          if load_op (di_op d) then isa_load (di_op d) (isa_mem s) (isa_address d s)
          else if writing_op (di_op d) then Some (isa_value d s) else None)"

lemma op_class_cases:
  "load_op opr \<Longrightarrow> \<not> store_op opr \<and> \<not> branch_op opr \<and> \<not> jump_op opr \<and> opr \<noteq> OP_HALT
     \<and> opr \<noteq> OP_INVALID \<and> writing_op opr \<and> opr \<noteq> OP_JAL \<and> opr \<noteq> OP_JALR"
  "store_op opr \<Longrightarrow> \<not> load_op opr \<and> \<not> branch_op opr \<and> \<not> jump_op opr \<and> opr \<noteq> OP_HALT
     \<and> opr \<noteq> OP_INVALID \<and> \<not> writing_op opr \<and> opr \<noteq> OP_JAL \<and> opr \<noteq> OP_JALR"
  "branch_op opr \<Longrightarrow> \<not> load_op opr \<and> \<not> store_op opr \<and> \<not> jump_op opr \<and> opr \<noteq> OP_HALT
     \<and> opr \<noteq> OP_INVALID \<and> \<not> writing_op opr \<and> opr \<noteq> OP_JAL \<and> opr \<noteq> OP_JALR"
  by (auto simp: op_classes writing_op_def)

lemma isa_step_StepD:
  assumes "isa_step s = Step t" and "here s = Some d"
  shows "isa_pc t = isa_next_pc d s"
    and "isa_regs t = (if di_writes_rd d then (isa_regs s)(di_rd d := the (isa_result s)) else isa_regs s)"
    and "di_writes_rd d \<Longrightarrow> isa_result s \<noteq> None"
    and "\<not> store_op (di_op d) \<Longrightarrow> isa_mem t = isa_mem s"
    and "store_op (di_op d) \<Longrightarrow>
      isa_store (di_op d) (isa_mem s) (isa_address d s) (isa_rs2 d s) = Some (isa_mem t)"
    and "di_op d \<noteq> OP_HALT" "di_op d \<noteq> OP_INVALID"
proof -
  have wr: "di_writes_rd d = (writing_op (di_op d) \<and> di_rd d \<noteq> 0)"
    using here_wf [OF assms(2)] by (rule decoded_wfD(8))
  have st: "isa_exec d s = Step t" using assms by (simp add: isa_step_here)
  show op: "di_op d \<noteq> OP_HALT" "di_op d \<noteq> OP_INVALID"
    using st by (auto simp: isa_exec_def)
  have "isa_pc t = isa_next_pc d s
    \<and> isa_regs t = (if di_writes_rd d then (isa_regs s)(di_rd d := the (isa_result s)) else isa_regs s)
    \<and> (di_writes_rd d \<longrightarrow> isa_result s \<noteq> None) \<and> (\<not> store_op (di_op d) \<longrightarrow> isa_mem t = isa_mem s)
    \<and> (store_op (di_op d) \<longrightarrow>
        isa_store (di_op d) (isa_mem s) (isa_address d s) (isa_rs2 d s) = Some (isa_mem t))"
  proof -
    consider (load) "load_op (di_op d)" | (store) "store_op (di_op d)" | (branch) "branch_op (di_op d)"
      | (other) "\<not> load_op (di_op d)" "\<not> store_op (di_op d)" "\<not> branch_op (di_op d)" by blast
    then show ?thesis
    proof cases
      case load
      then show ?thesis
        using st op op_class_cases(1) [OF load]
        by (auto simp: isa_exec_def wr isa_result_def assms(2) set_reg_def split: option.splits)
    next
      case store
      then show ?thesis
        using st op op_class_cases(2) [OF store]
        by (auto simp: isa_exec_def wr split: option.splits)
    next
      case branch
      then show ?thesis
        using st op op_class_cases(3) [OF branch] by (auto simp: isa_exec_def wr)
    next
      case other
      then have "writing_op (di_op d)" using op by (simp add: writing_op_def)
      then show ?thesis
        using st op other by (auto simp: isa_exec_def wr isa_result_def assms(2) set_reg_def)
    qed
  qed
  then show "isa_pc t = isa_next_pc d s"
    and "isa_regs t = (if di_writes_rd d then (isa_regs s)(di_rd d := the (isa_result s)) else isa_regs s)"
    and "di_writes_rd d \<Longrightarrow> isa_result s \<noteq> None"
    and "\<not> store_op (di_op d) \<Longrightarrow> isa_mem t = isa_mem s"
    and "store_op (di_op d) \<Longrightarrow>
      isa_store (di_op d) (isa_mem s) (isa_address d s) (isa_rs2 d s) = Some (isa_mem t)"
    by blast+
qed

lemma isa_step_unit:
  assumes "here s = Some d" and "\<not> load_op (di_op d)" and "\<not> store_op (di_op d)"
    and "di_op d \<noteq> OP_HALT" and "di_op d \<noteq> OP_INVALID"
  shows "\<exists>t. isa_step s = Step t"
  using assms by (auto simp: isa_step_here isa_exec_def)

lemma isa_step_load:
  assumes "here s = Some d" and "load_op (di_op d)"
    and "isa_load (di_op d) (isa_mem s) (isa_address d s) = Some v"
  shows "\<exists>t. isa_step s = Step t" and "isa_result s = Some v"
  using assms op_class_cases(1) [OF assms(2)]
  by (auto simp: isa_step_here isa_exec_def isa_result_def)

lemma isa_next_pc_plain:
  "\<not> branch_op (di_op d) \<Longrightarrow> \<not> jump_op (di_op d) \<Longrightarrow> isa_next_pc d s = isa_pc s + 4"
  by (simp add: isa_next_pc_def jump_op_def)

lemma isa_regs_zero: "isa_step s = Step t \<Longrightarrow> isa_regs s 0 = 0 \<Longrightarrow> isa_regs t 0 = 0"
  by (auto simp: isa_step_here isa_exec_def set_reg_def split: option.splits if_splits)

section \<open>Annotations\<close>

fun gnext :: "isa_state option \<Rightarrow> ROBEntry \<Rightarrow> isa_state option" where
  "gnext None e = None"
| "gnext (Some s) e =
     (case isa_step s of
        Step t \<Rightarrow> if isa_pc t = re_predicted_next_pc e then Some t else None
      | _ \<Rightarrow> None)"

fun annot :: "isa_state option \<Rightarrow> ROBEntry list \<Rightarrow> (ROBEntry \<times> isa_state option) list" where
  "annot g [] = []"
| "annot g (e # es) = (e, g) # annot (gnext g e) es"

fun final :: "isa_state option \<Rightarrow> ROBEntry list \<Rightarrow> isa_state option" where
  "final g [] = g"
| "final g (e # es) = final (gnext g e) es"

lemma annot_append [simp]: "annot g (es @ [e]) = annot g es @ [(e, final g es)]"
  by (induction es arbitrary: g) auto

lemma final_append [simp]: "final g (es @ [e]) = gnext (final g es) e"
  by (induction es arbitrary: g) auto

lemma final_None [simp]: "final None es = None"
  by (induction es) auto

lemma annot_None: "(e, g) \<in> set (annot None es) \<Longrightarrow> g = None"
  by (induction es) auto

lemma map_fst_annot [simp]: "map fst (annot g es) = es"
  by (induction es arbitrary: g) auto

lemma annot_entry: "(e, g) \<in> set (annot g0 es) \<Longrightarrow> e \<in> set es"
  by (induction es arbitrary: g0) auto

lemma annot_exists: "e \<in> set es \<Longrightarrow> \<exists>g. (e, g) \<in> set (annot g0 es)"
  by (induction es arbitrary: g0) auto

lemma gnext_cong: "re_predicted_next_pc e' = re_predicted_next_pc e \<Longrightarrow> gnext g e' = gnext g e"
  by (cases g) (simp_all split: isa_outcome.split)

lemma annot_map:
  assumes "\<And>e. re_predicted_next_pc (f e) = re_predicted_next_pc e"
  shows "annot g (map f es) = map (\<lambda>(e, h). (f e, h)) (annot g es)"
    and "final g (map f es) = final g es"
  using gnext_cong [OF assms] by (induction es arbitrary: g) auto

lemma gnext_SomeD:
  "gnext g e = Some t \<Longrightarrow> \<exists>s. g = Some s \<and> isa_step s = Step t \<and> isa_pc t = re_predicted_next_pc e"
  by (cases g) (auto split: isa_outcome.splits if_splits)

lemma final_reach: "final (Some s) es = Some t \<Longrightarrow> isa_reach s t"
proof (induction es arbitrary: t rule: rev_induct)
  case Nil
  then show ?case by (simp add: isa_refl)
next
  case (snoc e es)
  then obtain u where "final (Some s) es = Some u" "isa_step u = Step t"
    by (auto dest: gnext_SomeD)
  then show ?case using snoc.IH by (auto intro: isa_more)
qed

lemma annot_reach: "(e, Some t) \<in> set (annot (Some s) es) \<Longrightarrow> isa_reach s t"
proof (induction es rule: rev_induct)
  case (snoc x xs)
  then show ?case by (auto intro: final_reach)
qed simp

lemma unique_tag:
  assumes "distinct (map re_tag es)" and "(e, g) \<in> set (annot g0 es)" and "(e', g') \<in> set (annot g0 es)"
    and "re_tag e = re_tag e'"
  shows "e = e' \<and> g = g'"
proof -
  have d: "distinct (map (re_tag \<circ> fst) (annot g0 es))"
    using assms(1) by (simp add: map_map [symmetric] del: map_map)
  then have "inj_on (re_tag \<circ> fst) (set (annot g0 es))"
    by (simp add: distinct_map)
  then have "(e, g) = (e', g')"
    by (rule inj_onD) (use assms(2-4) in simp_all)
  then show ?thesis by simp
qed

section \<open>Entries against their instruction\<close>

definition entry_at :: "ROBEntry \<Rightarrow> isa_state \<Rightarrow> DecodedInstruction \<Rightarrow> bool" where
  "entry_at e s d \<longleftrightarrow>
     here s = Some d \<and> re_op e = di_op d \<and> re_pc e = isa_pc s \<and> re_rd e = di_rd d
     \<and> re_writes_rd e = di_writes_rd d \<and> re_is_branch e = di_is_branch d
     \<and> re_is_store e = di_is_store d \<and> re_is_jump e = di_is_jump d
     \<and> (\<not> di_is_branch d \<and> \<not> di_is_jump d \<longrightarrow> re_predicted_next_pc e = isa_pc s + 4)"

definition entry_done :: "ROBEntry \<Rightarrow> isa_state \<Rightarrow> DecodedInstruction \<Rightarrow> bool" where
  "entry_done e s d \<longleftrightarrow>
     (\<exists>t. isa_step s = Step t) \<and> (re_writes_rd e \<longrightarrow> isa_result s = Some (re_value e))
     \<and> (di_is_branch d \<or> di_is_jump d \<longrightarrow> re_actual_next_pc e = isa_next_pc d s)
     \<and> (di_is_branch d \<longrightarrow> re_branch_taken e = isa_taken (di_op d) (isa_rs1 d s) (isa_rs2 d s))"

definition entry_ok :: "ROBEntry \<Rightarrow> isa_state \<Rightarrow> bool" where
  "entry_ok e s \<longleftrightarrow>
     (\<exists>d. entry_at e s d \<and> (re_ready e \<and> re_op e \<noteq> OP_HALT \<longrightarrow> entry_done e s d))"

definition entries_ok :: "(ROBEntry \<times> isa_state option) list \<Rightarrow> bool" where
  "entries_ok A \<longleftrightarrow> (\<forall>(e, g) \<in> set A. \<forall>s. g = Some s \<longrightarrow> entry_ok e s)"

lemma entries_okD: "entries_ok A \<Longrightarrow> (e, Some s) \<in> set A \<Longrightarrow> entry_ok e s"
  by (auto simp: entries_ok_def)

section \<open>Reading registers\<close>

definition writers :: "RegisterIndex \<Rightarrow> ROBEntry list \<Rightarrow> ROBEntry list" where
  "writers r es = filter (\<lambda>e. re_writes_rd e \<and> re_rd e = r) es"

lemma registers_ahead:
  assumes "entries_ok (annot (Some s0) es)" and "final (Some s0) es = Some sn"
  shows "if writers r es = [] then isa_regs sn r = isa_regs s0 r
    else \<exists>s. (last (writers r es), Some s) \<in> set (annot (Some s0) es)
           \<and> isa_result s = Some (isa_regs sn r)"
  using assms
proof (induction es arbitrary: sn rule: rev_induct)
  case Nil
  then show ?case by (simp add: writers_def)
next
  case (snoc e es)
  obtain s where s: "final (Some s0) es = Some s" "isa_step s = Step sn"
    using snoc.prems(2) by (auto dest: gnext_SomeD)
  have "entry_ok e s"
    using snoc.prems(1) s(1) by (auto simp: entries_ok_def)
  then obtain d where d: "here s = Some d" "re_rd e = di_rd d" "re_writes_rd e = di_writes_rd d"
    by (auto simp: entry_ok_def entry_at_def)
  note step = isa_step_StepD(2,3) [OF s(2) d(1)]
  have IH: "if writers r es = [] then isa_regs s r = isa_regs s0 r
    else \<exists>u. (last (writers r es), Some u) \<in> set (annot (Some s0) es)
           \<and> isa_result u = Some (isa_regs s r)"
    using snoc.prems(1) s(1) by (intro snoc.IH) (auto simp: entries_ok_def)
  show ?case
  proof (cases "re_writes_rd e \<and> re_rd e = r")
    case True
    then have "isa_result s = Some (isa_regs sn r)" using step d by auto
    then show ?thesis using True s(1) by (auto simp: writers_def)
  next
    case False
    then have "isa_regs sn r = isa_regs s r" using step(1) d by auto
    then show ?thesis using IH False by (auto simp: writers_def split: if_splits)
  qed
qed

text \<open>The values that instructions in flight have still to deliver.\<close>

definition pending :: "(ROBEntry \<times> isa_state option) list \<Rightarrow> RobTag \<Rightarrow> Word \<Rightarrow> bool" where
  "pending A t v \<longleftrightarrow>
     (\<exists>e s. (e, Some s) \<in> set A \<and> re_tag e = t \<and> \<not> re_ready e \<and> isa_result s = Some v)"

end
