(* ===== verification/CoreInvariant.thy ===== *)
theory CoreInvariant
  imports CoreStep Ghost ExecuteCorrect
begin

text \<open>
  What relates the core to the sequential machine: \<open>related s c\<close> says that \<open>c\<close> has committed the
  instructions up to the machine state \<open>s\<close> and that everything in flight is right for the
  instructions after it.  The parts are stated over the lists of the queues; entries of a
  mispredicted path have no machine state and are only asked to be well formed.
\<close>

section \<open>Entries of the reorder buffer\<close>

definition entry_wf :: "ROBEntry \<Rightarrow> bool" where
  "entry_wf e \<longleftrightarrow> re_op e \<noteq> OP_INVALID \<and> re_is_store e = store_op (re_op e)
     \<and> re_is_branch e = branch_op (re_op e) \<and> re_is_jump e = jump_op (re_op e)
     \<and> (re_writes_rd e \<longrightarrow> writing_op (re_op e) \<and> valid_register (re_rd e))
     \<and> (re_op e = OP_HALT \<longrightarrow> re_ready e)"

text \<open>Only the head of the reorder buffer can be a finished store.\<close>

definition stores_wait :: "ROBEntry list \<Rightarrow> bool" where
  "stores_wait es \<longleftrightarrow> (\<forall>e \<in> set (tl es). re_is_store e \<longrightarrow> \<not> re_ready e)"

section \<open>Where each unfinished entry's result is\<close>

definition unit_waiting :: "ROBEntry \<Rightarrow> bool" where
  "unit_waiting e \<longleftrightarrow> \<not> re_ready e \<and> unit_op (re_op e)"

definition memory_waiting :: "ROBEntry \<Rightarrow> bool" where
  "memory_waiting e \<longleftrightarrow> \<not> re_ready e \<and> \<not> unit_op (re_op e)"

definition result_tags :: "FUResult \<Rightarrow> RobTag list" where
  "result_tags f = (if fu_valid f then [fu_tag f] else [])"

definition unit_accounted :: "RSEntry multiset \<Rightarrow> FUResult \<Rightarrow> ROBEntry list \<Rightarrow> bool" where
  "unit_accounted B f es \<longleftrightarrow>
     image_mset rse_destination B + mset (result_tags f) = mset (map re_tag (filter unit_waiting es))"

definition memory_accounted :: "FUResult \<Rightarrow> LSQEntry list \<Rightarrow> ROBEntry list \<Rightarrow> bool" where
  "memory_accounted f Q es \<longleftrightarrow>
     result_tags f @ map le_destination Q = map re_tag (filter memory_waiting es)"

section \<open>Right operands and results\<close>

type_synonym annotated = "(ROBEntry \<times> isa_state option) list"

definition on_path :: "annotated \<Rightarrow> RobTag \<Rightarrow> (ROBEntry \<Rightarrow> isa_state \<Rightarrow> DecodedInstruction \<Rightarrow> bool) \<Rightarrow> bool" where
  "on_path A tag P \<longleftrightarrow> (\<forall>e t. (e, Some t) \<in> set A \<longrightarrow> re_tag e = tag \<longrightarrow> (\<exists>d. here t = Some d \<and> P e t d))"

definition rs_right :: "annotated \<Rightarrow> RSEntry \<Rightarrow> bool" where
  "rs_right A x \<longleftrightarrow> unit_op (rse_op x) \<and> on_path A (rse_destination x) (\<lambda>e t d.
     rse_op x = di_op d \<and> rse_immediate x = di_immediate d \<and> rse_pc x = isa_pc t
     \<and> operand_for (pending A) (lhs_value d t) (rse_lhs x)
     \<and> operand_for (pending A) (rhs_value d t) (rse_rhs x))"

definition unit_right :: "annotated \<Rightarrow> FUResult \<Rightarrow> bool" where
  "unit_right A f \<longleftrightarrow> (fu_valid f \<longrightarrow> on_path A (fu_tag f) (\<lambda>e t d.
     unit_op (di_op d) \<and> f = expected_result d t (fu_tag f)))"

definition load_right :: "annotated \<Rightarrow> FUResult \<Rightarrow> bool" where
  "load_right A f \<longleftrightarrow> (fu_valid f \<longrightarrow> \<not> fu_has_control_result f
     \<and> (\<forall>e \<in> set (map fst A). re_tag e = fu_tag f \<longrightarrow> load_op (re_op e))
     \<and> on_path A (fu_tag f) (\<lambda>e t d.
          isa_load (di_op d) (isa_mem t) (isa_address d t) = Some (fu_value f)))"

definition access_wf :: "LSQEntry \<Rightarrow> bool" where
  "access_wf q \<longleftrightarrow>
     (if le_type q = LOAD then load_op (le_op q) else store_op (le_op q))
     \<and> (le_address_ready q \<longrightarrow> opd_ready (le_base q)
          \<and> le_address q = opd_value (le_base q) + le_immediate q)"

definition access_right :: "annotated \<Rightarrow> LSQEntry \<Rightarrow> bool" where
  "access_right A q \<longleftrightarrow> access_wf q
     \<and> (\<forall>e \<in> set (map fst A). re_tag e = le_destination q \<longrightarrow> re_op e = le_op q)
     \<and> on_path A (le_destination q) (\<lambda>e t d.
          le_op q = di_op d \<and> le_immediate q = di_immediate d
          \<and> operand_for (pending A) (isa_rs1 d t) (le_base q)
          \<and> (le_type q = STORE \<longrightarrow> operand_for (pending A) (isa_rs2 d t) (le_store_data q)))"

section \<open>Renaming\<close>

definition renames :: "ROBEntry list \<Rightarrow> RegisterIndex \<Rightarrow> RobTag" where
  "renames es r = (if writers r es = [] then no_tag else re_tag (last (writers r es)))"

section \<open>Memory traffic\<close>

definition soon_stale :: "nat \<Rightarrow> RobTag \<Rightarrow> ReorderBuffer \<Rightarrow> bool" where
  "soon_stale n t r \<longleftrightarrow> (\<exists>d. d + n \<le> 4 \<and> stale_tag d t r)"

definition all_unsent :: "LSQEntry list \<Rightarrow> bool" where
  "all_unsent Q \<longleftrightarrow> (\<forall>q \<in> set Q. \<not> le_request_sent q)"

definition head_sent :: "LSQEntry list \<Rightarrow> bool" where
  "head_sent Q \<longleftrightarrow> Q \<noteq> [] \<and> le_request_sent (hd Q) \<and> all_unsent (tl Q)"

definition answers_head :: "LSQEntry \<Rightarrow> MemoryImage \<Rightarrow> DataMemoryResponse \<Rightarrow> bool" where
  "answers_head q m p \<longleftrightarrow>
     rsp_tag p = le_destination q \<and> rsp_is_store p = (le_type q = STORE)
     \<and> rsp_success p = in_bounds (le_address q) (width_in_bytes (memory_width (le_op q)))
     \<and> (le_type q = LOAD \<longrightarrow> rsp_value p = fst (read_data m (le_address q) (memory_width (le_op q))))"

datatype traffic_phase = Idle | Busy | Abandoned | Answered | Unwanted

fun in_phase :: "traffic_phase \<Rightarrow> CPU \<Rightarrow> bool" where
  "in_phase Idle c \<longleftrightarrow> \<not> tx_valid (transaction c) \<and> \<not> rsp_valid (response c) \<and> all_unsent (lsq_entries c)"
| "in_phase Busy c \<longleftrightarrow> tx_valid (transaction c) \<and> \<not> rsp_valid (response c)
     \<and> 1 \<le> tx_remaining_cycles (transaction c) \<and> tx_remaining_cycles (transaction c) \<le> 3
     \<and> head_sent (lsq_entries c) \<and> tx_request (transaction c) = make_memory_request (hd (lsq_entries c))"
| "in_phase Abandoned c \<longleftrightarrow> tx_valid (transaction c) \<and> \<not> rsp_valid (response c)
     \<and> 1 \<le> tx_remaining_cycles (transaction c) \<and> tx_remaining_cycles (transaction c) \<le> 3
     \<and> all_unsent (lsq_entries c) \<and> rq_type (tx_request (transaction c)) = LOAD
     \<and> soon_stale (tx_remaining_cycles (transaction c)) (rq_tag (tx_request (transaction c))) (rob c)"
| "in_phase Answered c \<longleftrightarrow> \<not> tx_valid (transaction c) \<and> rsp_valid (response c)
     \<and> head_sent (lsq_entries c) \<and> answers_head (hd (lsq_entries c)) (core_memory c) (response c)"
| "in_phase Unwanted c \<longleftrightarrow> \<not> tx_valid (transaction c) \<and> rsp_valid (response c)
     \<and> all_unsent (lsq_entries c) \<and> \<not> rsp_is_store (response c)
     \<and> soon_stale 0 (rsp_tag (response c)) (rob c)"

text \<open>What the queue guarantees for a request it has sent.\<close>

definition sent_ok :: "CPU \<Rightarrow> bool" where
  "sent_ok c \<longleftrightarrow> (head_sent (lsq_entries c) \<longrightarrow>
     (let q = hd (lsq_entries c)
      in le_address_ready q
         \<and> (if le_type q = LOAD then \<not> fu_valid (loaded c)
            else opd_ready (le_store_data q) \<and> rob_entries c \<noteq> []
              \<and> re_tag (hd (rob_entries c)) = le_destination q)))"

section \<open>The committed memory\<close>

text \<open>A store changes the memory when its response appears, a few cycles before it commits.\<close>

definition store_applied :: "CPU \<Rightarrow> bool" where
  "store_applied c \<longleftrightarrow> rob_entries c \<noteq> [] \<and> re_is_store (hd (rob_entries c))
     \<and> (re_ready (hd (rob_entries c))
        \<or> rsp_valid (response c) \<and> rsp_is_store (response c) \<and> rsp_success (response c))"

definition memory_is :: "isa_state \<Rightarrow> CPU \<Rightarrow> bool" where
  "memory_is s c \<longleftrightarrow>
     (if store_applied c then \<exists>t. isa_step s = Step t \<and> isa_mem t = core_memory c
      else isa_mem s = core_memory c)"

section \<open>The relation\<close>

abbreviation path :: "isa_state \<Rightarrow> CPU \<Rightarrow> annotated" where
  "path s c \<equiv> annot (Some s) (rob_entries c)"

definition queues_ok :: "CPU \<Rightarrow> bool" where
  "queues_ok c \<longleftrightarrow> shapes c \<and> list_all entry_wf (rob_entries c) \<and> stores_wait (rob_entries c)
     \<and> unit_accounted (rs_bag (reservation_station c)) (unit_result c) (rob_entries c)
     \<and> memory_accounted (loaded c) (lsq_entries c) (rob_entries c)
     \<and> (\<forall>r. rat_lookup (rename_table c) r = renames (rob_entries c) r)"

definition flight_right :: "isa_state \<Rightarrow> CPU \<Rightarrow> bool" where
  "flight_right s c \<longleftrightarrow> entries_ok (path s c)
     \<and> (\<forall>x \<in># rs_bag (reservation_station c). rs_right (path s c) x)
     \<and> unit_right (path s c) (unit_result c) \<and> load_right (path s c) (loaded c)
     \<and> (\<forall>q \<in> set (lsq_entries c). access_right (path s c) q)"

definition traffic_ok :: "CPU \<Rightarrow> bool" where
  "traffic_ok c \<longleftrightarrow> (\<exists>p. in_phase p c) \<and> sent_ok c"

definition state_is :: "isa_state \<Rightarrow> CPU \<Rightarrow> bool" where
  "state_is s c \<longleftrightarrow> isa_regs s 0 = 0 \<and> (\<forall>r. unat r < 32 \<longrightarrow> rf_read (register_file c) r = isa_regs s r)
     \<and> memory_is s c \<and> (\<forall>t. final (Some s) (rob_entries c) = Some t \<longrightarrow> current_pc c = isa_pc t)"

definition related :: "isa_state \<Rightarrow> CPU \<Rightarrow> bool" where
  "related s c \<longleftrightarrow> queues_ok c \<and> flight_right s c \<and> traffic_ok c \<and> state_is s c"

section \<open>Tags\<close>

lemma shapesD:
  assumes "shapes c"
  shows "rob_invar (rob c)" "lsq_invar (load_store_queue c)" "rs_invar (reservation_station c)"
    "rf_invar (register_file c)" "rat_invar (rename_table c)"
  using assms by (simp_all add: shapes_def)

lemma rob_entry_facts:
  assumes "shapes c" and "e \<in> set (rob_entries c)"
  shows "re_valid e" "tag_valid (re_tag e)"
proof -
  obtain k where "k < length (rob_entries c)" "e = rob_entries c ! k"
    using assms(2) by (auto simp: in_set_conv_nth)
  then show "re_valid e" "tag_valid (re_tag e)"
    using rob_list_nth(1,2) [OF shapesD(1) [OF assms(1)], of k] by simp_all
qed

lemma same_tag:
  assumes "shapes c" and "e \<in> set (rob_entries c)" and "e' \<in> set (rob_entries c)"
    and "re_tag e = re_tag e'"
  shows "e = e'"
  using distinct_tags [OF shapesD(1) [OF assms(1)]] assms(2-4)
  by (auto simp: distinct_map dest: inj_onD)

lemma unit_tag_entry:
  assumes "unit_accounted B f es" and "t \<in># image_mset rse_destination B \<or> fu_valid f \<and> fu_tag f = t"
  shows "\<exists>e \<in> set es. re_tag e = t \<and> unit_waiting e"
proof -
  have "t \<in># image_mset rse_destination B + mset (result_tags f)"
    using assms(2) by (auto simp: result_tags_def)
  then have "t \<in> re_tag ` set (filter unit_waiting es)"
    using assms(1) by (metis image_set set_mset_mset unit_accounted_def)
  then show ?thesis by auto
qed

lemma memory_tag_entry:
  assumes "memory_accounted f Q es" and "t \<in> le_destination ` set Q \<or> fu_valid f \<and> fu_tag f = t"
  shows "\<exists>e \<in> set es. re_tag e = t \<and> memory_waiting e"
proof -
  have "t \<in> set (result_tags f @ map le_destination Q)"
    using assms(2) by (auto simp: result_tags_def)
  then have "t \<in> set (map re_tag (filter memory_waiting es))"
    using assms(1) unfolding memory_accounted_def by (simp only:)
  then show ?thesis by auto
qed

end
