(* ===== verification/CoreComplete.thy ===== *)
theory CoreComplete
  imports CoreInvariant
begin

text \<open>
  The first half of a cycle: the result on the bus finishes its entry of the reorder buffer and
  wakes the operands that wait for it, and the memory's answer finishes the head of the load/store
  queue.  Everything in flight stays right.
\<close>

section \<open>The result on the bus\<close>

definition completes_right :: "annotated \<Rightarrow> FUResult \<Rightarrow> bool" where
  "completes_right A f \<longleftrightarrow> on_path A (fu_tag f) (\<lambda>e t d.
     (\<exists>u. isa_step t = Step u) \<and> (\<forall>v. isa_result t = Some v \<longrightarrow> fu_value f = v)
     \<and> fu_has_control_result f = (jump_op (di_op d) \<or> branch_op (di_op d))
     \<and> (jump_op (di_op d) \<or> branch_op (di_op d) \<longrightarrow> fu_actual_next_pc f = isa_next_pc d t)
     \<and> (branch_op (di_op d) \<longrightarrow>
          fu_branch_taken f = isa_taken (di_op d) (isa_rs1 d t) (isa_rs2 d t)))"

lemma on_pathD: "on_path A tag P \<Longrightarrow> (e, Some t) \<in> set A \<Longrightarrow> re_tag e = tag \<Longrightarrow> \<exists>d. here t = Some d \<and> P e t d"
  by (auto simp: on_path_def)

lemma on_path_mono:
  assumes "on_path A tag P"
    and "\<And>e t d. (e, Some t) \<in> set A \<Longrightarrow> re_tag e = tag \<Longrightarrow> here t = Some d \<Longrightarrow> P e t d \<Longrightarrow> Q e t d"
  shows "on_path A tag Q"
  using assms unfolding on_path_def by blast

lemma op_exclusive:
  "jump_op opr \<Longrightarrow> \<not> branch_op opr \<and> \<not> load_op opr \<and> \<not> store_op opr"
  "unit_op opr \<Longrightarrow> \<not> load_op opr \<and> \<not> store_op opr \<and> opr \<noteq> OP_HALT \<and> opr \<noteq> OP_INVALID"
  by (auto simp: op_classes unit_op_def)

lemma unit_completes_right:
  assumes "unit_right A f" and "fu_valid f"
  shows "completes_right A f"
proof -
  have "on_path A (fu_tag f) (\<lambda>e t d. unit_op (di_op d) \<and> f = expected_result d t (fu_tag f))"
    using assms by (simp add: unit_right_def)
  then show ?thesis
    unfolding completes_right_def
  proof (rule on_path_mono)
    fix e t d assume d: "here t = Some d" and u: "unit_op (di_op d) \<and> f = expected_result d t (fu_tag f)"
    obtain tag where f: "f = expected_result d t tag" using u by blast
    have o: "\<not> load_op (di_op d)" "\<not> store_op (di_op d)" "di_op d \<noteq> OP_HALT" "di_op d \<noteq> OP_INVALID"
      using u by (simp_all add: unit_op_def)
    have step: "\<exists>u. isa_step t = Step u" by (rule isa_step_unit [OF d o])
    have res: "isa_result t = Some v \<Longrightarrow> fu_value f = v" for v
      using d o op_class_cases(3) [of "di_op d"]
      by (auto simp: isa_result_def f expected_result_def split: if_splits)
    show "(\<exists>u. isa_step t = Step u) \<and> (\<forall>v. isa_result t = Some v \<longrightarrow> fu_value f = v)
     \<and> fu_has_control_result f = (jump_op (di_op d) \<or> branch_op (di_op d))
     \<and> (jump_op (di_op d) \<or> branch_op (di_op d) \<longrightarrow> fu_actual_next_pc f = isa_next_pc d t)
     \<and> (branch_op (di_op d) \<longrightarrow>
          fu_branch_taken f = isa_taken (di_op d) (isa_rs1 d t) (isa_rs2 d t))"
      using step res op_exclusive(1) [of "di_op d"] by (auto simp: f expected_result_def)
  qed
qed

lemma load_completes_right:
  assumes "load_right A f" and "fu_valid f" and "entries_ok A"
  shows "completes_right A f"
proof -
  have r: "\<not> fu_has_control_result f" "\<forall>e \<in> set (map fst A). re_tag e = fu_tag f \<longrightarrow> load_op (re_op e)"
    and p: "on_path A (fu_tag f) (\<lambda>e t d. isa_load (di_op d) (isa_mem t) (isa_address d t) = Some (fu_value f))"
    using assms(1,2) by (simp_all add: load_right_def)
  show ?thesis
    unfolding completes_right_def
  proof (rule on_path_mono [OF p])
    fix e t d
    assume e: "(e, Some t) \<in> set A" "re_tag e = fu_tag f" and d: "here t = Some d"
      and l: "isa_load (di_op d) (isa_mem t) (isa_address d t) = Some (fu_value f)"
    have "re_op e = di_op d"
      using entries_okD [OF assms(3) e(1)] d by (auto simp: entry_ok_def entry_at_def)
    moreover have "load_op (re_op e)" using r(2) e by force
    ultimately have op: "load_op (di_op d)" by simp
    note st = isa_step_load [OF d op l]
    show "(\<exists>u. isa_step t = Step u) \<and> (\<forall>v. isa_result t = Some v \<longrightarrow> fu_value f = v)
     \<and> fu_has_control_result f = (jump_op (di_op d) \<or> branch_op (di_op d))
     \<and> (jump_op (di_op d) \<or> branch_op (di_op d) \<longrightarrow> fu_actual_next_pc f = isa_next_pc d t)
     \<and> (branch_op (di_op d) \<longrightarrow>
          fu_branch_taken f = isa_taken (di_op d) (isa_rs1 d t) (isa_rs2 d t))"
      using st r(1) op_class_cases(1) [OF op] by auto
  qed
qed

text \<open>The entry that the bus finishes is unfinished, and never a store.\<close>

lemma completion_entry:
  assumes "queues_ok c" and "flight_right s c" and "fu_valid (completion c)"
  obtains e where "e \<in> set (rob_entries c)" "re_tag e = fu_tag (completion c)" "\<not> re_ready e"
    "\<not> store_op (re_op e)"
    "unit_waiting e \<and> completion c = unit_result c \<and> co_integer_granted (bus c) \<and> \<not> co_load_granted (bus c)
     \<or> memory_waiting e \<and> completion c = loaded c \<and> co_load_granted (bus c) \<and> \<not> co_integer_granted (bus c)"
proof -
  have inv: "rob_invar (rob c)" using assms(1) by (simp add: queues_ok_def shapes_def)
  show thesis
    using inv
  proof (cases rule: bus_cases)
    case none
    then show thesis
      using assms(3) by (simp add: completion_def cdb_outputs_default_def fu_result_default_def)
  next
    case integer
    then obtain e where "e \<in> set (rob_entries c)" "re_tag e = fu_tag (completion c)" "unit_waiting e"
      using unit_tag_entry [of _ "unit_result c" "rob_entries c" "fu_tag (completion c)"] assms(1,3)
      by (auto simp: queues_ok_def completion_def)
    then show thesis
      using integer by (intro that) (auto simp: completion_def unit_waiting_def unit_op_def)
  next
    case load
    then obtain e where e: "e \<in> set (rob_entries c)" "re_tag e = fu_tag (completion c)" "memory_waiting e"
      using memory_tag_entry [of "loaded c" _ "rob_entries c" "fu_tag (completion c)"] assms(1,3)
      by (auto simp: queues_ok_def completion_def)
    moreover have "load_op (re_op e)"
      using e load assms(2,3) by (auto simp: flight_right_def load_right_def completion_def)
    ultimately show thesis
      using load op_class_cases(1) by (intro that) (auto simp: completion_def memory_waiting_def)
  qed
qed

lemma completion_right:
  assumes "queues_ok c" and "flight_right s c" and "fu_valid (completion c)"
  shows "completes_right (path s c) (completion c)"
proof -
  have r: "unit_right (path s c) (unit_result c)" "load_right (path s c) (loaded c)" "entries_ok (path s c)"
    using assms(2) by (simp_all add: flight_right_def)
  have "completion c = unit_result c \<or> completion c = loaded c"
    using completion_entry [OF assms] by metis
  then show ?thesis
    using unit_completes_right [OF r(1)] load_completes_right [OF r(2) _ r(3)] assms(3) by auto
qed

lemma bus_is_completion:
  assumes "shapes c"
  shows "co_broadcast (bus c) = bus_message (completion c)"
    and "fu_valid (completion c) \<Longrightarrow> tag_valid (fu_tag (completion c))"
    and "flushing c \<Longrightarrow> \<not> fu_valid (completion c)"
  using bus_broadcast [OF shapesD(1) [OF assms]]
  by (simp_all add: completion_def cdb_outputs_default_def fu_result_default_def)

text \<open>What a finished entry holds.\<close>

lemma pending_entry:
  assumes "entries_ok A" and "(e, Some t) \<in> set A" and "isa_result t = Some v"
  shows "\<not> store_op (re_op e)"
proof -
  obtain d where "here t = Some d" "re_op e = di_op d"
    using entries_okD [OF assms(1,2)] by (auto simp: entry_ok_def entry_at_def)
  then show ?thesis
    using assms(3) op_class_cases(2) [of "di_op d"] by (auto simp: isa_result_def split: if_splits)
qed

lemma message_simps [simp]:
  "msg_valid (bus_message f) = fu_valid f"
  "fu_valid f \<Longrightarrow> msg_tag (bus_message f) = fu_tag f"
  "fu_valid f \<Longrightarrow> msg_value (bus_message f) = fu_value f"
  by (simp_all add: bus_message_def msg_default_def)

lemma broadcast_right_bus:
  assumes "queues_ok c" and "flight_right s c"
  shows "broadcast_right (pending (path s c)) (co_broadcast (bus c))"
proof -
  have sh: "shapes c" using assms(1) by (simp add: queues_ok_def)
  have "fu_value (completion c) = v"
    if f: "fu_valid (completion c)" and p: "pending (path s c) (fu_tag (completion c)) v" for v
  proof -
    obtain e t where e: "(e, Some t) \<in> set (path s c)" "re_tag e = fu_tag (completion c)"
        "isa_result t = Some v"
      using p by (auto simp: pending_def)
    then show ?thesis
      using on_pathD [OF completion_right [OF assms f, unfolded completes_right_def] e(1,2)] by blast
  qed
  then show ?thesis by (auto simp: broadcast_right_def bus_is_completion(1) [OF sh])
qed

section \<open>The store that finishes\<close>

lemma store_done_simps [simp]:
  "scc_valid (store_done c) = (head_finishes c \<and> le_type (hd (lsq_entries c)) = STORE)"
  "scc_valid (store_done c) \<Longrightarrow> scc_tag (store_done c) = le_destination (hd (lsq_entries c))"
  by (auto simp: store_done_def store_completion_default_def)

lemma completes_iff:
  assumes "shapes c" and "e \<in> set (rob_entries c)"
  shows "completes (completion c) e \<longleftrightarrow> fu_valid (completion c) \<and> re_tag e = fu_tag (completion c)"
  using rob_entry_facts [OF assms] by (auto simp: completes_def)

lemma store_completes_iff:
  assumes "shapes c" and "e \<in> set (rob_entries c)"
  shows "store_completes (store_done c) e \<longleftrightarrow> head_finishes c \<and> le_type (hd (lsq_entries c)) = STORE
     \<and> re_tag e = le_destination (hd (lsq_entries c)) \<and> re_is_store e"
  using rob_entry_facts [OF assms] by (auto simp: store_completes_def)

lemma marked_ready:
  assumes "shapes c" and "e \<in> set (rob_entries c)"
  shows "re_ready (marked c e) \<longleftrightarrow> re_ready e \<or> fu_valid (completion c) \<and> re_tag e = fu_tag (completion c)
     \<or> head_finishes c \<and> le_type (hd (lsq_entries c)) = STORE
        \<and> re_tag e = le_destination (hd (lsq_entries c)) \<and> re_is_store e"
  using completes_iff [OF assms] store_completes_iff [OF assms]
  by (auto simp: marked_def mark_def Let_def)

lemma marked_simps [simp]:
  "re_tag (marked c e) = re_tag e" "re_valid (marked c e) = re_valid e"
  "re_is_store (marked c e) = re_is_store e" "re_is_branch (marked c e) = re_is_branch e"
  "re_is_jump (marked c e) = re_is_jump e" "re_op (marked c e) = re_op e"
  "re_pc (marked c e) = re_pc e" "re_rd (marked c e) = re_rd e"
  "re_writes_rd (marked c e) = re_writes_rd e"
  "re_predicted_next_pc (marked c e) = re_predicted_next_pc e"
  by (simp_all add: marked_def)

section \<open>The answer of the memory\<close>

lemma access_tag:
  assumes "queues_ok c" and "q \<in> set (lsq_entries c)"
  shows "\<exists>e \<in> set (rob_entries c). re_tag e = le_destination q \<and> memory_waiting e"
  by (rule memory_tag_entry [of "loaded c" "lsq_entries c"])
     (use assms in \<open>auto simp: queues_ok_def\<close>)

lemma hd_access:
  assumes "queues_ok c" and "lsq_entries c \<noteq> []"
  shows "\<exists>e \<in> set (rob_entries c). re_tag e = le_destination (hd (lsq_entries c)) \<and> memory_waiting e"
  using assms by (intro access_tag) auto

lemma response_phase:
  assumes "queues_ok c" and "traffic_ok c" and "response_for_head c"
  shows "in_phase Answered c"
proof -
  have m: "lsq_entries c \<noteq> []" "rsp_valid (response c)"
      "rsp_tag (response c) = le_destination (hd (lsq_entries c))"
    using assms(3) by (auto simp: response_for_head_def matching_response_def Let_def split: if_splits)
  obtain e where "e \<in> set (rob_entries c)" "re_tag e = rsp_tag (response c)"
    using hd_access [OF assms(1) m(1)] m(3) by auto
  then have "\<not> soon_stale 0 (rsp_tag (response c)) (rob c)"
    by (auto simp: soon_stale_def stale_tag_def)
  moreover obtain p where "in_phase p c" using assms(2) by (auto simp: traffic_ok_def)
  ultimately show ?thesis using m(2) by (cases p) auto
qed

lemma phase_response:
  assumes "queues_ok c" and "in_phase Answered c" and "\<not> flushing c"
  shows "response_for_head c"
proof -
  have p: "rsp_valid (response c)" "lsq_entries c \<noteq> []" "answers_head (hd (lsq_entries c)) (core_memory c) (response c)"
    using assms(2) by (simp_all add: head_sent_def)
  have sh: "shapes c" using assms(1) by (simp add: queues_ok_def)
  obtain e where "e \<in> set (rob_entries c)" "re_tag e = le_destination (hd (lsq_entries c))"
    using hd_access [OF assms(1) p(2)] by auto
  then have "tag_valid (le_destination (hd (lsq_entries c)))"
    using rob_entry_facts(2) [OF sh, of e] by simp
  moreover have "le_valid (hd (lsq_entries c))"
    using p(2) by (intro lsq_list_valid [OF shapesD(2) [OF sh]]) simp
  ultimately show ?thesis
    using p assms(3)
    by (auto simp: response_for_head_def matching_response_def answers_head_def Let_def)
qed

lemma sent_answered:
  assumes "queues_ok c" and "traffic_ok c"
  shows "sent_answered c"
  using response_phase [OF assms] by (auto simp: sent_answered_def head_sent_def)

text \<open>A store that is answered is the head of the reorder buffer.\<close>

lemma hd_list_in: "xs \<noteq> [] \<Longrightarrow> hd xs \<in> set xs"
  by simp

lemma sent_store_head:
  assumes "queues_ok c" and "flight_right s c" and "traffic_ok c" and "head_sent (lsq_entries c)"
    and "le_type (hd (lsq_entries c)) = STORE"
  shows "rob_entries c \<noteq> []" "re_tag (hd (rob_entries c)) = le_destination (hd (lsq_entries c))"
    "memory_waiting (hd (rob_entries c))" "store_op (re_op (hd (rob_entries c)))"
    "re_is_store (hd (rob_entries c))"
proof -
  let ?q = "hd (lsq_entries c)" and ?h = "hd (rob_entries c)"
  have sh: "shapes c" using assms(1) by (simp add: queues_ok_def)
  have ne: "lsq_entries c \<noteq> []" using assms(4) by (simp add: head_sent_def)
  show h: "rob_entries c \<noteq> []" "re_tag ?h = le_destination ?q"
    using assms(3-5) by (simp_all add: traffic_ok_def sent_ok_def Let_def)
  obtain e where e: "e \<in> set (rob_entries c)" "re_tag e = le_destination ?q" "memory_waiting e"
    using hd_access [OF assms(1) ne] by auto
  have he: "?h \<in> set (rob_entries c)" using h(1) by simp
  have "e = ?h" using same_tag [OF sh e(1) he] e(2) h(2) by simp
  then show w: "memory_waiting ?h" using e by simp
  have a: "access_right (path s c) ?q" using assms(2) ne by (simp add: flight_right_def)
  then have "re_op ?h = le_op ?q" using he h(2) by (simp add: access_right_def)
  then show "store_op (re_op ?h)" using a assms(5) by (simp add: access_right_def access_wf_def)
  moreover have "entry_wf ?h" using assms(1) he by (simp add: queues_ok_def list_all_iff)
  ultimately show "re_is_store ?h" by (simp add: entry_wf_def)
qed

section \<open>Marked entries\<close>

abbreviation mpath :: "isa_state \<Rightarrow> CPU \<Rightarrow> annotated" where
  "mpath s c \<equiv> annot (Some s) (map (marked c) (rob_entries c))"

lemma mpath_iff:
  "(e', g) \<in> set (mpath s c) \<longleftrightarrow> (\<exists>e. e' = marked c e \<and> (e, g) \<in> set (path s c))"
proof -
  have "mpath s c = map (\<lambda>(e, h). (marked c e, h)) (path s c)" by (rule annot_map) simp
  then show ?thesis by force
qed

lemma path_entry: "(e, g) \<in> set (path s c) \<Longrightarrow> e \<in> set (rob_entries c)"
  by (rule annot_entry)

lemma unmarked:
  assumes "shapes c" and "e \<in> set (rob_entries c)"
    and "\<not> (fu_valid (completion c) \<and> re_tag e = fu_tag (completion c))"
    and "\<not> (head_finishes c \<and> le_type (hd (lsq_entries c)) = STORE
        \<and> re_tag e = le_destination (hd (lsq_entries c)) \<and> re_is_store e)"
  shows "marked c e = e"
  using assms(3,4) completes_iff [OF assms(1,2)] store_completes_iff [OF assms(1,2)]
  by (auto simp: marked_def mark_def Let_def)

lemma ready_unmarked:
  assumes "queues_ok c" and "flight_right s c" and "e \<in> set (rob_entries c)" and "re_ready e"
  shows "marked c e = e"
proof (rule unmarked)
  show sh: "shapes c" using assms(1) by (simp add: queues_ok_def)
  show "e \<in> set (rob_entries c)" by (rule assms)
  show "\<not> (fu_valid (completion c) \<and> re_tag e = fu_tag (completion c))"
  proof
    assume c: "fu_valid (completion c) \<and> re_tag e = fu_tag (completion c)"
    obtain x where "x \<in> set (rob_entries c)" "re_tag x = fu_tag (completion c)" "\<not> re_ready x"
      using c by (auto intro: completion_entry [OF assms(1,2)])
    then show False using same_tag [OF sh _ assms(3), of x] c assms(4) by auto
  qed
  show "\<not> (head_finishes c \<and> le_type (hd (lsq_entries c)) = STORE
        \<and> re_tag e = le_destination (hd (lsq_entries c)) \<and> re_is_store e)"
  proof
    assume c: "head_finishes c \<and> le_type (hd (lsq_entries c)) = STORE
        \<and> re_tag e = le_destination (hd (lsq_entries c)) \<and> re_is_store e"
    then have "lsq_entries c \<noteq> []" by (auto simp: head_finishes_def response_for_head_def)
    then obtain x where "x \<in> set (rob_entries c)" "re_tag x = re_tag e" "memory_waiting x"
      using hd_access [OF assms(1)] c by auto
    then show False using same_tag [OF sh _ assms(3), of x] assms(4) by (auto simp: memory_waiting_def)
  qed
qed

text \<open>The answered store is the one whose effect the memory already has.\<close>

lemma finished_store:
  assumes "queues_ok c" and "flight_right s c" and "traffic_ok c" and "state_is s c"
    and "head_finishes c" and "le_type (hd (lsq_entries c)) = STORE"
    and "(e, Some t) \<in> set (path s c)" and "re_tag e = le_destination (hd (lsq_entries c))"
  shows "e = hd (rob_entries c)" "t = s" "\<exists>u. isa_step s = Step u"
proof -
  have sh: "shapes c" using assms(1) by (simp add: queues_ok_def)
  have a: "in_phase Answered c"
    using assms(5) by (intro response_phase [OF assms(1,3)]) (simp add: head_finishes_def)
  then have "head_sent (lsq_entries c)" by simp
  note h = sent_store_head [OF assms(1-3) this assms(6)]
  obtain x xs where r: "rob_entries c = x # xs" using h(1) by (cases "rob_entries c") auto
  then have "(x, Some s) \<in> set (path s c)" by simp
  then have "e = x \<and> Some t = Some s"
    using assms(7,8) h(2) r by (intro unique_tag [OF distinct_tags [OF shapesD(1) [OF sh]]]) auto
  then show "e = hd (rob_entries c)" "t = s" by (simp_all add: r)
  have "store_applied c"
    using h a assms(5,6) by (auto simp: store_applied_def answers_head_def head_finishes_def)
  then show "\<exists>u. isa_step s = Step u"
    using assms(4) by (auto simp: state_is_def memory_is_def)
qed

lemma entry_at_marked: "entry_at (marked c e) t d \<longleftrightarrow> entry_at e t d"
  by (simp add: entry_at_def)

lemma marked_entries_ok:
  assumes "queues_ok c" and "flight_right s c" and "traffic_ok c" and "state_is s c"
  shows "entries_ok (mpath s c)"
  unfolding entries_ok_def
proof (clarify)
  fix e' t
  assume "(e', Some t) \<in> set (mpath s c)"
  then obtain e where e: "e' = marked c e" "(e, Some t) \<in> set (path s c)" by (auto simp: mpath_iff)
  have sh: "shapes c" using assms(1) by (simp add: queues_ok_def)
  have er: "e \<in> set (rob_entries c)" by (rule path_entry [OF e(2)])
  obtain d where d: "entry_at e t d" "re_ready e \<and> re_op e \<noteq> OP_HALT \<longrightarrow> entry_done e t d"
    using entries_okD [OF _ e(2)] assms(2) by (auto simp: flight_right_def entry_ok_def)
  have here: "here t = Some d" and ops: "re_op e = di_op d" "re_writes_rd e = di_writes_rd d"
      "re_is_store e = di_is_store d" "di_is_branch d = branch_op (di_op d)" "di_is_jump d = jump_op (di_op d)"
      "di_is_store d = store_op (di_op d)" "di_writes_rd d \<Longrightarrow> writing_op (di_op d)"
    using d(1) decoded_wfD(4-8) [OF here_wf] by (auto simp: entry_at_def)
  have "entry_done (marked c e) t d" if r: "re_ready (marked c e)" "re_op e \<noteq> OP_HALT"
  proof (cases "re_ready e")
    case True
    then show ?thesis using d(2) r(2) ready_unmarked [OF assms(1,2) er] by simp
  next
    case False
    then consider (bus) "fu_valid (completion c)" "re_tag e = fu_tag (completion c)"
      | (store) "head_finishes c" "le_type (hd (lsq_entries c)) = STORE"
          "re_tag e = le_destination (hd (lsq_entries c))" "re_is_store e"
          "\<not> (fu_valid (completion c) \<and> re_tag e = fu_tag (completion c))"
      using r(1) marked_ready [OF sh er] by blast
    then show ?thesis
    proof cases
      case bus
      obtain x where "x \<in> set (rob_entries c)" "re_tag x = fu_tag (completion c)" "\<not> store_op (re_op x)"
        using bus(1) by (auto intro: completion_entry [OF assms(1,2)])
      then have ns: "\<not> store_op (di_op d)" using same_tag [OF sh _ er, of x] bus(2) ops(1) by auto
      then have m: "marked c e = complete_entry (completion c) e"
        using bus completes_iff [OF sh er] store_completes_iff [OF sh er] ops
        by (auto simp: marked_def mark_def Let_def store_completes_def)
      obtain d' where "here t = Some d'" and cr: "\<exists>u. isa_step t = Step u"
          "\<forall>v. isa_result t = Some v \<longrightarrow> fu_value (completion c) = v"
          "fu_has_control_result (completion c) = (jump_op (di_op d') \<or> branch_op (di_op d'))"
          "jump_op (di_op d') \<or> branch_op (di_op d') \<longrightarrow> fu_actual_next_pc (completion c) = isa_next_pc d' t"
          "branch_op (di_op d') \<longrightarrow>
          fu_branch_taken (completion c) = isa_taken (di_op d') (isa_rs1 d' t) (isa_rs2 d' t)"
        using on_pathD [OF completion_right [OF assms(1,2) bus(1), unfolded completes_right_def] e(2) bus(2)]
        by blast
      then have eq: "d' = d" using here by simp
      obtain u where "isa_step t = Step u" using cr(1) by blast
      then have "di_writes_rd d \<Longrightarrow> isa_result t \<noteq> None" using isa_step_StepD(3) [OF _ here] by blast
      then show ?thesis
        using cr ops unfolding eq m entry_done_def
        by (auto simp: complete_entry_def Let_def)
    next
      case store
      have "marked c e = e\<lparr>re_ready := True\<rparr>"
        using store completes_iff [OF sh er] store_completes_iff [OF sh er]
        by (auto simp: marked_def mark_def Let_def)
      moreover have "\<exists>u. isa_step t = Step u"
        using finished_store [OF assms store(1,2) e(2) store(3)] by simp
      moreover have "store_op (di_op d)" using store(4) ops by simp
      ultimately show ?thesis
        using ops op_class_cases(2) [of "di_op d"] by (auto simp: entry_done_def)
    qed
  qed
  then show "entry_ok e' t"
    using d(1) by (auto simp: e(1) entry_ok_def entry_at_marked)
qed

lemma pending_marked:
  assumes "queues_ok c" and "flight_right s c" and "pending (path s c) t v"
    and "\<not> (fu_valid (completion c) \<and> t = fu_tag (completion c))"
  shows "pending (mpath s c) t v"
proof -
  obtain e u where e: "(e, Some u) \<in> set (path s c)" "re_tag e = t" "\<not> re_ready e" "isa_result u = Some v"
    using assms(3) by (auto simp: pending_def)
  have sh: "shapes c" using assms(1) by (simp add: queues_ok_def)
  have er: "e \<in> set (rob_entries c)" by (rule path_entry [OF e(1)])
  have "entry_wf e" using assms(1) er by (simp add: queues_ok_def list_all_iff)
  then have "\<not> re_is_store e"
    using pending_entry [of "path s c" e u v] assms(2) e by (simp add: flight_right_def entry_wf_def)
  then have "marked c e = e" using assms(4) e(2) by (intro unmarked [OF sh er]) auto
  then have "(e, Some u) \<in> set (mpath s c)" using e(1) by (auto simp: mpath_iff intro: exI [of _ e])
  then show ?thesis using e by (auto simp: pending_def)
qed

lemma operand_marked:
  assumes "queues_ok c" and "flight_right s c" and "operand_for (pending (path s c)) v opd"
  shows "operand_for (pending (mpath s c)) v (rs_wake_operand opd (co_broadcast (bus c)))"
    and "operand_for (pending (mpath s c)) v (lsq_wake_operand opd (co_broadcast (bus c)))"
proof -
  have sh: "shapes c" using assms(1) by (simp add: queues_ok_def)
  have keep: "pending (path s c) t v \<Longrightarrow> \<not> (msg_valid (co_broadcast (bus c)) \<and> tag_valid t
      \<and> msg_tag (co_broadcast (bus c)) = t) \<Longrightarrow> pending (mpath s c) t v" for t v
  proof (rule pending_marked [OF assms(1,2)])
    assume p: "pending (path s c) t v"
      and n: "\<not> (msg_valid (co_broadcast (bus c)) \<and> tag_valid t \<and> msg_tag (co_broadcast (bus c)) = t)"
    have "tag_valid t" using p rob_entry_facts(2) [OF sh path_entry] by (auto simp: pending_def)
    then show "\<not> (fu_valid (completion c) \<and> t = fu_tag (completion c))"
      using n by (auto simp: bus_is_completion(1) [OF sh])
  qed
  show "operand_for (pending (mpath s c)) v (rs_wake_operand opd (co_broadcast (bus c)))"
    by (rule rs_operand.wake_keeps_right [OF assms(3) broadcast_right_bus [OF assms(1,2)]])
       (rule keep)
  show "operand_for (pending (mpath s c)) v (lsq_wake_operand opd (co_broadcast (bus c)))"
    by (rule lsq_operand.wake_keeps_right [OF assms(3) broadcast_right_bus [OF assms(1,2)]])
       (rule keep)
qed

text \<open>What is right on the path stays right on the marked path.\<close>

lemma on_path_marked:
  assumes "on_path (path s c) tag P"
    and "\<And>e t d. P e t d \<Longrightarrow> Q (marked c e) t d"
  shows "on_path (mpath s c) tag Q"
  using assms unfolding on_path_def mpath_iff by (metis marked_simps(1))

lemma rs_right_marked:
  assumes "queues_ok c" and "flight_right s c" and "rs_right (path s c) x" and "rse_busy x"
  shows "rs_right (mpath s c) (rs_wake_entry (co_broadcast (bus c)) x)"
  unfolding rs_right_def
proof
  show "unit_op (rse_op (rs_wake_entry (co_broadcast (bus c)) x))"
    using assms(3) by (simp add: rs_right_def)
  show "on_path (mpath s c) (rse_destination (rs_wake_entry (co_broadcast (bus c)) x)) (\<lambda>e t d.
     rse_op (rs_wake_entry (co_broadcast (bus c)) x) = di_op d
     \<and> rse_immediate (rs_wake_entry (co_broadcast (bus c)) x) = di_immediate d
     \<and> rse_pc (rs_wake_entry (co_broadcast (bus c)) x) = isa_pc t
     \<and> operand_for (pending (mpath s c)) (lhs_value d t) (rse_lhs (rs_wake_entry (co_broadcast (bus c)) x))
     \<and> operand_for (pending (mpath s c)) (rhs_value d t) (rse_rhs (rs_wake_entry (co_broadcast (bus c)) x)))"
    using assms(3)
    by (simp add: rs_right_def wake_entry_rs_operands [OF assms(4)], elim conjE)
       (erule on_path_marked, simp add: operand_marked(1) [OF assms(1,2)])
qed

lemma access_right_marked:
  assumes "queues_ok c" and "flight_right s c" and "access_right (path s c) q" and "le_valid q"
  shows "access_right (mpath s c) (lsq_wake_entry (co_broadcast (bus c)) q)"
  unfolding access_right_def
proof (intro conjI)
  let ?w = "lsq_wake_entry (co_broadcast (bus c)) q"
  have wf: "access_wf q" using assms(3) by (simp add: access_right_def)
  then show "access_wf ?w"
    by (auto simp: access_wf_def wake_entry_operands [OF assms(4)] lsq_operand.ready_stays)
  show "\<forall>e \<in> set (map fst (mpath s c)). re_tag e = le_destination ?w \<longrightarrow> re_op e = le_op ?w"
    using assms(3) by (auto simp: access_right_def)
  show "on_path (mpath s c) (le_destination ?w) (\<lambda>e t d. le_op ?w = di_op d \<and> le_immediate ?w = di_immediate d
      \<and> operand_for (pending (mpath s c)) (isa_rs1 d t) (le_base ?w)
      \<and> (le_type ?w = STORE \<longrightarrow> operand_for (pending (mpath s c)) (isa_rs2 d t) (le_store_data ?w)))"
    using assms(3)
    by (simp add: access_right_def wake_entry_operands [OF assms(4)], elim conjE)
       (erule on_path_marked, simp add: operand_marked(2) [OF assms(1,2)])
qed

lemma unit_right_marked: "unit_right (path s c) f \<Longrightarrow> unit_right (mpath s c) f"
  by (auto simp: unit_right_def elim!: on_path_marked)

lemma load_right_marked: "load_right (path s c) f \<Longrightarrow> load_right (mpath s c) f"
  by (auto simp: load_right_def elim!: on_path_marked)

end
