(* ===== verification/CoreResults.thy ===== *)
theory CoreResults
  imports CoreComplete
begin

text \<open>
  The new results of a cycle: what the integer unit computes for the dispatched instruction and what
  the memory answers to the load at the head of the queue are the results of the sequential
  machine.  Every unfinished instruction is still waiting in exactly one place.
\<close>

section \<open>The integer unit\<close>

lemma rs_entry_busy: "x \<in># rs_bag s \<Longrightarrow> rse_busy x"
  by (simp add: rs_bag_def)

lemma dispatched_result:
  assumes "queues_ok c" and "flight_right s c" and "dispatched c = Some x"
  shows "fu_valid (execute_instruction (make_execute x))"
    and "fu_tag (execute_instruction (make_execute x)) = rse_destination x"
    and "unit_right (mpath s c) (execute_instruction (make_execute x))"
proof -
  have sh: "shapes c" using assms(1) by (simp add: queues_ok_def)
  note x = dispatchedD [OF sh assms(3)]
  have r: "rs_right (path s c) x" using assms(2) x(1) by (simp add: flight_right_def)
  have op: "unit_op (ex_op (make_execute x))"
    using r by (simp add: rs_right_def make_execute_def)
  show "fu_valid (execute_instruction (make_execute x))" using op by (simp add: unit_valid)
  show tag: "fu_tag (execute_instruction (make_execute x)) = rse_destination x"
    using op by (simp add: make_execute_def)
  have "rs_right (mpath s c) x"
    using rs_right_marked [OF assms(1,2) r x(4)] wake_ready_entry [OF x(2,3)] by simp
  then have "on_path (mpath s c) (rse_destination x) (\<lambda>e t d. rse_op x = di_op d
      \<and> rse_immediate x = di_immediate d \<and> rse_pc x = isa_pc t
      \<and> operand_for (pending (mpath s c)) (lhs_value d t) (rse_lhs x)
      \<and> operand_for (pending (mpath s c)) (rhs_value d t) (rse_rhs x))"
    by (simp add: rs_right_def)
  then have "on_path (mpath s c) (rse_destination x) (\<lambda>e t d. unit_op (di_op d)
      \<and> execute_instruction (make_execute x) = expected_result d t (rse_destination x))"
  proof (rule on_path_mono)
    fix e t d
    assume d: "here t = Some d" and p: "rse_op x = di_op d
      \<and> rse_immediate x = di_immediate d \<and> rse_pc x = isa_pc t
      \<and> operand_for (pending (mpath s c)) (lhs_value d t) (rse_lhs x)
      \<and> operand_for (pending (mpath s c)) (rhs_value d t) (rse_rhs x)"
    have u: "unit_op (di_op d)" using op p by (simp add: make_execute_def)
    moreover have "make_execute x = execute_of d t (rse_destination x)"
      using p x(2,3) by (simp add: make_execute_def execute_of_def operand_for_def)
    ultimately show "unit_op (di_op d)
      \<and> execute_instruction (make_execute x) = expected_result d t (rse_destination x)"
      using unit_computes [OF here_wf [OF d] u] by simp
  qed
  then show "unit_right (mpath s c) (execute_instruction (make_execute x))"
    by (simp add: unit_right_def tag)
qed

lemma next_unit_right:
  assumes "queues_ok c" and "flight_right s c" and "\<not> flushing c"
  shows "unit_right (mpath s c) (unit_result (next_cpu c))"
proof -
  have sh: "shapes c" using assms(1) by (simp add: queues_ok_def)
  have old: "unit_right (mpath s c) (unit_result c)"
    using assms(2) by (auto simp: flight_right_def intro: unit_right_marked)
  have none: "unit_right (mpath s c) fu_result_default"
    by (simp add: unit_right_def fu_result_default_def)
  show ?thesis
    using dispatched_result [OF assms(1,2)] old none assms(3)
    by (auto simp: next_unit(1) [OF sh] split: option.split)
qed

section \<open>The memory a load sees\<close>

lemma annot_split:
  "(e, h) \<in> set (annot g es) \<Longrightarrow> \<exists>pre post. es = pre @ e # post \<and> final g pre = h"
proof (induction es arbitrary: g)
  case (Cons x xs)
  show ?case
  proof (cases "e = x \<and> h = g")
    case True
    then show ?thesis by (intro exI [of _ "[]"] exI [of _ xs]) auto
  next
    case False
    then have "(e, h) \<in> set (annot (gnext g x) xs)" using Cons.prems by auto
    then obtain pre post where "xs = pre @ e # post" "final (gnext g x) pre = h"
      using Cons.IH by blast
    then show ?thesis by (intro exI [of _ "x # pre"] exI [of _ post]) auto
  qed
qed simp

lemma annot_append_list: "annot g (xs @ ys) = annot g xs @ annot (final g xs) ys"
  by (induction xs arbitrary: g) simp_all

lemma entries_ok_append:
  "entries_ok (annot g (xs @ ys)) \<Longrightarrow> entries_ok (annot g xs)"
  by (auto simp: entries_ok_def annot_append_list)

lemma final_memory:
  assumes "entries_ok (annot (Some s) es)" and "final (Some s) es = Some t"
    and "\<forall>e \<in> set es. \<not> store_op (re_op e)"
  shows "isa_mem t = isa_mem s"
  using assms
proof (induction es arbitrary: s)
  case (Cons x xs)
  have "entry_ok x s" using Cons.prems(1) by (simp add: entries_ok_def)
  then obtain d where d: "here s = Some d" "re_op x = di_op d" by (auto simp: entry_ok_def entry_at_def)
  obtain u where u: "gnext (Some s) x = Some u" using Cons.prems(2) by (cases "gnext (Some s) x") auto
  have step: "isa_step s = Step u" using gnext_SomeD [OF u] by simp
  have "isa_mem t = isa_mem u"
    using Cons.prems u by (intro Cons.IH) (simp_all add: entries_ok_def)
  also have "\<dots> = isa_mem s"
    using isa_step_StepD(4) [OF step d(1)] d(2) Cons.prems(3) by simp
  finally show ?case .
qed simp

lemma distinct_split:
  assumes "distinct (map re_tag (pre @ e # post))" and "pre @ e # post = pre' @ e' # post'"
    and "re_tag e = re_tag e'"
  shows "pre = pre'"
proof -
  have l: "\<And>k. k < length (pre @ e # post) \<Longrightarrow> re_tag ((pre @ e # post) ! k) = re_tag e \<Longrightarrow> k = length pre"
    using assms(1) nth_eq_iff_index_eq [OF assms(1), of _ "length pre"] by (auto simp del: map_append)
  have "length pre' = length pre"
    using l [of "length pre'"] assms(2,3) by (metis length_append length_Cons less_add_Suc1 nth_append_length add_Suc_right)
  then show ?thesis using assms(2) by (metis append_eq_append_conv)
qed

text \<open>The first unfinished memory access of the path runs on the memory as it is.\<close>

lemma memory_seen:
  assumes "queues_ok c" and "flight_right s c" and "memory_is s c"
    and "rob_entries c = pre @ e # post" and "\<forall>x \<in> set pre. \<not> memory_waiting x"
    and "final (Some s) pre = Some t" and "pre = [] \<Longrightarrow> \<not> re_is_store e"
  shows "isa_mem t = core_memory c"
proof -
  have ok: "entries_ok (annot (Some s) pre)"
    using assms(2,4) by (metis entries_ok_append flight_right_def)
  have wf: "\<And>x. x \<in> set (rob_entries c) \<Longrightarrow> entry_wf x"
    using assms(1) by (simp add: queues_ok_def list_all_iff)
  have st: "re_ready x" if "x \<in> set pre" "store_op (re_op x)" for x
    using assms(5) that by (auto simp: memory_waiting_def unit_op_def)
  have tl: "\<not> re_ready x" if "x \<in> set (tl pre)" "store_op (re_op x)" for x
  proof -
    have "x \<in> set (tl (rob_entries c))" using that(1) assms(4) by (cases pre) auto
    moreover have "x \<in> set (rob_entries c)" using that(1) assms(4) by (cases pre) auto
    ultimately show ?thesis
      using assms(1) that(2) wf [of x] by (auto simp: queues_ok_def stores_wait_def entry_wf_def)
  qed
  have tls: "\<forall>x \<in> set (tl pre). \<not> store_op (re_op x)"
  proof
    fix x assume "x \<in> set (tl pre)"
    then show "\<not> store_op (re_op x)" using st [of x] tl [of x] by (cases pre) auto
  qed
  show ?thesis
  proof (cases pre)
    case Nil
    then have "\<not> store_applied c" using assms(4,7) by (simp add: store_applied_def)
    then show ?thesis using assms(3,6) Nil by (simp add: memory_is_def)
  next
    case (Cons h pre')
    have h: "hd (rob_entries c) = h" "h \<in> set (rob_entries c)" using assms(4) Cons by simp_all
    show ?thesis
    proof (cases "store_op (re_op h)")
      case False
      then have "\<not> store_applied c" using h wf [of h] by (simp add: store_applied_def entry_wf_def)
      moreover have "isa_mem t = isa_mem s"
        using ok assms(6) tls False Cons by (intro final_memory [of s pre]) auto
      ultimately show ?thesis using assms(3) by (simp add: memory_is_def)
    next
      case True
      have "re_ready h" using st Cons True by simp
      then have "store_applied c" using h wf [of h] True assms(4) by (simp add: store_applied_def entry_wf_def)
      then obtain u where u: "isa_step s = Step u" "isa_mem u = core_memory c"
        using assms(3) by (auto simp: memory_is_def)
      have g: "gnext (Some s) h = Some u"
      proof (cases "gnext (Some s) h")
        case None
        then show ?thesis using assms(6) Cons by simp
      next
        case (Some v)
        then show ?thesis using gnext_SomeD [OF Some] u(1) by simp
      qed
      have "isa_mem t = isa_mem u"
        using ok assms(6) tls g Cons
        by (intro final_memory [of u pre']) (simp_all add: entries_ok_def)
      then show ?thesis using u(2) by simp
    qed
  qed
qed

lemma first_waiting:
  assumes "distinct (map re_tag es)" and "e \<in> set es" and "memory_waiting e"
    and "map re_tag (filter memory_waiting es) = re_tag e # ts" and "es = pre @ e # post"
  shows "\<forall>x \<in> set pre. \<not> memory_waiting x"
proof (rule ccontr)
  assume "\<not> ?thesis"
  then obtain y ys where y: "filter memory_waiting pre = y # ys"
    by (cases "filter memory_waiting pre") (auto simp: filter_empty_conv)
  then have "filter memory_waiting es = y # (ys @ filter memory_waiting (e # post))"
    by (simp add: assms(5))
  then have "re_tag y = re_tag e" using assms(4) by simp
  moreover have "y \<in> set pre" using y by (metis Cons_eq_filterD in_set_conv_decomp)
  moreover have "re_tag e \<notin> re_tag ` set pre" using assms(1) by (simp add: assms(5))
  ultimately show False by (metis image_eqI)
qed

lemma load_memory:
  assumes "queues_ok c" and "flight_right s c" and "traffic_ok c" and "memory_is s c"
    and "head_sent (lsq_entries c)" and "le_type (hd (lsq_entries c)) = LOAD"
    and "(e, Some t) \<in> set (path s c)" and "re_tag e = le_destination (hd (lsq_entries c))"
  shows "isa_mem t = core_memory c"
proof -
  let ?q = "hd (lsq_entries c)"
  have sh: "shapes c" using assms(1) by (simp add: queues_ok_def)
  have ne: "lsq_entries c \<noteq> []" using assms(5) by (simp add: head_sent_def)
  obtain pre post where split: "rob_entries c = pre @ e # post" "final (Some s) pre = Some t"
    using annot_split [OF assms(7)] by blast
  have er: "e \<in> set (rob_entries c)" by (rule path_entry [OF assms(7)])
  obtain x where x: "x \<in> set (rob_entries c)" "re_tag x = le_destination ?q" "memory_waiting x"
    using hd_access [OF assms(1) ne] by auto
  have w: "memory_waiting e" using same_tag [OF sh x(1) er] x assms(8) by simp
  have "\<not> fu_valid (loaded c)"
    using assms(3,5,6) by (simp add: traffic_ok_def sent_ok_def Let_def)
  then have "map re_tag (filter memory_waiting (rob_entries c)) = re_tag e # map le_destination (tl (lsq_entries c))"
    using assms(1,8) ne
    by (cases "lsq_entries c") (simp_all add: queues_ok_def memory_accounted_def result_tags_def)
  then have first: "\<forall>x \<in> set pre. \<not> memory_waiting x"
    by (rule first_waiting [OF distinct_tags [OF shapesD(1) [OF sh]] er w _ split(1)])
  have "access_right (path s c) ?q" using assms(2) ne by (simp add: flight_right_def)
  then have "load_op (re_op e)"
    using er assms(6,8) by (auto simp: access_right_def access_wf_def)
  moreover have "entry_wf e" using assms(1) er by (simp add: queues_ok_def list_all_iff)
  ultimately have "\<not> re_is_store e" using op_class_cases(1) by (simp add: entry_wf_def)
  then show ?thesis
    by (intro memory_seen [OF assms(1,2,4) split(1) first split(2)])
qed

section \<open>The load result\<close>

lemma next_load_right:
  assumes "queues_ok c" and "flight_right s c" and "traffic_ok c" and "memory_is s c"
    and "\<not> flushing c"
  shows "load_right (mpath s c) (loaded (next_cpu c))"
proof -
  let ?q = "hd (lsq_entries c)"
  have sh: "shapes c" using assms(1) by (simp add: queues_ok_def)
  have old: "load_right (mpath s c) (loaded c)"
    using assms(2) by (auto simp: flight_right_def intro: load_right_marked)
  have none: "load_right (mpath s c) fu_result_default"
    by (simp add: load_right_def fu_result_default_def)
  let ?f = "fu_result_default\<lparr>fu_tag := le_destination ?q,
      fu_value := extend_load_result (le_op ?q) (rsp_value (response c)), fu_valid := True\<rparr>"
  have new: "load_right (mpath s c) ?f" if fin: "head_finishes c" and ld: "le_type ?q = LOAD"
  proof -
    have ph: "in_phase Answered c"
      using fin by (intro response_phase [OF assms(1,3)]) (simp add: head_finishes_def)
    then have hs: "head_sent (lsq_entries c)" and ans: "answers_head ?q (core_memory c) (response c)"
      by simp_all
    have ne: "lsq_entries c \<noteq> []" using hs by (simp add: head_sent_def)
    have ar: "access_right (path s c) ?q" using assms(2) ne by (simp add: flight_right_def)
    have ready: "le_address_ready ?q"
      using assms(3) hs by (simp add: traffic_ok_def sent_ok_def Let_def)
    have op: "load_op (le_op ?q)" using ar ld by (simp add: access_right_def access_wf_def)
    have base: "opd_ready (le_base ?q)" "le_address ?q = opd_value (le_base ?q) + le_immediate ?q"
      using ar ready by (simp_all add: access_right_def access_wf_def)
    have ok: "in_bounds (le_address ?q) (width_in_bytes (memory_width (le_op ?q)))"
      and v: "rsp_value (response c) = fst (read_data (core_memory c) (le_address ?q) (memory_width (le_op ?q)))"
      using ans fin ld by (simp_all add: answers_head_def head_finishes_def)
    have "on_path (path s c) (le_destination ?q) (\<lambda>e t d. le_op ?q = di_op d
          \<and> le_immediate ?q = di_immediate d \<and> operand_for (pending (path s c)) (isa_rs1 d t) (le_base ?q)
          \<and> (le_type ?q = STORE \<longrightarrow> operand_for (pending (path s c)) (isa_rs2 d t) (le_store_data ?q)))"
      using ar by (simp add: access_right_def)
    then have "on_path (path s c) (le_destination ?q) (\<lambda>e t d.
        isa_load (di_op d) (isa_mem t) (isa_address d t) = Some (fu_value ?f))"
    proof (rule on_path_mono)
      fix e t d
      assume e: "(e, Some t) \<in> set (path s c)" "re_tag e = le_destination ?q"
        and p: "le_op ?q = di_op d
          \<and> le_immediate ?q = di_immediate d \<and> operand_for (pending (path s c)) (isa_rs1 d t) (le_base ?q)
          \<and> (le_type ?q = STORE \<longrightarrow> operand_for (pending (path s c)) (isa_rs2 d t) (le_store_data ?q))"
      have "isa_address d t = le_address ?q"
        using p base by (simp add: operand_for_def isa_address_def)
      moreover have "isa_mem t = core_memory c"
        by (rule load_memory [OF assms(1-4) hs ld e])
      ultimately show "isa_load (di_op d) (isa_mem t) (isa_address d t) = Some (fu_value ?f)"
        using p ok v loaded_value [OF op, of "core_memory c" "le_address ?q"] by (simp add: read_data_success)
    qed
    then have "on_path (mpath s c) (fu_tag ?f) (\<lambda>e t d.
        isa_load (di_op d) (isa_mem t) (isa_address d t) = Some (fu_value ?f))"
      by (simp, elim on_path_marked)
    moreover have "\<forall>e \<in> set (map fst (mpath s c)). re_tag e = fu_tag ?f \<longrightarrow> load_op (re_op e)"
      using ar op by (auto simp: access_right_def)
    ultimately show ?thesis
      by (simp add: load_right_def fu_result_default_def)
  qed
  show ?thesis
    using old none new assms(5)
    by (simp add: next_lsq(3) [OF sh sent_answered [OF assms(1,3)]])
qed

end
