(* ===== verification/CoreIssue.thy ===== *)
theory CoreIssue
  imports CoreResults
begin

text \<open>
  The second half of a cycle: the head of the reorder buffer commits, which is one step of the
  sequential machine, and one instruction is issued, whose operands are the registers of the
  machine state in which it will execute.
\<close>

section \<open>Commit\<close>

definition commit_state :: "isa_state \<Rightarrow> CPU \<Rightarrow> isa_state" where
  "commit_state s c = (if head_commits (rob c) then (case isa_step s of Step t \<Rightarrow> t | _ \<Rightarrow> s) else s)"

definition commits_halt :: "CPU \<Rightarrow> bool" where
  "commits_halt c \<longleftrightarrow> head_commits (rob c) \<and> re_op (hd (rob_entries c)) = OP_HALT"

lemma head_on_path: "rob_entries c \<noteq> [] \<Longrightarrow> (hd (rob_entries c), Some s) \<in> set (path s c)"
  by (cases "rob_entries c") simp_all

lemma head_commit:
  assumes "flight_right s c" and "head_commits (rob c)" and "\<not> commits_halt c"
  obtains d where "isa_step s = Step (commit_state s c)" "here s = Some d"
    "entry_at (hd (rob_entries c)) s d" "entry_done (hd (rob_entries c)) s d"
    "\<not> flushing c \<Longrightarrow> isa_pc (commit_state s c) = re_predicted_next_pc (hd (rob_entries c))"
    "flushing c \<Longrightarrow> isa_pc (commit_state s c) = re_actual_next_pc (hd (rob_entries c))"
proof -
  let ?h = "hd (rob_entries c)"
  have h: "rob_entries c \<noteq> []" "re_ready ?h" using assms(2) by (simp_all add: head_commits_def)
  have "entry_ok ?h s"
    using assms(1) entries_okD [OF _ head_on_path [OF h(1)]] by (simp add: flight_right_def)
  then obtain d where d: "entry_at ?h s d" "entry_done ?h s d"
    using h(2) assms(2,3) by (auto simp: entry_ok_def commits_halt_def)
  have here: "here s = Some d" using d(1) by (simp add: entry_at_def)
  have step: "isa_step s = Step (commit_state s c)"
    using d(2) assms(2) by (auto simp: entry_done_def commit_state_def)
  note pc = isa_step_StepD(1) [OF step here]
  have ctl: "is_control_instruction ?h \<longleftrightarrow> di_is_branch d \<or> di_is_jump d"
    using d(1) by (auto simp: is_control_instruction_def entry_at_def)
  have op: "di_is_branch d = branch_op (di_op d)" "di_is_jump d = jump_op (di_op d)"
    using decoded_wfD(6,7) [OF here_wf [OF here]] by simp_all
  have nf: "isa_pc (commit_state s c) = re_predicted_next_pc ?h" if "\<not> flushing c"
  proof (cases "is_control_instruction ?h")
    case True
    then have "re_predicted_next_pc ?h = re_actual_next_pc ?h"
      using that assms(2) by (simp add: flushing_def head_mispredicted_def)
    then show ?thesis using True ctl d(2) pc by (auto simp: entry_done_def)
  next
    case False
    then show ?thesis
      using ctl d(1) pc op isa_next_pc_plain [of d s] by (auto simp: entry_at_def)
  qed
  have f: "isa_pc (commit_state s c) = re_actual_next_pc ?h" if "flushing c"
    using that ctl d(2) pc by (auto simp: flushing_def head_mispredicted_def entry_done_def)
  show thesis by (rule that [OF step here d nf f])
qed

lemma kept_path:
  assumes "flight_right s c" and "\<not> commits_halt c" and "\<not> flushing c"
  shows "annot (Some (commit_state s c)) (kept_entries c)
      = (if head_commits (rob c) then tl (mpath s c) else mpath s c)"
    and "final (Some (commit_state s c)) (kept_entries c) = final (Some s) (rob_entries c)"
proof -
  have m: "final g (map (marked c) es) = final g es" for g es
    by (rule annot_map) simp
  have "annot (Some (commit_state s c)) (kept_entries c)
      = (if head_commits (rob c) then tl (mpath s c) else mpath s c)
    \<and> final (Some (commit_state s c)) (kept_entries c) = final (Some s) (rob_entries c)"
  proof (cases "head_commits (rob c)")
    case False
    then show ?thesis using assms(3) by (simp add: kept_entries_def commit_state_def m)
  next
    case True
    then obtain h es where l: "rob_entries c = h # es" by (cases "rob_entries c") (auto simp: head_commits_def)
    have "isa_step s = Step (commit_state s c)" "isa_pc (commit_state s c) = re_predicted_next_pc h"
      using assms(3) l by (auto intro: head_commit [OF assms(1) True assms(2)])
    then have g: "gnext (Some s) h = Some (commit_state s c)" by simp
    have g': "gnext (Some s) (marked c h) = Some (commit_state s c)"
      unfolding g [symmetric] by (rule gnext_cong) simp
    show ?thesis
      using True assms(3) by (simp add: kept_entries_def l g' g m del: gnext.simps)
  qed
  then show "annot (Some (commit_state s c)) (kept_entries c)
      = (if head_commits (rob c) then tl (mpath s c) else mpath s c)"
    "final (Some (commit_state s c)) (kept_entries c) = final (Some s) (rob_entries c)"
    by simp_all
qed

lemma flush_final:
  assumes "flight_right s c" and "\<not> commits_halt c" and "flushing c"
  shows "kept_entries c = []" "issuing c = None" "isa_step s = Step (commit_state s c)"
    "isa_pc (commit_state s c) = re_actual_next_pc (hd (rob_entries c))"
proof -
  show "kept_entries c = []" using assms(3) by (simp add: kept_entries_def)
  show "issuing c = None" using assms(3) issuingD(2) [of c] by (cases "issuing c") auto
  have "head_commits (rob c)" using assms(3) by (simp add: flushing_def)
  then show "isa_step s = Step (commit_state s c)"
    "isa_pc (commit_state s c) = re_actual_next_pc (hd (rob_entries c))"
    using assms(3) by (auto intro: head_commit [OF assms(1) _ assms(2)])
qed

section \<open>The issued instruction\<close>

definition fetch_right :: "isa_state \<Rightarrow> CPU \<Rightarrow> bool" where
  "fetch_right s c \<longleftrightarrow> (\<forall>t. final (Some s) (rob_entries c) = Some t \<longrightarrow>
     read_word (core_memory c) (isa_pc t) = read_word (isa_mem t) (isa_pc t))"

lemma issued_here:
  assumes "state_is s c" and "fetch_right s c" and "issuing c = Some w"
    and "final (Some s) (rob_entries c) = Some t"
  shows "here t = Some (decode w)" "current_pc c = isa_pc t"
proof -
  show pc: "current_pc c = isa_pc t" using assms(1,4) by (simp add: state_is_def)
  have "read_word (core_memory c) (isa_pc t) = Some w"
    using issuingD(1) [OF assms(3)] by (simp add: fetched_def pc)
  then have "read_word (isa_mem t) (isa_pc t) = Some w"
    using assms(2,4) by (metis fetch_right_def)
  then show "here t = Some (decode w)" by (simp add: here_def)
qed

lemma predicted_plain:
  "\<not> di_is_branch d \<Longrightarrow> di_op d \<noteq> OP_JAL \<Longrightarrow> di_op d \<noteq> OP_JALR \<Longrightarrow> fst (predicted_next_pc c d pc) = pc + 4"
  by (simp add: predicted_next_pc_def Let_def kInstructionWidth_def)

lemma issue_entry_simps [simp]:
  "re_op (issue_rob_entry (issue_in c w)) = di_op (decode w)"
  "re_pc (issue_rob_entry (issue_in c w)) = current_pc c"
  "re_rd (issue_rob_entry (issue_in c w)) = di_rd (decode w)"
  "re_writes_rd (issue_rob_entry (issue_in c w)) = (di_writes_rd (decode w) \<and> di_rd (decode w) \<noteq> 0)"
  "re_ready (issue_rob_entry (issue_in c w)) = (di_op (decode w) = OP_HALT)"
  "re_predicted_next_pc (issue_rob_entry (issue_in c w)) = fst (predicted_next_pc c (decode w) (current_pc c))"
  "re_is_branch (issue_rob_entry (issue_in c w)) = di_is_branch (decode w)"
  "re_is_store (issue_rob_entry (issue_in c w)) = di_is_store (decode w)"
  "re_is_jump (issue_rob_entry (issue_in c w)) = di_is_jump (decode w)"
  by (simp_all add: issue_rob_entry_def Let_def issue_in_simps)

lemma issued_entry_wf:
  assumes "issuing c = Some w"
  shows "entry_wf (issue_rob_entry (issue_in c w))"
  using issuingD(5) [OF assms] decode_wfD(1,5-8) [of w]
  by (auto simp: entry_wf_def valid_register_def kRatRegisterCount_def unat_gt_0)

lemma issued_entry_ok:
  assumes "state_is s c" and "fetch_right s c" and "issuing c = Some w"
    and "final (Some s) (rob_entries c) = Some t"
  shows "entry_ok (issue_rob_entry (issue_in c w)) t"
proof -
  note h = issued_here [OF assms]
  have "entry_at (issue_rob_entry (issue_in c w)) t (decode w)"
    using decode_wfD(6,7,8) [of w] h
    by (auto simp: entry_at_def predicted_plain jump_op_def)
  then show ?thesis by (auto simp: entry_ok_def)
qed

section \<open>Its operands\<close>

lemma rob_lookup_entry:
  assumes "shapes c" and "e \<in> set (rob_entries c)"
  shows "rob_lookup (rob c) (re_tag e) = Some e"
proof -
  obtain k where "k < rob_count (rob c)" "e = rob_entries c ! k"
    using assms(2) by (auto simp: in_set_conv_nth)
  then show ?thesis using rob_lookup_list [OF shapesD(1) [OF assms(1)]] by simp
qed

lemma writer_in: "writers r es \<noteq> [] \<Longrightarrow> last (writers r es) \<in> set es \<and> re_writes_rd (last (writers r es))
    \<and> re_rd (last (writers r es)) = r"
  using last_in_set [of "writers r es"] by (auto simp: writers_def)

lemma source_state_right:
  assumes "queues_ok c" and "flight_right s c" and "state_is s c"
    and "final (Some s) (rob_entries c) = Some t" and "unat r < 32"
  shows "if r = 0 then isa_regs t r = 0 else source_right (pending (path s c)) (isa_regs t r) (source_state c r)"
    and "ss_producer_ready (source_state c r) \<Longrightarrow> \<exists>e \<in> set (rob_entries c). re_ready e
      \<and> re_tag e = ss_producer (source_state c r)"
proof -
  have sh: "shapes c" using assms(1) by (simp add: queues_ok_def)
  have ok: "entries_ok (path s c)" using assms(2) by (simp add: flight_right_def)
  have rat: "rat_lookup (rename_table c) r = renames (rob_entries c) r"
    using assms(1) by (simp add: queues_ok_def)
  have zero: "isa_regs t 0 = 0" if "isa_regs s 0 = 0" "isa_reach s t" for s t
    using that(2,1) by (induction rule: isa_reach.induct) (auto intro: isa_regs_zero)
  note ahead = registers_ahead [OF ok assms(4), of r]
  let ?w = "writers r (rob_entries c)"
  show "if r = 0 then isa_regs t r = 0 else source_right (pending (path s c)) (isa_regs t r) (source_state c r)"
  proof (cases "r = 0")
    case True
    then show ?thesis
      using zero [OF _ final_reach [OF assms(4)]] assms(3) by (simp add: state_is_def)
  next
    case r: False
    show ?thesis
    proof (cases "?w = []")
      case True
      then have "source_state c r = source_default\<lparr>ss_architectural_value := rf_read (register_file c) r\<rparr>"
        using r rat by (simp add: source_state_def Let_def renames_def source_default_def)
      then show ?thesis
        using r True ahead assms(3,5) by (simp add: source_right_def source_default_def state_is_def)
    next
      case False
      let ?e = "last ?w"
      have er: "?e \<in> set (rob_entries c)" "re_writes_rd ?e" "re_rd ?e = r" using writer_in [OF False] by simp_all
      have tv: "tag_valid (re_tag ?e)" by (rule rob_entry_facts(2) [OF sh er(1)])
      have src: "source_state c r = (if re_ready ?e
          then source_default\<lparr>ss_architectural_value := rf_read (register_file c) r,
            ss_producer := re_tag ?e, ss_producer_ready := True, ss_producer_value := re_value ?e\<rparr>
          else source_default\<lparr>ss_architectural_value := rf_read (register_file c) r,
            ss_producer := re_tag ?e\<rparr>)"
        using r rat False tv by (simp add: source_state_def Let_def renames_def rob_lookup_entry [OF sh er(1)])
      obtain u where u: "(?e, Some u) \<in> set (path s c)" "isa_result u = Some (isa_regs t r)"
        using ahead False by auto
      have "re_value ?e = isa_regs t r" if "re_ready ?e"
      proof -
        have "entry_ok ?e u" by (rule entries_okD [OF ok u(1)])
        moreover have "re_op ?e \<noteq> OP_HALT"
          using assms(1) er by (auto simp: queues_ok_def list_all_iff entry_wf_def writing_op_def)
        ultimately have "isa_result u = Some (re_value ?e)"
          using that er(2) by (auto simp: entry_ok_def entry_done_def)
        then show ?thesis using u(2) by simp
      qed
      moreover have "pending (path s c) (re_tag ?e) (isa_regs t r)" if "\<not> re_ready ?e"
        using that u by (auto simp: pending_def)
      ultimately show ?thesis
        using r tv by (simp add: src source_right_def source_default_def)
    qed
  qed
  show "\<exists>e \<in> set (rob_entries c). re_ready e \<and> re_tag e = ss_producer (source_state c r)"
    if p: "ss_producer_ready (source_state c r)"
  proof -
    have "r \<noteq> 0" and "tag_valid (rat_lookup (rename_table c) r)"
      using p by (auto simp: source_state_def source_default_def Let_def split: if_splits)
    then have w: "?w \<noteq> []" using rat by (auto simp: renames_def)
    have er: "last ?w \<in> set (rob_entries c)" using writer_in [OF w] by simp
    have "re_ready (last ?w) \<and> re_tag (last ?w) = ss_producer (source_state c r)"
      using p rat w rob_entry_facts(2) [OF sh er] rob_lookup_entry [OF sh er] \<open>r \<noteq> 0\<close>
      by (auto simp: source_state_def source_default_def Let_def renames_def split: if_splits)
    then show ?thesis using er by blast
  qed
qed

lemma resolved_operand:
  assumes "queues_ok c" and "flight_right s c" and "state_is s c"
    and "final (Some s) (rob_entries c) = Some t" and "unat r < 32"
  shows "operand_for (pending (mpath s c)) (isa_regs t r)
     (resolve_register r (source_state c r) (co_broadcast (bus c)))"
proof -
  have sh: "shapes c" using assms(1) by (simp add: queues_ok_def)
  note src = source_state_right [OF assms]
  let ?m = "co_broadcast (bus c)"
  show ?thesis
  proof (rule resolve_right [OF src(1) broadcast_right_bus [OF assms(1,2)]])
    assume m: "msg_valid ?m" "msg_tag ?m = ss_producer (source_state c r)"
      and p: "ss_producer_ready (source_state c r)"
    have f: "fu_valid (completion c)" using m(1) by (simp add: bus_is_completion(1) [OF sh])
    obtain e where e: "e \<in> set (rob_entries c)" "re_ready e" "re_tag e = ss_producer (source_state c r)"
      using src(2) [OF p] by blast
    obtain x where x: "x \<in> set (rob_entries c)" "re_tag x = fu_tag (completion c)" "\<not> re_ready x"
      using f by (auto intro: completion_entry [OF assms(1,2)])
    have "re_tag x = re_tag e" using x(2) e(3) m(2) f by (simp add: bus_is_completion(1) [OF sh])
    then show "msg_value ?m = isa_regs t r" using same_tag [OF sh x(1) e(1)] x(3) e(2) by simp
  next
    fix tag v assume p: "pending (path s c) tag v"
      and n: "\<not> (msg_valid ?m \<and> tag_valid tag \<and> msg_tag ?m = tag)"
    have "tag_valid tag" using p rob_entry_facts(2) [OF sh path_entry] by (auto simp: pending_def)
    then show "pending (mpath s c) tag v"
      using n by (intro pending_marked [OF assms(1,2) p]) (auto simp: bus_is_completion(1) [OF sh])
  qed
qed

lemma selected_operand:
  assumes "operand_for R (isa_regs t r) opd"
  shows "operand_for R (source_value src (isa_regs t r) imm pc) (select_operand src opd imm pc)"
  using assms
  by (cases src) (simp_all add: source_value_def select_operand_def operand_for_def ready_operand_def)

lemma issued_operands:
  assumes "queues_ok c" and "flight_right s c" and "state_is s c" and "fetch_right s c"
    and "issuing c = Some w" and "final (Some s) (rob_entries c) = Some t"
  shows "operand_for (pending (mpath s c)) (isa_rs1 (decode w) t) (rs1_operand (issue_in c w))"
    and "operand_for (pending (mpath s c)) (isa_rs2 (decode w) t) (rs2_operand (issue_in c w))"
  using resolved_operand [OF assms(1-3,6)] decode_wfD(2,3) [of w]
  by (simp_all add: rs1_operand_def rs2_operand_def issue_in_simps isa_rs1_def isa_rs2_def)

end
