(* ===== verification/CoreFlight.thy ===== *)
theory CoreFlight
  imports CoreIssue
begin

text \<open>Everything in flight after a cycle is right for the machine state after the commit.\<close>

section \<open>The path after a cycle\<close>

definition going_on :: "isa_state \<Rightarrow> CPU \<Rightarrow> bool" where
  "going_on s c \<longleftrightarrow> related s c \<and> fetch_right s c \<and> \<not> commits_halt c
     \<and> (response_for_head c \<longrightarrow> rsp_success (response c))"

lemma going_onD:
  assumes "going_on s c"
  shows "queues_ok c" "flight_right s c" "traffic_ok c" "state_is s c" "memory_is s c"
    "fetch_right s c" "\<not> commits_halt c" "shapes c" "sent_answered c"
    "response_for_head c \<Longrightarrow> rsp_success (response c)"
  using assms sent_answered [of c]
  by (simp_all add: going_on_def related_def state_is_def queues_ok_def)

lemma issued_tag: "e \<in> set (issued_entries c) \<Longrightarrow> re_tag e = next_tag (rob c)"
  by (auto simp: issued_entries_def issue_in_simps split: option.splits)

lemma next_tag_fresh:
  assumes "shapes c" and "e \<in> set (rob_entries c)" and "\<not> rob_full (rob c)"
  shows "re_tag e \<noteq> next_tag (rob c)"
proof -
  note inv = shapesD(1) [OF assms(1)]
  obtain k where k: "k < rob_count (rob c)" "e = rob_entries c ! k"
    using assms(2) by (auto simp: in_set_conv_nth)
  have n: "rob_count (rob c) < 32"
    using assms(3) rob_invarD(4) [OF inv] by (auto simp: rob_full_def rob_kCapacity_def)
  have "tag_index (re_tag e) = of_nat ((rob_head (rob c) + k) mod 32)"
    using rob_list_nth(2) [OF inv, of k] k by simp
  moreover have "tag_index (next_tag (rob c)) = of_nat (rob_tail (rob c))"
    using assms(3) by (simp add: next_tag_def)
  moreover have "(rob_head (rob c) + k) mod 32 \<noteq> rob_tail (rob c)"
    using k(1) n rob_invarD(5) [OF inv] ring_index_inj [of "rob_head (rob c)" k 32 "rob_count (rob c)"]
    by auto
  ultimately show ?thesis
    using of_nat_index_inj [of "(rob_head (rob c) + k) mod 32" "rob_tail (rob c)"] rob_invarD(5) [OF inv]
    by auto
qed

lemma kept_in_marked: "e \<in> set (kept_entries c) \<Longrightarrow> e \<in> marked c ` set (rob_entries c)"
  by (cases "rob_entries c") (auto simp: kept_entries_def split: if_splits)

lemma next_path:
  assumes "going_on s c"
  shows "path (commit_state s c) (next_cpu c) =
      annot (Some (commit_state s c)) (kept_entries c)
      @ annot (final (Some (commit_state s c)) (kept_entries c)) (issued_entries c)"
  by (simp add: next_rob(3) [OF going_onD(8) [OF assms]] annot_append_list)

lemma next_path_old:
  assumes "going_on s c" and "\<not> flushing c"
    and "(e, g) \<in> set (path (commit_state s c) (next_cpu c))" and "re_tag e \<noteq> next_tag (rob c)"
  shows "(e, g) \<in> set (mpath s c)"
proof -
  note k = kept_path(1) [OF going_onD(2,7) [OF assms(1)] assms(2)]
  have "e \<notin> set (issued_entries c)" using assms(4) issued_tag by auto
  then have "(e, g) \<in> set (annot (Some (commit_state s c)) (kept_entries c))"
    using assms(3) annot_entry by (auto simp: next_path [OF assms(1)])
  then show ?thesis unfolding k by (auto split: if_splits dest: list.set_sel(2) [rotated])
     (metis list.sel(2) list.set_sel(2))
qed

lemma next_path_new:
  assumes "going_on s c" and "\<not> flushing c"
    and "(e, Some t) \<in> set (path (commit_state s c) (next_cpu c))" and "re_tag e = next_tag (rob c)"
    and "issuing c \<noteq> None"
  shows "final (Some s) (rob_entries c) = Some t"
    and "\<exists>w. issuing c = Some w \<and> e = issue_rob_entry (issue_in c w)"
proof -
  note g = going_onD [OF assms(1)]
  obtain w where w: "issuing c = Some w" using assms(5) by auto
  have "e \<notin> set (kept_entries c)"
  proof
    assume "e \<in> set (kept_entries c)"
    then obtain x where "x \<in> set (rob_entries c)" "e = marked c x" using kept_in_marked [of e c] by auto
    then show False using next_tag_fresh [OF g(8), of x] issuingD(4) [OF w] assms(4) by simp
  qed
  then have "(e, Some t) \<in> set (annot (final (Some s) (rob_entries c)) [issue_rob_entry (issue_in c w)])"
    using assms(3) annot_entry kept_path(2) [OF g(2,7) assms(2)]
    by (auto simp: next_path [OF assms(1)] issued_entries_def w)
  then show "final (Some s) (rob_entries c) = Some t"
    "\<exists>w. issuing c = Some w \<and> e = issue_rob_entry (issue_in c w)"
    using w by auto
qed

lemma next_pending:
  assumes "going_on s c" and "\<not> flushing c" and "pending (mpath s c) tag v"
  shows "pending (path (commit_state s c) (next_cpu c)) tag v"
proof -
  note g = going_onD [OF assms(1)]
  obtain e t where e: "(e, Some t) \<in> set (mpath s c)" "re_tag e = tag" "\<not> re_ready e"
      "isa_result t = Some v"
    using assms(3) by (auto simp: pending_def)
  have "(e, Some t) \<in> set (if head_commits (rob c) then tl (mpath s c) else mpath s c)"
  proof (cases "head_commits (rob c)")
    case True
    then obtain h es where l: "rob_entries c = h # es" "re_ready h"
      by (cases "rob_entries c") (auto simp: head_commits_def)
    have "marked c h = h" using l by (intro ready_unmarked [OF g(1,2)]) simp_all
    then show ?thesis using e(1,3) True l by auto
  qed (use e in simp)
  then have "(e, Some t) \<in> set (path (commit_state s c) (next_cpu c))"
    unfolding next_path [OF assms(1)] kept_path(1) [OF g(2,7) assms(2)] by simp
  then show ?thesis using e by (auto simp: pending_def)
qed

lemma operand_next:
  assumes "going_on s c" and "\<not> flushing c" and "operand_for (pending (mpath s c)) v opd"
  shows "operand_for (pending (path (commit_state s c) (next_cpu c))) v opd"
  using assms(3) next_pending [OF assms(1,2)] by (auto simp: operand_for_def)

lemma on_path_next:
  assumes "going_on s c" and "\<not> flushing c" and "tag \<noteq> next_tag (rob c)"
    and "on_path (mpath s c) tag P" and "\<And>e t d. P e t d \<Longrightarrow> Q e t d"
  shows "on_path (path (commit_state s c) (next_cpu c)) tag Q"
  using next_path_old [OF assms(1,2)] assms(3-5) unfolding on_path_def by metis

section \<open>Old tags\<close>

text \<open>Nothing in flight has the tag of the instruction that is being issued.\<close>

lemma tag_in_use:
  assumes "queues_ok c" and "e \<in> set (rob_entries c)" and "re_tag e = tag" and "issuing c \<noteq> None"
  shows "tag \<noteq> next_tag (rob c)"
  using assms next_tag_fresh [of c e] issuingD(4) by (auto simp: queues_ok_def)

lemma rs_tag:
  assumes "queues_ok c" and "x \<in># rs_bag (reservation_station c)"
  shows "\<exists>e \<in> set (rob_entries c). re_tag e = rse_destination x \<and> unit_waiting e"
  by (rule unit_tag_entry [of "rs_bag (reservation_station c)" "unit_result c"])
     (use assms in \<open>auto simp: queues_ok_def\<close>)

lemma unit_result_tag:
  assumes "queues_ok c" and "fu_valid (unit_result c)"
  shows "\<exists>e \<in> set (rob_entries c). re_tag e = fu_tag (unit_result c) \<and> unit_waiting e"
  by (rule unit_tag_entry [of "rs_bag (reservation_station c)" "unit_result c"])
     (use assms in \<open>auto simp: queues_ok_def\<close>)

lemma loaded_tag:
  assumes "queues_ok c" and "fu_valid (loaded c)"
  shows "\<exists>e \<in> set (rob_entries c). re_tag e = fu_tag (loaded c) \<and> memory_waiting e"
  by (rule memory_tag_entry [of "loaded c" "lsq_entries c"])
     (use assms in \<open>auto simp: queues_ok_def\<close>)

lemma next_tag_unused:
  assumes "queues_ok c" and "e \<in> set (rob_entries c)" and "re_tag e = next_tag (rob c)"
  shows "issuing c = None"
proof (cases "issuing c")
  case (Some w)
  then show ?thesis using tag_in_use [OF assms] by simp
qed simp

text \<open>Without an issue no entry has the next tag either.\<close>

lemma next_path_in_marked:
  assumes "going_on s c" and "\<not> flushing c" and "issuing c = None"
    and "(e, g) \<in> set (path (commit_state s c) (next_cpu c))"
  shows "(e, g) \<in> set (mpath s c)"
proof -
  note k = kept_path(1) [OF going_onD(2,7) [OF assms(1)] assms(2)]
  have "(e, g) \<in> set (annot (Some (commit_state s c)) (kept_entries c))"
    using assms(3,4) by (simp add: next_path [OF assms(1)] issued_entries_def)
  then show ?thesis unfolding k by (auto split: if_splits)
     (metis list.sel(2) list.set_sel(2))
qed

lemma on_path_used:
  assumes "going_on s c" and "\<not> flushing c" and "\<exists>e \<in> set (rob_entries c). re_tag e = tag"
    and "on_path (mpath s c) tag P" and "\<And>e t d. P e t d \<Longrightarrow> Q e t d"
  shows "on_path (path (commit_state s c) (next_cpu c)) tag Q"
proof (cases "issuing c")
  case None
  then show ?thesis
    using next_path_in_marked [OF assms(1,2) None] assms(4,5) unfolding on_path_def by metis
next
  case (Some w)
  then have "tag \<noteq> next_tag (rob c)"
    using assms(3) tag_in_use [OF going_onD(1) [OF assms(1)]] by auto
  then show ?thesis by (rule on_path_next [OF assms(1,2) _ assms(4,5)])
qed

lemma next_entry_tag:
  assumes "going_on s c" and "e \<in> set (rob_entries (next_cpu c))"
    and "x \<in> set (rob_entries c)" and "re_tag x = re_tag e"
  shows "re_op e = re_op x"
proof -
  note g = going_onD [OF assms(1)]
  have "e \<notin> set (issued_entries c)"
  proof
    assume e: "e \<in> set (issued_entries c)"
    then have "re_tag x = next_tag (rob c)" using issued_tag [OF e] assms(4) by simp
    moreover have "issuing c \<noteq> None" using e by (cases "issuing c") (simp_all add: issued_entries_def)
    ultimately show False using next_tag_unused [OF g(1) assms(3)] by simp
  qed
  then have "e \<in> set (kept_entries c)"
    using assms(2) unfolding next_rob(3) [OF g(8)] by simp
  then obtain y where y: "y \<in> set (rob_entries c)" "e = marked c y" using kept_in_marked [of e c] by blast
  then have "y = x" using same_tag [OF g(8) y(1) assms(3)] assms(4) by simp
  then show ?thesis using y by simp
qed

section \<open>Everything in flight\<close>

lemma next_entries_ok:
  assumes "going_on s c"
  shows "entries_ok (path (commit_state s c) (next_cpu c))"
proof (cases "flushing c")
  case True
  then show ?thesis
    using flush_final(1,2) [OF going_onD(2,7) [OF assms] True]
    by (simp add: next_path [OF assms] issued_entries_def entries_ok_def)
next
  case False
  note g = going_onD [OF assms]
  show ?thesis
    unfolding entries_ok_def
  proof (clarify)
    fix e t assume e: "(e, Some t) \<in> set (path (commit_state s c) (next_cpu c))"
    show "entry_ok e t"
    proof (cases "issuing c \<noteq> None \<and> re_tag e = next_tag (rob c)")
      case True
      then obtain w where "issuing c = Some w" "e = issue_rob_entry (issue_in c w)"
          "final (Some s) (rob_entries c) = Some t"
        using next_path_new [OF assms False e] by blast
      then show ?thesis using issued_entry_ok [OF g(4,6)] by simp
    next
      case no: False
      then have "(e, Some t) \<in> set (mpath s c)"
        using next_path_old [OF assms False e] next_path_in_marked [OF assms False _ e] by blast
      then show ?thesis using marked_entries_ok [OF g(1-4)] entries_okD by blast
    qed
  qed
qed

lemma rs_right_next:
  assumes "going_on s c" and "\<not> flushing c" and "rs_right (mpath s c) x"
    and "\<exists>e \<in> set (rob_entries c). re_tag e = rse_destination x"
  shows "rs_right (path (commit_state s c) (next_cpu c)) x"
  unfolding rs_right_def
proof
  show "unit_op (rse_op x)" using assms(3) by (simp add: rs_right_def)
  show "on_path (path (commit_state s c) (next_cpu c)) (rse_destination x) (\<lambda>e t d.
     rse_op x = di_op d \<and> rse_immediate x = di_immediate d \<and> rse_pc x = isa_pc t
     \<and> operand_for (pending (path (commit_state s c) (next_cpu c))) (lhs_value d t) (rse_lhs x)
     \<and> operand_for (pending (path (commit_state s c) (next_cpu c))) (rhs_value d t) (rse_rhs x))"
    by (rule on_path_used [OF assms(1,2,4) conjunct2 [OF assms(3) [unfolded rs_right_def]]])
       (elim conjE, intro conjI impI operand_next [OF assms(1,2)], simp_all)
qed

lemma unit_right_next:
  assumes "going_on s c" and "\<not> flushing c" and "unit_right (mpath s c) f"
    and "fu_valid f \<Longrightarrow> \<exists>e \<in> set (rob_entries c). re_tag e = fu_tag f"
  shows "unit_right (path (commit_state s c) (next_cpu c)) f"
  unfolding unit_right_def
proof
  assume v: "fu_valid f"
  then have "on_path (mpath s c) (fu_tag f) (\<lambda>e t d. unit_op (di_op d) \<and> f = expected_result d t (fu_tag f))"
    using assms(3) by (simp add: unit_right_def)
  then show "on_path (path (commit_state s c) (next_cpu c)) (fu_tag f)
      (\<lambda>e t d. unit_op (di_op d) \<and> f = expected_result d t (fu_tag f))"
    by (rule on_path_used [OF assms(1,2) assms(4) [OF v]])
qed

lemma load_right_next:
  assumes "going_on s c" and "\<not> flushing c" and "load_right (mpath s c) f"
    and "fu_valid f \<Longrightarrow> \<exists>e \<in> set (rob_entries c). re_tag e = fu_tag f"
  shows "load_right (path (commit_state s c) (next_cpu c)) f"
proof -
  have "load_op (re_op e)" if v: "fu_valid f" and e: "e \<in> set (rob_entries (next_cpu c))" "re_tag e = fu_tag f" for e
  proof -
    obtain x where x: "x \<in> set (rob_entries c)" "re_tag x = fu_tag f" using assms(4) v by blast
    have "re_op e = re_op x" using next_entry_tag [OF assms(1) e(1) x(1)] x(2) e(2) by simp
    moreover have "load_op (re_op x)"
      using assms(3) v x by (auto simp: load_right_def)
    ultimately show ?thesis by simp
  qed
  moreover have "on_path (path (commit_state s c) (next_cpu c)) (fu_tag f) (\<lambda>e t d.
      isa_load (di_op d) (isa_mem t) (isa_address d t) = Some (fu_value f))" if v: "fu_valid f"
    using assms(3) v
    by (intro on_path_used [OF assms(1,2) assms(4) [OF v], where P = "\<lambda>e t d.
      isa_load (di_op d) (isa_mem t) (isa_address d t) = Some (fu_value f)"]) (simp_all add: load_right_def)
  ultimately show ?thesis
    using assms(3) by (simp add: load_right_def)
qed

lemma access_right_next:
  assumes "going_on s c" and "\<not> flushing c" and "access_right (mpath s c) q"
    and "\<exists>e \<in> set (rob_entries c). re_tag e = le_destination q"
  shows "access_right (path (commit_state s c) (next_cpu c)) q"
proof -
  have "re_op e = le_op q" if e: "e \<in> set (rob_entries (next_cpu c))" "re_tag e = le_destination q" for e
  proof -
    obtain x where x: "x \<in> set (rob_entries c)" "re_tag x = le_destination q" using assms(4) by blast
    have "re_op e = re_op x" using next_entry_tag [OF assms(1) e(1) x(1)] x(2) e(2) by simp
    moreover have "re_op x = le_op q"
      using assms(3) x by (auto simp: access_right_def)
    ultimately show ?thesis by simp
  qed
  moreover have "on_path (path (commit_state s c) (next_cpu c)) (le_destination q) (\<lambda>e t d.
      le_op q = di_op d \<and> le_immediate q = di_immediate d
      \<and> operand_for (pending (path (commit_state s c) (next_cpu c))) (isa_rs1 d t) (le_base q)
      \<and> (le_type q = STORE \<longrightarrow>
          operand_for (pending (path (commit_state s c) (next_cpu c))) (isa_rs2 d t) (le_store_data q)))"
    by (rule on_path_used [OF assms(1,2,4) conjunct2 [OF conjunct2 [OF assms(3) [unfolded access_right_def]]]])
       (elim conjE, intro conjI impI operand_next [OF assms(1,2)], simp_all)
  ultimately show ?thesis
    using assms(3) by (simp add: access_right_def)
qed

lemma access_right_address:
  "access_right A q \<Longrightarrow> access_right A (update_address q)"
  by (auto simp: access_right_def access_wf_def update_address_def)

text \<open>The new entries.\<close>

lemma issued_rs_right:
  assumes "going_on s c" and "\<not> flushing c" and "x \<in># issued_rs c"
  shows "rs_right (path (commit_state s c) (next_cpu c)) x"
proof -
  note g = going_onD [OF assms(1)]
  obtain w where w: "issuing c = Some w" "needs_rs (decode w)"
      "x = issue_rs_entry (issue_in c w) (rs1_operand (issue_in c w)) (rs2_operand (issue_in c w))"
    using assms(3) by (auto simp: issued_rs_def split: option.splits if_splits)
  have x: "rse_op x = di_op (decode w)" "rse_immediate x = di_immediate (decode w)"
      "rse_pc x = current_pc c" "rse_destination x = next_tag (rob c)"
      "rse_lhs x = select_operand (di_lhs_source (decode w)) (rs1_operand (issue_in c w))
         (di_immediate (decode w)) (current_pc c)"
      "rse_rhs x = select_operand (di_rhs_source (decode w)) (rs2_operand (issue_in c w))
         (di_immediate (decode w)) (current_pc c)"
    by (simp_all add: w(3) issue_rs_entry_def Let_def issue_in_simps)
  have op: "unit_op (di_op (decode w))"
    using w(2) issuingD(5) [OF w(1)] decode_wfD(4,5) [of w]
    by (auto simp: needs_rs_def needs_lsq_def unit_op_def)
  have "\<exists>d. here t = Some d \<and> rse_op x = di_op d \<and> rse_immediate x = di_immediate d \<and> rse_pc x = isa_pc t
     \<and> operand_for (pending (path (commit_state s c) (next_cpu c))) (lhs_value d t) (rse_lhs x)
     \<and> operand_for (pending (path (commit_state s c) (next_cpu c))) (rhs_value d t) (rse_rhs x)"
    if e: "(e, Some t) \<in> set (path (commit_state s c) (next_cpu c))" "re_tag e = rse_destination x" for e t
  proof -
    have f: "final (Some s) (rob_entries c) = Some t"
      using next_path_new(1) [OF assms(1,2) e(1)] e(2) w(1) x(4) by simp
    note h = issued_here [OF g(4,6) w(1) f]
    note o = issued_operands [OF g(1,2,4,6) w(1) f, THEN operand_next [OF assms(1,2)]]
    show ?thesis
      using h o selected_operand [of _ t "di_rs1 (decode w)"] selected_operand [of _ t "di_rs2 (decode w)"]
      by (intro exI [of _ "decode w"]) (simp add: x lhs_value_def rhs_value_def isa_rs1_def isa_rs2_def)
  qed
  then show ?thesis using op x(1) by (simp add: rs_right_def on_path_def)
qed

lemma issued_lsq_right:
  assumes "going_on s c" and "\<not> flushing c" and "q \<in> set (issued_lsq c)"
  shows "access_right (path (commit_state s c) (next_cpu c)) q"
proof -
  note g = going_onD [OF assms(1)]
  obtain w where w: "issuing c = Some w" "needs_lsq (decode w)"
      "q = issue_lsq_entry (issue_in c w) (rs1_operand (issue_in c w)) (rs2_operand (issue_in c w))"
    using assms(3) by (cases "issuing c") (auto simp: issued_lsq_def split: if_splits)
  have q: "le_op q = di_op (decode w)" "le_immediate q = di_immediate (decode w)"
      "le_destination q = next_tag (rob c)" "le_base q = rs1_operand (issue_in c w)"
      "le_type q = (if di_is_load (decode w) then LOAD else STORE)"
      "di_is_store (decode w) \<Longrightarrow> le_store_data q = rs2_operand (issue_in c w)"
      "\<not> le_address_ready q"
    by (simp_all add: w(3) issue_lsq_entry_def Let_def issue_in_simps)
  have wf: "access_wf q"
    using w(2) decode_wfD(4,5) [of w] q by (auto simp: access_wf_def needs_lsq_def)
  have ty: "le_type q = STORE \<Longrightarrow> di_is_store (decode w)"
    using w(2) q(5) by (auto simp: needs_lsq_def split: if_splits)
  have "re_op e = le_op q" if e: "e \<in> set (rob_entries (next_cpu c))" "re_tag e = le_destination q" for e
  proof -
    have "e \<notin> set (kept_entries c)"
    proof
      assume "e \<in> set (kept_entries c)"
      then obtain y where "y \<in> set (rob_entries c)" "e = marked c y" using kept_in_marked [of e c] by auto
      then show False using next_tag_unused [OF g(1), of y] e(2) q(3) w(1) by simp
    qed
    then have "e = issue_rob_entry (issue_in c w)"
      using e(1) w(1) by (simp add: next_rob(3) [OF g(8)] issued_entries_def)
    then show ?thesis by (simp add: q)
  qed
  moreover have "\<exists>d. here t = Some d \<and> le_op q = di_op d \<and> le_immediate q = di_immediate d
     \<and> operand_for (pending (path (commit_state s c) (next_cpu c))) (isa_rs1 d t) (le_base q)
     \<and> (le_type q = STORE \<longrightarrow>
          operand_for (pending (path (commit_state s c) (next_cpu c))) (isa_rs2 d t) (le_store_data q))"
    if e: "(e, Some t) \<in> set (path (commit_state s c) (next_cpu c))" "re_tag e = le_destination q" for e t
  proof -
    have f: "final (Some s) (rob_entries c) = Some t"
      using next_path_new(1) [OF assms(1,2) e(1)] e(2) w(1) q(3) by simp
    note h = issued_here [OF g(4,6) w(1) f]
    note o = issued_operands [OF g(1,2,4,6) w(1) f, THEN operand_next [OF assms(1,2)]]
    show ?thesis
      using h o q(6) [OF ty] by (intro exI [of _ "decode w"]) (simp add: q)
  qed
  ultimately show ?thesis using wf by (simp add: access_right_def on_path_def)
qed

section \<open>Together\<close>

lemma kept_lsq_access:
  assumes "going_on s c" and "\<not> flushing c" and "q \<in> set (kept_lsq c)"
  shows "access_right (mpath s c) q" "\<exists>e \<in> set (rob_entries c). re_tag e = le_destination q"
proof -
  note g = going_onD [OF assms(1)]
  let ?w = "lsq_wake_entry (co_broadcast (bus c))"
  have "\<exists>x \<in> set (lsq_entries c). q = ?w x \<or> q = (?w x)\<lparr>le_request_sent := True\<rparr>"
    using assms(3) assms(2)
    by (cases "lsq_entries c")
       (auto simp: kept_lsq_def Let_def head_sends_def head_finishes_def response_for_head_def split: if_splits)
  then obtain x where x: "x \<in> set (lsq_entries c)" "q = ?w x \<or> q = (?w x)\<lparr>le_request_sent := True\<rparr>"
    by blast
  have "access_right (path s c) x" using g(2) x(1) by (simp add: flight_right_def)
  moreover have "le_valid x" by (rule lsq_list_valid [OF shapesD(2) [OF g(8)] x(1)])
  ultimately have "access_right (mpath s c) (?w x)" by (rule access_right_marked [OF g(1,2)])
  then show "access_right (mpath s c) q"
    using x(2) by (auto simp: access_right_def access_wf_def)
  show "\<exists>e \<in> set (rob_entries c). re_tag e = le_destination q"
    using access_tag [OF g(1) x(1)] x(2) by auto
qed

lemma kept_rs_right:
  assumes "going_on s c" and "\<not> flushing c" and "x \<in># kept_rs c"
  shows "rs_right (mpath s c) x" "\<exists>e \<in> set (rob_entries c). re_tag e = rse_destination x"
proof -
  note g = going_onD [OF assms(1)]
  obtain y where y: "y \<in># rs_bag (reservation_station c)" "x = rs_wake_entry (co_broadcast (bus c)) y"
    using assms(2,3) by (auto simp: kept_rs_def dest: in_diffD)
  have "rs_right (path s c) y" using g(2) y(1) by (simp add: flight_right_def)
  then show "rs_right (mpath s c) x"
    unfolding y(2) by (rule rs_right_marked [OF g(1,2) _ rs_entry_busy [OF y(1)]])
  show "\<exists>e \<in> set (rob_entries c). re_tag e = rse_destination x"
    using rs_tag [OF g(1) y(1)] y(2) by auto
qed

lemma next_unit_tag:
  assumes "going_on s c" and "fu_valid (unit_result (next_cpu c))"
  shows "\<exists>e \<in> set (rob_entries c). re_tag e = fu_tag (unit_result (next_cpu c))"
proof -
  note g = going_onD [OF assms(1)]
  have d: "\<exists>e \<in> set (rob_entries c). re_tag e = fu_tag (execute_instruction (make_execute x))"
    if "dispatched c = Some x" for x
    using dispatched_result(2) [OF g(1,2) that] dispatchedD(1) [OF g(8) that] rs_tag [OF g(1)] by auto
  then show ?thesis
    using assms(2) unit_result_tag [OF g(1)]
    by (auto simp: next_unit(1) [OF g(8)] fu_result_default_def split: option.splits if_splits)
qed

lemma next_loaded_tag:
  assumes "going_on s c" and "fu_valid (loaded (next_cpu c))"
  shows "\<exists>e \<in> set (rob_entries c). re_tag e = fu_tag (loaded (next_cpu c))"
proof -
  note g = going_onD [OF assms(1)]
  have "\<exists>e \<in> set (rob_entries c). re_tag e = le_destination (hd (lsq_entries c))" if "head_finishes c"
    using hd_access [OF g(1)] that by (auto simp: head_finishes_def response_for_head_def)
  then show ?thesis
    using assms(2) loaded_tag [OF g(1)]
    by (auto simp: next_lsq(3) [OF g(8,9)] fu_result_default_def split: if_splits)
qed

lemma next_flight_right:
  assumes "going_on s c"
  shows "flight_right (commit_state s c) (next_cpu c)"
proof (cases "flushing c")
  case True
  note g = going_onD [OF assms]
  have "path (commit_state s c) (next_cpu c) = []"
    using flush_final(1,2) [OF g(2,7) True] by (simp add: next_path [OF assms] issued_entries_def)
  moreover have "rs_bag (reservation_station (next_cpu c)) = {#}"
    using flush_final(2) [OF g(2,7) True] True
    by (simp add: next_rs(2) [OF g(8)] kept_rs_def issued_rs_def)
  moreover have "lsq_entries (next_cpu c) = []"
    using flush_final(2) [OF g(2,7) True] True
    by (simp add: next_lsq(2) [OF g(8,9)] kept_lsq_def issued_lsq_def)
  moreover have "\<not> fu_valid (unit_result (next_cpu c))" "\<not> fu_valid (loaded (next_cpu c))"
    using True by (simp_all add: next_unit(1) [OF g(8)] next_lsq(3) [OF g(8,9)] fu_result_default_def)
  ultimately show ?thesis
    by (simp add: flight_right_def entries_ok_def unit_right_def load_right_def)
next
  case False
  note g = going_onD [OF assms]
  have rs: "rs_right (path (commit_state s c) (next_cpu c)) x"
    if "x \<in># rs_bag (reservation_station (next_cpu c))" for x
    using that rs_right_next [OF assms False kept_rs_right [OF assms False]] issued_rs_right [OF assms False]
    by (auto simp: next_rs(2) [OF g(8)])
  have q: "access_right (path (commit_state s c) (next_cpu c)) q" if "q \<in> set (lsq_entries (next_cpu c))" for q
    using that access_right_next [OF assms False kept_lsq_access [OF assms False]]
      issued_lsq_right [OF assms False]
    by (auto simp: next_lsq(2) [OF g(8,9)] intro: access_right_address)
  show ?thesis
    using next_entries_ok [OF assms] rs q
      unit_right_next [OF assms False next_unit_right [OF g(1,2) False] next_unit_tag [OF assms]]
      load_right_next [OF assms False next_load_right [OF g(1-3,5) False] next_loaded_tag [OF assms]]
    by (simp add: flight_right_def)
qed

end
