(* ===== verification/CoreQueues.thy ===== *)
theory CoreQueues
  imports CoreFlight
begin

text \<open>
  The queues after a cycle: well formed entries, finished stores only at the head, every unfinished
  instruction waiting in exactly one place, and a rename table that names the youngest writer.
\<close>

section \<open>Well formed entries\<close>

lemma shapes_nextD:
  assumes "going_on s c"
  shows "shapes (next_cpu c)"
  by (rule shapes_next [OF going_onD(8,9) [OF assms]])

lemma entry_wf_marked:
  assumes "shapes c" and "e \<in> set (rob_entries c)" and "entry_wf e"
  shows "entry_wf (marked c e)"
  using assms(3) marked_ready [OF assms(1,2)] by (simp add: entry_wf_def)

lemma next_entries_wf:
  assumes "going_on s c"
  shows "list_all entry_wf (rob_entries (next_cpu c))"
proof -
  note g = going_onD [OF assms]
  have kept: "entry_wf e" if k: "e \<in> set (kept_entries c)" for e
  proof -
    obtain x where x: "x \<in> set (rob_entries c)" "e = marked c x" using kept_in_marked [OF k] by blast
    have "entry_wf x" using g(1) x(1) by (simp add: queues_ok_def list_all_iff)
    then show ?thesis unfolding x(2) by (rule entry_wf_marked [OF g(8) x(1)])
  qed
  have "entry_wf e" if "e \<in> set (issued_entries c)" for e
    using that issued_entry_wf by (cases "issuing c") (auto simp: issued_entries_def)
  then show ?thesis using kept by (auto simp: next_rob(3) [OF g(8)] list_all_iff)
qed

section \<open>Finished stores\<close>

lemma tl_tag:
  assumes "shapes c" and "e \<in> set (tl (rob_entries c))"
  shows "re_tag e \<noteq> re_tag (hd (rob_entries c))"
  using distinct_tags [OF shapesD(1) [OF assms(1)]] assms(2)
  by (cases "rob_entries c") (fastforce simp: image_iff)+

text \<open>Only the head can be a store that finishes.\<close>

lemma marked_store_tl:
  assumes "going_on s c" and "e \<in> set (tl (rob_entries c))" and "re_is_store e"
  shows "\<not> re_ready (marked c e)"
proof
  note g = going_onD [OF assms(1)]
  have er: "e \<in> set (rob_entries c)" using assms(2) by (cases "rob_entries c") auto
  have wf: "entry_wf e" using g(1) er by (simp add: queues_ok_def list_all_iff)
  assume "re_ready (marked c e)"
  moreover have "\<not> re_ready e" using g(1) assms(2,3) by (simp add: queues_ok_def stores_wait_def)
  ultimately consider (bus) "fu_valid (completion c)" "re_tag e = fu_tag (completion c)"
    | (store) "head_finishes c" "le_type (hd (lsq_entries c)) = STORE" "re_tag e = le_destination (hd (lsq_entries c))"
    using marked_ready [OF g(8) er] by blast
  then show False
  proof cases
    case bus
    obtain x where x: "x \<in> set (rob_entries c)" "re_tag x = fu_tag (completion c)" "\<not> store_op (re_op x)"
      using bus(1) by (auto intro: completion_entry [OF g(1,2)])
    then have "x = e" using bus(2) by (intro same_tag [OF g(8) x(1) er]) simp
    then show False using x(3) wf assms(3) by (simp add: entry_wf_def)
  next
    case store
    have "in_phase Answered c"
      using store(1) by (intro response_phase [OF g(1,3)]) (simp add: head_finishes_def)
    then have "head_sent (lsq_entries c)" by simp
    then have "re_tag (hd (rob_entries c)) = re_tag e"
      using sent_store_head(2) [OF g(1-3) _ store(2)] store(3) by simp
    then show False using tl_tag [OF g(8) assms(2)] by simp
  qed
qed

lemma kept_tl: "e \<in> set (tl (kept_entries c)) \<Longrightarrow> e \<in> marked c ` set (tl (rob_entries c))"
  by (cases "rob_entries c"; cases "tl (rob_entries c)") (auto simp: kept_entries_def split: if_splits)

lemma next_stores_wait:
  assumes "going_on s c"
  shows "stores_wait (rob_entries (next_cpu c))"
  unfolding stores_wait_def
proof (intro ballI impI)
  note g = going_onD [OF assms]
  fix e assume e: "e \<in> set (tl (rob_entries (next_cpu c)))" and st: "re_is_store e"
  have "e \<in> set (tl (kept_entries c)) \<or> e \<in> set (issued_entries c)"
    using e unfolding next_rob(3) [OF g(8)] by (cases "kept_entries c"; cases "issued_entries c") auto
  then show "\<not> re_ready e"
  proof
    assume "e \<in> set (tl (kept_entries c))"
    then obtain x where "x \<in> set (tl (rob_entries c))" "e = marked c x" using kept_tl [of e c] by auto
    then show ?thesis using marked_store_tl [OF assms, of x] st by simp
  next
    assume "e \<in> set (issued_entries c)"
    then obtain w where w: "issuing c = Some w" "e = issue_rob_entry (issue_in c w)"
      by (cases "issuing c") (auto simp: issued_entries_def)
    then have "entry_wf e" using issued_entry_wf [OF w(1)] by simp
    then have "re_op e \<noteq> OP_HALT" using st op_class_cases(2) by (auto simp: entry_wf_def)
    then show ?thesis using w(2) by simp
  qed
qed

section \<open>Renaming\<close>

lemma writers_append: "writers r (xs @ ys) = writers r xs @ writers r ys"
  by (simp add: writers_def)

lemma renames_append:
  "renames (xs @ ys) r = (if writers r ys = [] then renames xs r else re_tag (last (writers r ys)))"
  by (simp add: renames_def writers_append)

lemma writers_map:
  assumes "\<And>e. re_writes_rd (f e) = re_writes_rd e" and "\<And>e. re_rd (f e) = re_rd e"
  shows "writers r (map f es) = map f (writers r es)"
  by (simp add: writers_def filter_map comp_def assms)

lemma renames_marked: "renames (map (marked c) es) r = renames es r"
  by (simp add: renames_def writers_map last_map)

text \<open>Dropping the oldest entry forgets its register exactly if it is the youngest writer.\<close>

lemma renames_tl:
  assumes "distinct (map re_tag es)" and "es \<noteq> []"
  shows "renames (tl es) r = (if re_writes_rd (hd es) \<and> r = re_rd (hd es) \<and> renames es r = re_tag (hd es)
     then no_tag else renames es r)"
proof -
  obtain h xs where es: "es = h # xs" using assms(2) by (cases es) auto
  have "re_tag (last (writers r xs)) \<noteq> re_tag h" if "writers r xs \<noteq> []"
    using writer_in [OF that] assms(1) by (fastforce simp: es image_iff)
  then show ?thesis by (auto simp: es renames_def writers_def)
qed

lemma next_renames_right:
  assumes "going_on s c"
  shows "rat_lookup (rename_table (next_cpu c)) r = renames (rob_entries (next_cpu c)) r"
proof (cases "flushing c")
  case True
  note g = going_onD [OF assms]
  have "rob_entries (next_cpu c) = []"
    using flush_final(1,2) [OF g(2,7) True] by (simp add: next_rob(3) [OF g(8)] issued_entries_def)
  then show ?thesis using True by (simp add: next_renames(2) [OF g(8)] renames_def writers_def)
next
  case False
  note g = going_onD [OF assms]
  have now: "rat_lookup (rename_table c) r = renames (rob_entries c) r"
    using g(1) by (simp add: queues_ok_def)
  have drop: "renames (tl (rob_entries c)) r = (if re_writes_rd (hd (rob_entries c)) \<and> r = re_rd (hd (rob_entries c))
      \<and> renames (rob_entries c) r = re_tag (hd (rob_entries c)) then no_tag else renames (rob_entries c) r)"
    if "head_commits (rob c)"
    using that by (intro renames_tl distinct_tags [OF shapesD(1) [OF g(8)]]) (simp add: head_commits_def)
  have kept: "renames (kept_entries c) r =
      (if head_commits (rob c) \<and> re_writes_rd (hd (rob_entries c)) \<and> r = re_rd (hd (rob_entries c))
           \<and> rat_lookup (rename_table c) r = re_tag (hd (rob_entries c))
         then no_tag else rat_lookup (rename_table c) r)"
    using drop False
    by (cases "head_commits (rob c)") (auto simp: kept_entries_def now renames_marked simp flip: map_tl)
  have new: "writers r (issued_entries c) \<noteq> [] \<longleftrightarrow> issued_entries c \<noteq> [] \<and> re_writes_rd (hd (issued_entries c))
           \<and> r = re_rd (hd (issued_entries c)) \<and> valid_register r"
    "writers r (issued_entries c) \<noteq> [] \<Longrightarrow> last (writers r (issued_entries c)) = hd (issued_entries c)"
  proof -
    have v: "re_writes_rd (issue_rob_entry (issue_in c w)) \<Longrightarrow> valid_register (re_rd (issue_rob_entry (issue_in c w)))"
      if "issuing c = Some w" for w
      using issued_entry_wf [OF that] by (simp only: entry_wf_def)
    show "writers r (issued_entries c) \<noteq> [] \<longleftrightarrow> issued_entries c \<noteq> [] \<and> re_writes_rd (hd (issued_entries c))
           \<and> r = re_rd (hd (issued_entries c)) \<and> valid_register r"
      using v by (cases "issuing c") (auto simp: issued_entries_def writers_def simp del: issue_entry_simps)
    show "writers r (issued_entries c) \<noteq> [] \<Longrightarrow> last (writers r (issued_entries c)) = hd (issued_entries c)"
      by (cases "issuing c") (auto simp: issued_entries_def writers_def split: if_splits)
  qed
  show ?thesis
    unfolding next_rob(3) [OF g(8)] renames_append next_renames(2) [OF g(8)] kept new(1) [symmetric]
    using False new(2) by (cases "writers r (issued_entries c) = []") (simp_all only: if_True if_False HOL.simp_thms)
qed

section \<open>Where results are awaited\<close>

text \<open>Removing one tag from the entries that wait.\<close>

lemma filter_tag:
  assumes "\<And>e. e \<in> set es \<Longrightarrow> Q e \<longleftrightarrow> P e \<and> \<not> (b \<and> f e = t)"
  shows "map f (filter Q es) = filter (\<lambda>x. \<not> (b \<and> x = t)) (map f (filter P es))"
  using assms by (induction es) auto

lemma distinct_filter_out:
  "distinct xs \<Longrightarrow> mset (filter (\<lambda>x. \<not> (b \<and> x = t)) xs) = mset xs - (if b then {#t#} else {#})"
  by (induction xs) (auto simp: filter_id_conv)

lemma integer_granted_valid:
  assumes "shapes c" and "co_integer_granted (bus c)"
  shows "fu_valid (unit_result c)" "completion c = unit_result c" "\<not> co_load_granted (bus c)"
  using shapesD(1) [OF assms(1)] assms(2)
  by (cases rule: bus_cases; simp add: cdb_outputs_default_def valid_candidate_def completion_def split: if_splits)+

lemma load_granted_valid:
  assumes "shapes c" and "co_load_granted (bus c)"
  shows "fu_valid (loaded c)" "completion c = loaded c" "\<not> co_integer_granted (bus c)"
  using shapesD(1) [OF assms(1)] assms(2)
  by (cases rule: bus_cases; simp add: cdb_outputs_default_def valid_candidate_def completion_def split: if_splits)+

text \<open>An entry that the integer unit must finish stays so until the unit gets the bus.\<close>

lemma unit_waiting_marked:
  assumes "going_on s c" and "e \<in> set (rob_entries c)"
  shows "unit_waiting (marked c e) \<longleftrightarrow>
    unit_waiting e \<and> \<not> (co_integer_granted (bus c) \<and> re_tag e = fu_tag (unit_result c))"
proof (cases "unit_waiting e")
  case True
  note g = going_onD [OF assms(1)]
  have "entry_wf e" using g(1) assms(2) by (simp add: queues_ok_def list_all_iff)
  then have ns: "\<not> re_is_store e" using True by (simp add: entry_wf_def unit_waiting_def unit_op_def)
  have "fu_valid (completion c) \<and> re_tag e = fu_tag (completion c) \<longleftrightarrow>
      co_integer_granted (bus c) \<and> re_tag e = fu_tag (unit_result c)"
  proof
    assume v: "fu_valid (completion c) \<and> re_tag e = fu_tag (completion c)"
    obtain x where x: "x \<in> set (rob_entries c)" "re_tag x = fu_tag (completion c)"
        "unit_waiting x \<and> completion c = unit_result c \<and> co_integer_granted (bus c) \<and> \<not> co_load_granted (bus c)
     \<or> memory_waiting x \<and> completion c = loaded c \<and> co_load_granted (bus c) \<and> \<not> co_integer_granted (bus c)"
      using v by (auto intro: completion_entry [OF g(1,2)])
    have "x = e" using x(2) v by (intro same_tag [OF g(8) x(1) assms(2)]) simp
    then show "co_integer_granted (bus c) \<and> re_tag e = fu_tag (unit_result c)"
      using x(3) v True by (auto simp: unit_waiting_def memory_waiting_def)
  next
    assume "co_integer_granted (bus c) \<and> re_tag e = fu_tag (unit_result c)"
    then show "fu_valid (completion c) \<and> re_tag e = fu_tag (completion c)"
      using integer_granted_valid [OF g(8)] by simp
  qed
  then show ?thesis
    using True ns marked_ready [OF g(8) assms(2)] by (auto simp: unit_waiting_def)
next
  case False
  then show ?thesis
    using marked_ready [OF going_onD(8) [OF assms(1)] assms(2)] by (auto simp: unit_waiting_def)
qed

lemma kept_waiting:
  assumes "going_on s c" and "\<not> flushing c" and "\<And>e. P e \<Longrightarrow> \<not> re_ready e"
  shows "filter P (kept_entries c) = filter P (map (marked c) (rob_entries c))"
proof (cases "head_commits (rob c)")
  case True
  note g = going_onD [OF assms(1)]
  obtain h es where l: "rob_entries c = h # es" "re_ready h"
    using True by (cases "rob_entries c") (auto simp: head_commits_def)
  have "re_ready (marked c h)" using l marked_ready [OF g(8), of h] by simp
  then show ?thesis using assms(2,3) True l by (auto simp: kept_entries_def)
qed (use assms(2) in \<open>simp add: kept_entries_def\<close>)

lemma distinct_waiting: "shapes c \<Longrightarrow> distinct (map re_tag (filter P (rob_entries c)))"
  using distinct_tags [OF shapesD(1)] by (rule distinct_map_filter)

lemma filter_marked:
  assumes "\<And>e. e \<in> set es \<Longrightarrow> P (marked c e) \<longleftrightarrow> Q e"
  shows "map re_tag (filter P (map (marked c) es)) = map re_tag (filter Q es)"
  using assms by (induction es) auto

lemma issued_waiting:
  "map re_tag (filter unit_waiting (issued_entries c)) = (case issuing c of None \<Rightarrow> []
     | Some w \<Rightarrow> if needs_rs (decode w) then [next_tag (rob c)] else [])"
  "map re_tag (filter memory_waiting (issued_entries c)) = map le_destination (issued_lsq c)"
proof -
  have op: "needs_rs (decode w) \<longleftrightarrow> unit_op (di_op (decode w))"
      "needs_lsq (decode w) \<longleftrightarrow> \<not> unit_op (di_op (decode w)) \<and> di_op (decode w) \<noteq> OP_HALT"
    if "issuing c = Some w" for w
    using issuingD(5) [OF that] decode_wfD(4,5) [of w] op_class_cases(1,2) [of "di_op (decode w)"]
    by (auto simp: needs_rs_def needs_lsq_def unit_op_def)
  show "map re_tag (filter unit_waiting (issued_entries c)) = (case issuing c of None \<Rightarrow> []
     | Some w \<Rightarrow> if needs_rs (decode w) then [next_tag (rob c)] else [])"
    using op by (cases "issuing c")
      (auto simp: issued_entries_def unit_waiting_def unit_op_def issue_in_simps)
  show "map re_tag (filter memory_waiting (issued_entries c)) = map le_destination (issued_lsq c)"
    using op by (cases "issuing c")
      (auto simp: issued_entries_def issued_lsq_def memory_waiting_def unit_op_def issue_in_simps
         issue_lsq_entry_def Let_def)
qed

lemma next_unit_accounted:
  assumes "going_on s c"
  shows "unit_accounted (rs_bag (reservation_station (next_cpu c))) (unit_result (next_cpu c))
     (rob_entries (next_cpu c))"
proof (cases "flushing c")
  case True
  note g = going_onD [OF assms]
  note f = flush_final(1,2) [OF g(2,7) True]
  show ?thesis
    using f True
    by (simp add: unit_accounted_def next_rob(3) [OF g(8)] next_rs(2) [OF g(8)] next_unit(1) [OF g(8)]
        issued_entries_def issued_rs_def kept_rs_def result_tags_def fu_result_default_def)
next
  case False
  note g = going_onD [OF assms]
  let ?W = "map re_tag (filter unit_waiting (rob_entries c))"
  let ?B = "image_mset rse_destination (rs_bag (reservation_station c))"
  have now: "?B + mset (result_tags (unit_result c)) = mset ?W"
    using g(1) by (simp add: queues_ok_def unit_accounted_def)
  have "map re_tag (filter unit_waiting (kept_entries c))
      = map re_tag (filter unit_waiting (map (marked c) (rob_entries c)))"
    by (subst kept_waiting [OF assms False]) (simp_all add: unit_waiting_def)
  also have "\<dots> = filter (\<lambda>x. \<not> (co_integer_granted (bus c) \<and> x = fu_tag (unit_result c))) ?W"
    by (subst filter_tag [symmetric], rule refl, rule filter_marked, rule unit_waiting_marked [OF assms])
  finally have kept: "mset (map re_tag (filter unit_waiting (kept_entries c)))
      = mset ?W - (if co_integer_granted (bus c) then {#fu_tag (unit_result c)#} else {#})"
    using distinct_filter_out [OF distinct_waiting [OF g(8)]] by simp
  have dest: "rse_destination (rs_wake_entry m x) = rse_destination x" for m x
    by (simp add: rs_wake_entry_def)
  have new: "image_mset rse_destination (issued_rs c) = mset (map re_tag (filter unit_waiting (issued_entries c)))"
    unfolding issued_waiting(1)
    by (cases "issuing c") (simp_all add: issued_rs_def issue_rs_entry_def Let_def issue_in_simps)
  have rest: "mset ?W - (if co_integer_granted (bus c) then {#fu_tag (unit_result c)#} else {#})
      = ?B + (if co_integer_granted (bus c) then {#} else mset (result_tags (unit_result c)))"
    unfolding now [symmetric] using integer_granted_valid(1) [OF g(8)] by (simp add: result_tags_def)
  have old: "image_mset rse_destination (kept_rs c) + mset (result_tags (unit_result (next_cpu c)))
      = mset ?W - (if co_integer_granted (bus c) then {#fu_tag (unit_result c)#} else {#})"
  proof (cases "dispatched c")
    case None
    then show ?thesis
      unfolding rest using integer_granted_valid(1) [OF g(8)] False
      by (simp add: kept_rs_def option_mset_def next_unit(1) [OF g(8)] dest image_mset.compositionality comp_def
          result_tags_def fu_result_default_def)
  next
    case (Some x)
    have x: "x \<in># rs_bag (reservation_station c)" by (rule dispatchedD(1) [OF g(8) Some])
    have "image_mset rse_destination (kept_rs c) = ?B - {#rse_destination x#}"
      using x False Some
      by (simp add: kept_rs_def option_mset_def dest image_mset.compositionality comp_def image_mset_Diff)
    moreover have "mset (result_tags (unit_result (next_cpu c))) = {#rse_destination x#}"
      using dispatched_result(1,2) [OF g(1,2) Some] False Some by (simp add: next_unit(1) [OF g(8)] result_tags_def)
    moreover have "rse_destination x \<in># ?B" using x by simp
    moreover have "co_integer_granted (bus c) \<or> result_tags (unit_result c) = []"
      using Some by (auto simp: dispatched_def unit_free_def result_tags_def split: if_splits)
    ultimately show ?thesis unfolding rest by auto
  qed
  show ?thesis
    unfolding unit_accounted_def next_rob(3) [OF g(8)] next_rs(2) [OF g(8)]
    using old kept new by simp
qed

text \<open>A memory access waits until its load result gets the bus or its store is answered.\<close>

definition store_finishes :: "CPU \<Rightarrow> bool" where
  "store_finishes c \<longleftrightarrow> head_finishes c \<and> le_type (hd (lsq_entries c)) = STORE"

lemma finishes_sent:
  assumes "going_on s c" and "head_finishes c"
  shows "in_phase Answered c" "head_sent (lsq_entries c)" "lsq_entries c \<noteq> []"
    "le_type (hd (lsq_entries c)) = LOAD \<Longrightarrow> \<not> fu_valid (loaded c)"
proof -
  note g = going_onD [OF assms(1)]
  show a: "in_phase Answered c"
    using assms(2) by (intro response_phase [OF g(1,3)]) (simp add: head_finishes_def)
  then show h: "head_sent (lsq_entries c)" by simp
  then show "lsq_entries c \<noteq> []" by (simp add: head_sent_def)
  show "le_type (hd (lsq_entries c)) = LOAD \<Longrightarrow> \<not> fu_valid (loaded c)"
    using g(3) h by (simp add: traffic_ok_def sent_ok_def Let_def)
qed

lemma result_tags_default [simp]: "result_tags fu_result_default = []"
  by (simp add: result_tags_def fu_result_default_def)

lemma memory_waiting_marked:
  assumes "going_on s c" and "e \<in> set (rob_entries c)"
  shows "memory_waiting (marked c e) \<longleftrightarrow>
    (memory_waiting e \<and> \<not> (co_load_granted (bus c) \<and> re_tag e = fu_tag (loaded c)))
    \<and> \<not> (store_finishes c \<and> re_tag e = le_destination (hd (lsq_entries c)))"
proof (cases "memory_waiting e")
  case True
  note g = going_onD [OF assms(1)]
  have "fu_valid (completion c) \<and> re_tag e = fu_tag (completion c) \<longleftrightarrow>
      co_load_granted (bus c) \<and> re_tag e = fu_tag (loaded c)"
  proof
    assume v: "fu_valid (completion c) \<and> re_tag e = fu_tag (completion c)"
    obtain x where x: "x \<in> set (rob_entries c)" "re_tag x = fu_tag (completion c)"
        "unit_waiting x \<and> completion c = unit_result c \<and> co_integer_granted (bus c) \<and> \<not> co_load_granted (bus c)
     \<or> memory_waiting x \<and> completion c = loaded c \<and> co_load_granted (bus c) \<and> \<not> co_integer_granted (bus c)"
      using v by (auto intro: completion_entry [OF g(1,2)])
    have "x = e" using x(2) v by (intro same_tag [OF g(8) x(1) assms(2)]) simp
    then show "co_load_granted (bus c) \<and> re_tag e = fu_tag (loaded c)"
      using x(3) v True by (auto simp: unit_waiting_def memory_waiting_def)
  next
    assume "co_load_granted (bus c) \<and> re_tag e = fu_tag (loaded c)"
    then show "fu_valid (completion c) \<and> re_tag e = fu_tag (completion c)"
      using load_granted_valid [OF g(8)] by simp
  qed
  moreover have "re_is_store e" if st: "store_finishes c" "re_tag e = le_destination (hd (lsq_entries c))"
  proof -
    have f: "head_finishes c" "le_type (hd (lsq_entries c)) = STORE" using st(1) by (simp_all add: store_finishes_def)
    note h = sent_store_head [OF g(1-3) finishes_sent(2) [OF assms(1) f(1)] f(2)]
    have "hd (rob_entries c) = e" using h(1,2) st(2) by (intro same_tag [OF g(8) _ assms(2)]) simp_all
    then show ?thesis using h(5) by simp
  qed
  ultimately show ?thesis
    using True marked_ready [OF g(8) assms(2)] by (auto simp: memory_waiting_def store_finishes_def)
next
  case False
  then show ?thesis
    using marked_ready [OF going_onD(8) [OF assms(1)] assms(2)] by (auto simp: memory_waiting_def)
qed

lemma kept_lsq_tags:
  assumes "\<not> flushing c"
  shows "map le_destination (kept_lsq c) =
    (if head_finishes c then tl (map le_destination (lsq_entries c)) else map le_destination (lsq_entries c))"
  using assms
  by (cases "lsq_entries c") (simp_all add: kept_lsq_def Let_def comp_def head_sends_def)

lemma next_memory_accounted:
  assumes "going_on s c"
  shows "memory_accounted (loaded (next_cpu c)) (lsq_entries (next_cpu c)) (rob_entries (next_cpu c))"
proof (cases "flushing c")
  case True
  note g = going_onD [OF assms]
  note f = flush_final(1,2) [OF g(2,7) True]
  show ?thesis
    using f True
    by (simp add: memory_accounted_def next_rob(3) [OF g(8)] next_lsq(2,3) [OF g(8,9)]
        issued_entries_def issued_lsq_def kept_lsq_def result_tags_def fu_result_default_def)
next
  case False
  note g = going_onD [OF assms]
  let ?W = "map re_tag (filter memory_waiting (rob_entries c))"
  let ?D = "map le_destination (lsq_entries c)"
  have now: "result_tags (loaded c) @ ?D = ?W"
    using g(1) by (simp add: queues_ok_def memory_accounted_def)
  have d: "distinct (result_tags (loaded c) @ ?D)" unfolding now by (rule distinct_waiting [OF g(8)])
  have "map re_tag (filter memory_waiting (kept_entries c))
      = map re_tag (filter memory_waiting (map (marked c) (rob_entries c)))"
    by (subst kept_waiting [OF assms False]) (simp_all add: memory_waiting_def)
  also have "\<dots> = filter (\<lambda>x. \<not> (store_finishes c \<and> x = le_destination (hd (lsq_entries c))))
      (filter (\<lambda>x. \<not> (co_load_granted (bus c) \<and> x = fu_tag (loaded c))) ?W)"
    by (subst filter_tag [symmetric], rule refl, subst filter_tag [symmetric], rule refl, rule filter_marked,
        rule memory_waiting_marked [OF assms])
  finally have kept: "map re_tag (filter memory_waiting (kept_entries c)) = \<dots>" .
  have loads: "filter (\<lambda>x. \<not> (co_load_granted (bus c) \<and> x = fu_tag (loaded c))) ?W
      = (if co_load_granted (bus c) then [] else result_tags (loaded c)) @ ?D"
    unfolding now [symmetric] using d load_granted_valid(1) [OF g(8)]
    by (auto simp: result_tags_def filter_id_conv)
  have "map re_tag (filter memory_waiting (kept_entries c))
      = result_tags (loaded (next_cpu c)) @ map le_destination (kept_lsq c)"
  proof (cases "head_finishes c")
    case True
    note f = finishes_sent [OF assms True]
    obtain q Q where q: "lsq_entries c = q # Q" using f(3) by (cases "lsq_entries c") auto
    show ?thesis
    proof (cases "le_type q")
      case LOAD
      have nv: "\<not> fu_valid (loaded c)" using f(4) LOAD q by simp
      then have ng: "\<not> co_load_granted (bus c)" using load_granted_valid(1) [OF g(8)] by blast
      show ?thesis
        unfolding kept loads kept_lsq_tags [OF False]
        using True False LOAD nv ng
        by (simp add: q store_finishes_def next_lsq(3) [OF g(8,9)] result_tags_def)
    next
      case STORE
      have "filter (\<lambda>x. x \<noteq> le_destination q) (result_tags (loaded c)) = result_tags (loaded c)"
        using d by (subst filter_id_conv) (auto simp: q)
      moreover have "filter (\<lambda>x. x \<noteq> le_destination q) (map le_destination Q) = map le_destination Q"
        using d by (subst filter_id_conv) (fastforce simp: q image_iff)
      ultimately show ?thesis
        unfolding kept loads kept_lsq_tags [OF False]
        using True False STORE load_granted_valid(1) [OF g(8)]
        by (simp add: q store_finishes_def next_lsq(3) [OF g(8,9)])
    qed
  next
    case no: False
    show ?thesis
      unfolding kept loads kept_lsq_tags [OF False]
      using no False load_granted_valid(1) [OF g(8)]
      by (simp add: store_finishes_def next_lsq(3) [OF g(8,9)] result_tags_def fu_result_default_def)
  qed
  then show ?thesis
    by (simp add: memory_accounted_def next_rob(3) [OF g(8)] next_lsq(2) [OF g(8,9)] issued_waiting(2)
        comp_def)
qed

section \<open>Together\<close>

lemma next_queues_ok:
  assumes "going_on s c"
  shows "queues_ok (next_cpu c)"
  using shapes_nextD [OF assms] next_entries_wf [OF assms] next_stores_wait [OF assms]
    next_unit_accounted [OF assms] next_memory_accounted [OF assms] next_renames_right [OF assms]
  by (simp add: queues_ok_def)

end
