(* ===== verification/CoreTraffic.thy ===== *)
theory CoreTraffic
  imports CoreQueues
begin

text \<open>
  The memory port: at most one access is under way, it belongs to the head of the load/store queue
  or to a load whose instruction was squashed, and the answer of a squashed load is never taken for
  the answer to a later one.
\<close>

section \<open>The queue's requests\<close>

lemma answer_sends_nothing:
  assumes "in_phase Answered c"
  shows "\<not> head_sends c"
  using assms by (simp add: head_sends_def head_sent_def)

lemma busy_sends_nothing: "tx_valid (transaction c) \<Longrightarrow> \<not> head_sends c"
  by (simp add: head_sends_def data_port_available_def)

lemma silent_no_answer: "\<not> rsp_valid (response c) \<Longrightarrow> \<not> head_finishes c"
  by (simp add: head_finishes_def response_for_head_def matching_response_def)

lemma unwanted_no_answer:
  assumes "queues_ok c" and "traffic_ok c" and "all_unsent (lsq_entries c)"
  shows "\<not> head_finishes c"
proof
  assume f: "head_finishes c"
  have "in_phase Answered c"
    using f by (intro response_phase [OF assms(1,2)]) (simp add: head_finishes_def)
  then show False using assms(3) by (auto simp: head_sent_def all_unsent_def)
qed

text \<open>The entries of the queue after a cycle.\<close>

abbreviation woken :: "CPU \<Rightarrow> LSQEntry \<Rightarrow> LSQEntry" where
  "woken c q \<equiv> update_address (lsq_wake_entry (co_broadcast (bus c)) q)"

lemma next_queue:
  assumes "shapes c" and "sent_answered c" and "\<not> flushing c"
  shows "head_finishes c \<Longrightarrow> lsq_entries (next_cpu c)
      = map (woken c) (tl (lsq_entries c)) @ map update_address (issued_lsq c)"
    and "\<not> head_finishes c \<Longrightarrow> head_sends c \<Longrightarrow> lsq_entries (next_cpu c)
      = update_address ((lsq_wake_entry (co_broadcast (bus c)) (hd (lsq_entries c)))\<lparr>le_request_sent := True\<rparr>)
        # map (woken c) (tl (lsq_entries c)) @ map update_address (issued_lsq c)"
    and "\<not> head_finishes c \<Longrightarrow> \<not> head_sends c \<Longrightarrow> lsq_entries (next_cpu c)
      = map (woken c) (lsq_entries c) @ map update_address (issued_lsq c)"
proof -
  show "head_finishes c \<Longrightarrow> lsq_entries (next_cpu c)
      = map (woken c) (tl (lsq_entries c)) @ map update_address (issued_lsq c)"
    using assms(3) by (simp add: next_lsq(2) [OF assms(1,2)] kept_lsq_def Let_def comp_def flip: map_tl)
  show "\<not> head_finishes c \<Longrightarrow> head_sends c \<Longrightarrow> lsq_entries (next_cpu c)
      = update_address ((lsq_wake_entry (co_broadcast (bus c)) (hd (lsq_entries c)))\<lparr>le_request_sent := True\<rparr>)
        # map (woken c) (tl (lsq_entries c)) @ map update_address (issued_lsq c)" (is "_ \<Longrightarrow> _ \<Longrightarrow> ?sent")
  proof -
    assume f: "\<not> head_finishes c" "head_sends c"
    then have "lsq_entries c \<noteq> []" by (simp add: head_sends_def)
    then show ?sent
      using f assms(3)
      by (cases "lsq_entries c") (simp_all add: next_lsq(2) [OF assms(1,2)] kept_lsq_def Let_def comp_def)
  qed
  show "\<not> head_finishes c \<Longrightarrow> \<not> head_sends c \<Longrightarrow> lsq_entries (next_cpu c)
      = map (woken c) (lsq_entries c) @ map update_address (issued_lsq c)"
    using assms(3) by (simp add: next_lsq(2) [OF assms(1,2)] kept_lsq_def Let_def comp_def)
qed

lemma flush_queue:
  assumes "shapes c" and "sent_answered c" and "flushing c"
  shows "lsq_entries (next_cpu c) = []"
proof -
  have "issuing c = None" using assms(3) issuingD(2) [of c] by (cases "issuing c") auto
  then show ?thesis
    using assms(3) by (simp add: next_lsq(2) [OF assms(1,2)] kept_lsq_def issued_lsq_def)
qed

lemma issued_unsent: "all_unsent (map update_address (issued_lsq c))"
  by (cases "issuing c")
     (simp_all add: all_unsent_def issued_lsq_def issue_lsq_entry_def Let_def)

lemma all_unsent_append: "all_unsent (xs @ ys) \<longleftrightarrow> all_unsent xs \<and> all_unsent ys"
  by (auto simp: all_unsent_def)

lemma all_unsent_woken: "all_unsent (map (woken c) Q) \<longleftrightarrow> all_unsent Q"
  by (simp add: all_unsent_def)

lemma all_unsent_tl: "all_unsent Q \<Longrightarrow> all_unsent (tl Q)"
  by (cases Q) (simp_all add: all_unsent_def)

text \<open>A request that was sent does not change any more.\<close>

lemma request_stable:
  assumes "le_valid q" and "le_address_ready q" and "le_type q = STORE \<Longrightarrow> opd_ready (le_store_data q)"
  shows "make_memory_request (woken c q) = make_memory_request q"
    and "make_memory_request (update_address ((lsq_wake_entry m q)\<lparr>le_request_sent := True\<rparr>)) = make_memory_request q"
    and "le_address_ready (woken c q)" "le_address (woken c q) = le_address q"
    and "le_address_ready (update_address ((lsq_wake_entry m q)\<lparr>le_request_sent := True\<rparr>))"
    and "opd_ready (le_store_data q) \<Longrightarrow> opd_ready (le_store_data (woken c q))"
    and "opd_ready (le_store_data q) \<Longrightarrow>
      opd_ready (le_store_data (update_address ((lsq_wake_entry m q)\<lparr>le_request_sent := True\<rparr>)))"
proof -
  have u: "update_address (lsq_wake_entry m q) = lsq_wake_entry m q"
      "update_address ((lsq_wake_entry m q)\<lparr>le_request_sent := True\<rparr>) = (lsq_wake_entry m q)\<lparr>le_request_sent := True\<rparr>"
    for m using assms(2) by (simp_all add: update_address_def)
  have d: "opd_ready (le_store_data q) \<Longrightarrow> le_store_data (lsq_wake_entry m q) = le_store_data q" for m
    using assms(1) by (simp add: wake_entry_operands(2) lsq_operand.ready_stays)
  show "make_memory_request (woken c q) = make_memory_request q"
    "make_memory_request (update_address ((lsq_wake_entry m q)\<lparr>le_request_sent := True\<rparr>)) = make_memory_request q"
    using assms(3) d by (auto simp: u make_memory_request_def Let_def)
  show "le_address_ready (woken c q)" "le_address (woken c q) = le_address q"
    "le_address_ready (update_address ((lsq_wake_entry m q)\<lparr>le_request_sent := True\<rparr>))"
    using assms(2) by (simp_all add: u)
  show "opd_ready (le_store_data q) \<Longrightarrow> opd_ready (le_store_data (woken c q))"
    "opd_ready (le_store_data q) \<Longrightarrow>
      opd_ready (le_store_data (update_address ((lsq_wake_entry m q)\<lparr>le_request_sent := True\<rparr>)))"
    by (simp_all add: u d)
qed

section \<open>Stale tags\<close>

lemma next_rob_step: "shapes c \<Longrightarrow> \<exists>i. rob (next_cpu c) = rob_step i (rob c)"
  using next_rob(1) by blast

lemma soon_stale_next:
  assumes "shapes c" and "soon_stale (Suc n) t (rob c)"
  shows "soon_stale n t (rob (next_cpu c))"
proof -
  obtain d where d: "d + Suc n \<le> 4" "stale_tag d t (rob c)"
    using assms(2) by (auto simp: soon_stale_def)
  obtain i where i: "rob (next_cpu c) = rob_step i (rob c)" using next_rob_step [OF assms(1)] by blast
  have "stale_tag d t (rob (next_cpu c)) \<or> stale_tag (Suc d) t (rob (next_cpu c))"
    unfolding i using d by (intro stale_tag_step [OF shapesD(1) [OF assms(1)]]) simp_all
  then show ?thesis using d(1) unfolding soon_stale_def by (metis add_Suc_right add_Suc Suc_leD)
qed

lemma squashed_stale:
  assumes "shapes c" and "e \<in> set (rob_entries c)" and "rob_entries (next_cpu c) = []" and "n \<le> 4"
  shows "soon_stale n (re_tag e) (rob (next_cpu c))"
proof -
  obtain i where i: "rob (next_cpu c) = rob_step i (rob c)" using next_rob_step [OF assms(1)] by blast
  have "stale_tag 0 (re_tag e) (rob (next_cpu c))"
    unfolding i using assms(3)
    by (intro committed_tag_stale [OF shapesD(1) [OF assms(1)] assms(2)]) (simp add: i [symmetric])
  then show ?thesis using assms(4) by (auto simp: soon_stale_def intro: exI [of _ 0])
qed

section \<open>The phases\<close>

lemma head_request_facts:
  assumes "queues_ok c" and "head_sends c"
  shows "head_request c = make_memory_request (hd (lsq_entries c))" "rq_valid (head_request c)"
    "tag_valid (rq_tag (head_request c))" "lsq_entries c \<noteq> []" "le_valid (hd (lsq_entries c))"
    "le_address_ready (hd (lsq_entries c))"
    "le_type (hd (lsq_entries c)) = STORE \<Longrightarrow> opd_ready (le_store_data (hd (lsq_entries c)))"
proof -
  let ?q = "hd (lsq_entries c)"
  have sh: "shapes c" using assms(1) by (simp add: queues_ok_def)
  show ne: "lsq_entries c \<noteq> []" and "le_address_ready ?q"
    and "le_type ?q = STORE \<Longrightarrow> opd_ready (le_store_data ?q)"
    using assms(2) by (simp_all add: head_sends_def)
  show r: "head_request c = make_memory_request ?q" using assms(2) by (simp add: head_request_def)
  show "le_valid ?q" using ne by (intro lsq_list_valid [OF shapesD(2) [OF sh]]) simp
  obtain e where "e \<in> set (rob_entries c)" "re_tag e = le_destination ?q"
    using hd_access [OF assms(1) ne] by auto
  then have "tag_valid (le_destination ?q)" using rob_entry_facts(2) [OF sh, of e] by simp
  then show "rq_valid (head_request c)" "tag_valid (rq_tag (head_request c))"
    by (simp_all add: r make_memory_request_def Let_def)
qed

lemma no_request: "\<not> head_sends c \<Longrightarrow> \<not> rq_valid (head_request c)"
  by (simp add: head_request_def request_default_def)

text \<open>Without an access under way and without an answer.\<close>

lemma free_port_next:
  assumes "going_on s c" and "\<not> tx_valid (transaction c)" and "all_unsent (lsq_entries c) \<or> head_finishes c \<or> flushing c"
  shows "if head_sends c then in_phase Busy (next_cpu c) else in_phase Idle (next_cpu c)"
proof (cases "head_sends c")
  case True
  note g = going_onD [OF assms(1)]
  let ?q = "hd (lsq_entries c)"
  note r = head_request_facts [OF g(1) True]
  note m = memory_accepts(2,3) [OF assms(2) r(2,3), folded next_memory(1) [OF g(8)]]
  have nf: "\<not> flushing c" using True by (simp add: head_sends_def)
  have un: "all_unsent (lsq_entries c)"
  proof (rule disjE [OF assms(3)])
    assume "head_finishes c \<or> flushing c"
    then have "in_phase Answered c" using finishes_sent(1) [OF assms(1)] nf by blast
    then show ?thesis using answer_sends_nothing True by blast
  qed
  then have nfin: "\<not> head_finishes c" by (rule unwanted_no_answer [OF g(1,3)])
  note q = next_queue(2) [OF g(8,9) nf nfin True]
  have "head_sent (lsq_entries (next_cpu c))"
    using all_unsent_tl [OF un] issued_unsent
    by (simp add: q head_sent_def all_unsent_append all_unsent_woken)
  moreover have "make_memory_request (hd (lsq_entries (next_cpu c))) = make_memory_request ?q"
    by (simp add: q request_stable(2) [OF r(5,6,7)])
  ultimately show ?thesis
    using True m r(1) by (simp add: kDataLatency_def response_default_def)
next
  case False
  note g = going_onD [OF assms(1)]
  note m = memory_idle(2,3) [OF assms(2) no_request [OF False], folded next_memory(1) [OF g(8)]]
  have "all_unsent (lsq_entries (next_cpu c))"
  proof (cases "flushing c")
    case True
    then show ?thesis by (simp add: flush_queue [OF g(8,9)] all_unsent_def)
  next
    case nf: False
    show ?thesis
    proof (cases "head_finishes c")
      case True
      then show ?thesis
        using finishes_sent(2) [OF assms(1) True] issued_unsent
        by (simp add: next_queue(1) [OF g(8,9) nf] all_unsent_append all_unsent_woken head_sent_def)
    next
      case nfin: False
      then have "all_unsent (lsq_entries c)" using assms(3) nf by simp
      then show ?thesis
        using issued_unsent by (simp add: next_queue(3) [OF g(8,9) nf nfin False] all_unsent_append all_unsent_woken)
    qed
  qed
  then show ?thesis
    using False m assms(2) by (simp add: response_default_def)
qed

text \<open>With an access under way.\<close>

lemma head_sent_next:
  assumes "going_on s c" and "\<not> flushing c" and "head_sent (lsq_entries c)" and "\<not> head_finishes c"
  shows "head_sent (lsq_entries (next_cpu c))"
    and "hd (lsq_entries (next_cpu c)) = woken c (hd (lsq_entries c))"
    and "make_memory_request (hd (lsq_entries (next_cpu c))) = make_memory_request (hd (lsq_entries c))"
    and "le_address_ready (hd (lsq_entries (next_cpu c)))"
    and "le_type (hd (lsq_entries c)) = STORE \<Longrightarrow> opd_ready (le_store_data (hd (lsq_entries (next_cpu c))))"
proof -
  note g = going_onD [OF assms(1)]
  let ?q = "hd (lsq_entries c)"
  have ns: "\<not> head_sends c" using assms(3) by (simp add: head_sends_def head_sent_def)
  have ne: "lsq_entries c \<noteq> []" using assms(3) by (simp add: head_sent_def)
  have v: "le_valid ?q" using ne by (intro lsq_list_valid [OF shapesD(2) [OF g(8)]]) simp
  have ok: "le_address_ready ?q" "le_type ?q = STORE \<Longrightarrow> opd_ready (le_store_data ?q)"
    using g(3) assms(3) by (simp_all add: traffic_ok_def sent_ok_def Let_def)
  note q = next_queue(3) [OF g(8,9) assms(2,4) ns]
  show h: "hd (lsq_entries (next_cpu c)) = woken c ?q" using ne by (simp add: q hd_map)
  have "tl (lsq_entries (next_cpu c)) = map (woken c) (tl (lsq_entries c)) @ map update_address (issued_lsq c)"
    using ne by (simp add: q map_tl)
  then show "head_sent (lsq_entries (next_cpu c))"
    using assms(3) issued_unsent ne h by (simp add: head_sent_def all_unsent_append all_unsent_woken q)
  show "make_memory_request (hd (lsq_entries (next_cpu c))) = make_memory_request ?q"
    "le_address_ready (hd (lsq_entries (next_cpu c)))"
    "le_type ?q = STORE \<Longrightarrow> opd_ready (le_store_data (hd (lsq_entries (next_cpu c))))"
    unfolding h using request_stable(1,3,6) [OF v ok] ok(2) by simp_all
qed

lemma request_fields:
  "rq_type (make_memory_request q) = le_type q" "rq_tag (make_memory_request q) = le_destination q"
  "rq_width (make_memory_request q) = memory_width (le_op q)"
  "rq_address (make_memory_request q) = le_address q"
  "le_type q = STORE \<Longrightarrow> rq_value (make_memory_request q) = opd_value (le_store_data q)"
  by (simp_all add: make_memory_request_def Let_def)

lemma flush_head_load:
  assumes "going_on s c" and "flushing c" and "head_sent (lsq_entries c)"
  shows "le_type (hd (lsq_entries c)) = LOAD"
proof (rule ccontr)
  note g = going_onD [OF assms(1)]
  assume "le_type (hd (lsq_entries c)) \<noteq> LOAD"
  then have "le_type (hd (lsq_entries c)) = STORE" by (cases "le_type (hd (lsq_entries c))") simp_all
  then have "memory_waiting (hd (rob_entries c))" by (rule sent_store_head(3) [OF g(1-3) assms(3)])
  then show False using assms(2) by (simp add: flushing_def head_commits_def memory_waiting_def)
qed

lemma flush_entries: "going_on s c \<Longrightarrow> flushing c \<Longrightarrow> rob_entries (next_cpu c) = []"
  using flush_final(1,2) [OF going_onD(2,7)] by (simp add: next_rob(3) [OF going_onD(8)] issued_entries_def)

text \<open>The memory port counts down whatever the rest of the core does.\<close>

lemma port_counts:
  assumes "shapes c" and "tx_valid (transaction c)" and "1 < tx_remaining_cycles (transaction c)"
  shows "tx_valid (transaction (next_cpu c))" "\<not> rsp_valid (response (next_cpu c))"
    "tx_remaining_cycles (transaction (next_cpu c)) = tx_remaining_cycles (transaction c) - 1"
    "tx_request (transaction (next_cpu c)) = tx_request (transaction c)"
    "core_memory (next_cpu c) = core_memory c"
  using memory_waits [OF assms(2,3), of "head_request c", folded next_memory(1) [OF assms(1)]] assms(2)
  by (simp_all add: response_default_def)

lemma port_answers:
  assumes "shapes c" and "tx_valid (transaction c)" and "tx_remaining_cycles (transaction c) \<le> 1"
  shows "\<not> tx_valid (transaction (next_cpu c))" "rsp_valid (response (next_cpu c))"
    "response (next_cpu c) = response_to (tx_request (transaction c)) (core_memory c)"
    "core_memory (next_cpu c) = memory_after (tx_request (transaction c)) (core_memory c)"
  using memory_completes [OF assms(2,3), of "head_request c", folded next_memory(1) [OF assms(1)]]
  by (simp_all add: transaction_default_def response_to_def)

lemma answer_fields:
  "rsp_tag (response_to r m) = rq_tag r" "rsp_is_store (response_to r m) = (rq_type r = STORE)"
  "rsp_success (response_to r m) = in_bounds (rq_address r) (width_in_bytes (rq_width r))"
  "rq_type r = LOAD \<Longrightarrow> rsp_value (response_to r m) = fst (read_data m (rq_address r) (rq_width r))"
  by (simp_all add: response_to_def)

lemma memory_after_load [simp]: "rq_type r = LOAD \<Longrightarrow> memory_after r m = m"
  by (simp add: memory_after_def)

lemma squashed_next:
  assumes "shapes c" and "tx_valid (transaction c)"
    and "1 \<le> tx_remaining_cycles (transaction c)" and "tx_remaining_cycles (transaction c) \<le> 3"
    and "all_unsent (lsq_entries (next_cpu c))" and "rq_type (tx_request (transaction c)) = LOAD"
    and "soon_stale (tx_remaining_cycles (transaction c) - 1) (rq_tag (tx_request (transaction c))) (rob (next_cpu c))"
  shows "in_phase Abandoned (next_cpu c) \<or> in_phase Unwanted (next_cpu c)"
proof (cases "1 < tx_remaining_cycles (transaction c)")
  case True
  then show ?thesis using port_counts [OF assms(1,2) True] assms(4-7) by auto
next
  case False
  then have "tx_remaining_cycles (transaction c) \<le> 1" by simp
  then show ?thesis
    using port_answers [OF assms(1,2)] assms(5-7) False by (simp add: answer_fields)
qed

lemma busy_next:
  assumes "going_on s c" and "in_phase Busy c" and "\<not> flushing c"
  shows "if 1 < tx_remaining_cycles (transaction c) then in_phase Busy (next_cpu c) else in_phase Answered (next_cpu c)"
proof -
  note g = going_onD [OF assms(1)]
  let ?q = "hd (lsq_entries c)" and ?q' = "hd (lsq_entries (next_cpu c))"
  have p: "tx_valid (transaction c)" "\<not> rsp_valid (response c)" "head_sent (lsq_entries c)"
      "tx_request (transaction c) = make_memory_request ?q" "tx_remaining_cycles (transaction c) \<le> 3"
    using assms(2) by simp_all
  note h = head_sent_next [OF assms(1,3) p(3) silent_no_answer [OF p(2)]]
  show ?thesis
  proof (cases "1 < tx_remaining_cycles (transaction c)")
    case True
    moreover have "1 \<le> tx_remaining_cycles (transaction c) - 1" "tx_remaining_cycles (transaction c) - 1 \<le> 3"
      using True p(5) by simp_all
    ultimately show ?thesis using port_counts [OF g(8) p(1) True] h(1,3) p(4) by simp
  next
    case False
    then have "tx_remaining_cycles (transaction c) \<le> 1" by simp
    note a = port_answers [OF g(8) p(1) this, unfolded p(4), folded h(3)]
    have "answers_head ?q' (core_memory (next_cpu c)) (response (next_cpu c))"
      using a(3,4) by (simp add: answers_head_def answer_fields request_fields)
    then show ?thesis using False a(1,2) h(1) by simp
  qed
qed

lemma next_phase:
  assumes "going_on s c"
  shows "\<exists>p. in_phase p (next_cpu c)"
proof -
  note g = going_onD [OF assms]
  have free: "\<exists>p. in_phase p (next_cpu c)"
    if "\<not> tx_valid (transaction c)" "all_unsent (lsq_entries c) \<or> head_finishes c \<or> flushing c"
    using free_port_next [OF assms that] by (metis (full_types))
  obtain p where p: "in_phase p c" using g(3) by (auto simp: traffic_ok_def)
  show ?thesis
  proof (cases p)
    case Idle
    then show ?thesis using p free by simp
  next
    case Unwanted
    then show ?thesis using p free by simp
  next
    case Answered
    then have "flushing c \<or> head_finishes c"
      using phase_response [OF g(1)] g(10) p by (auto simp: head_finishes_def)
    then show ?thesis using p free Answered by auto
  next
    case Busy
    show ?thesis
    proof (cases "flushing c")
      case False
      then show ?thesis using busy_next [OF assms _ False] p Busy by (metis (full_types))
    next
      case True
      have hs: "head_sent (lsq_entries c)" using p Busy by simp
      then have ne: "lsq_entries c \<noteq> []" by (simp add: head_sent_def)
      obtain e where e: "e \<in> set (rob_entries c)" "re_tag e = le_destination (hd (lsq_entries c))"
        using hd_access [OF g(1) ne] by auto
      have "tx_remaining_cycles (transaction c) - 1 \<le> 4" using p Busy by auto
      then have "in_phase Abandoned (next_cpu c) \<or> in_phase Unwanted (next_cpu c)"
        using p Busy flush_head_load [OF assms True hs]
          squashed_stale [OF g(8) e(1) flush_entries [OF assms True], of "tx_remaining_cycles (transaction c) - 1"] e(2)
        by (intro squashed_next [OF g(8)])
           (simp_all add: flush_queue [OF g(8,9) True] all_unsent_def request_fields)
      then show ?thesis by blast
    qed
  next
    case Abandoned
    have un: "all_unsent (lsq_entries (next_cpu c))"
    proof (cases "flushing c")
      case True
      then show ?thesis by (simp add: flush_queue [OF g(8,9)] all_unsent_def)
    next
      case False
      have "\<not> head_finishes c" "\<not> head_sends c"
        using p Abandoned silent_no_answer busy_sends_nothing by auto
      then show ?thesis
        using p Abandoned issued_unsent by (simp add: next_queue(3) [OF g(8,9) False] all_unsent_append all_unsent_woken)
    qed
    have "soon_stale (Suc (tx_remaining_cycles (transaction c) - 1)) (rq_tag (tx_request (transaction c))) (rob c)"
      using p Abandoned by simp
    then have "in_phase Abandoned (next_cpu c) \<or> in_phase Unwanted (next_cpu c)"
      using p Abandoned un soon_stale_next [OF g(8)] by (intro squashed_next [OF g(8)]) simp_all
    then show ?thesis by blast
  qed
qed

section \<open>What is guaranteed for a request that was sent\<close>

lemma unfinished_head_kept:
  assumes "going_on s c" and "\<not> flushing c" and "rob_entries c \<noteq> []" and "\<not> re_ready (hd (rob_entries c))"
  shows "rob_entries (next_cpu c) \<noteq> []" "hd (rob_entries (next_cpu c)) = marked c (hd (rob_entries c))"
proof -
  have "kept_entries c = map (marked c) (rob_entries c)"
    using assms(2,4) by (simp add: kept_entries_def head_commits_def)
  then show "rob_entries (next_cpu c) \<noteq> []" "hd (rob_entries (next_cpu c)) = marked c (hd (rob_entries c))"
    using assms(3) by (simp_all add: next_rob(3) [OF going_onD(8) [OF assms(1)]] hd_map)
qed

lemma next_sent_ok:
  assumes "going_on s c"
  shows "sent_ok (next_cpu c)"
  unfolding sent_ok_def
proof
  note g = going_onD [OF assms]
  let ?q = "hd (lsq_entries c)" and ?q' = "hd (lsq_entries (next_cpu c))"
  assume hs: "head_sent (lsq_entries (next_cpu c))"
  then have nu: "\<not> all_unsent (lsq_entries (next_cpu c))" by (auto simp: head_sent_def all_unsent_def)
  have nf: "\<not> flushing c" using nu flush_queue [OF g(8,9)] by (auto simp: all_unsent_def)
  have nfin: "\<not> head_finishes c"
  proof
    assume f: "head_finishes c"
    have "all_unsent (lsq_entries (next_cpu c))"
      using finishes_sent(2) [OF assms f] issued_unsent
      by (simp add: next_queue(1) [OF g(8,9) nf f] all_unsent_append all_unsent_woken head_sent_def)
    then show False using nu by simp
  qed
  have ld: "loaded (next_cpu c) = (if co_load_granted (bus c) \<and> fu_valid (loaded c) then fu_result_default else loaded c)"
    using nf nfin by (simp add: next_lsq(3) [OF g(8,9)])
  have default: "\<not> fu_valid fu_result_default" by (simp add: fu_result_default_def)
  have "le_address_ready ?q' \<and> (if le_type ?q' = LOAD then \<not> fu_valid (loaded (next_cpu c))
      else opd_ready (le_store_data ?q') \<and> rob_entries (next_cpu c) \<noteq> []
        \<and> re_tag (hd (rob_entries (next_cpu c))) = le_destination ?q')"
  proof (cases "head_sends c")
    case True
    note r = head_request_facts [OF g(1) True]
    note q = next_queue(2) [OF g(8,9) nf nfin True]
    have sends: "if le_type ?q = LOAD then \<not> fu_valid (loaded c) \<or> co_load_granted (bus c)
        else opd_ready (le_store_data ?q) \<and> store_waiting c \<and> re_tag (hd (rob_entries c)) = le_destination ?q"
      using True [unfolded head_sends_def] by (elim conjE)
    show ?thesis
    proof (cases "le_type ?q")
      case LOAD
      then show ?thesis
        using sends request_stable(5) [OF r(5,6,7)] default by (auto simp: q ld)
    next
      case STORE
      then have "rob_entries c \<noteq> []" "\<not> re_ready (hd (rob_entries c))"
        using sends by (simp_all add: store_waiting_def)
      then show ?thesis
        using sends STORE unfinished_head_kept [OF assms nf] request_stable(5,7) [OF r(5,6,7)] by (simp add: q)
    qed
  next
    case False
    have old: "head_sent (lsq_entries c)"
    proof -
      have "\<not> all_unsent (lsq_entries c)"
        using nu issued_unsent by (auto simp: next_queue(3) [OF g(8,9) nf nfin False] all_unsent_append all_unsent_woken)
      moreover obtain p where "in_phase p c" using g(3) by (auto simp: traffic_ok_def)
      ultimately show ?thesis by (cases p) auto
    qed
    note h = head_sent_next [OF assms nf old nfin]
    have ok: "if le_type ?q = LOAD then \<not> fu_valid (loaded c)
        else opd_ready (le_store_data ?q) \<and> rob_entries c \<noteq> [] \<and> re_tag (hd (rob_entries c)) = le_destination ?q"
      using g(3) old by (simp add: traffic_ok_def sent_ok_def Let_def)
    have ty: "le_type ?q' = le_type ?q" "le_destination ?q' = le_destination ?q" by (simp_all add: h(2))
    show ?thesis
    proof (cases "le_type ?q")
      case LOAD
      then show ?thesis using ok h(4) default by (simp add: ty ld)
    next
      case STORE
      have "\<not> re_ready (hd (rob_entries c))"
        using sent_store_head(3) [OF g(1-3) old STORE] by (simp add: memory_waiting_def)
      then show ?thesis
        using STORE ok h(4,5) unfinished_head_kept [OF assms nf] by (simp add: ty)
    qed
  qed
  then show "let q = ?q' in le_address_ready q \<and> (if le_type q = LOAD then \<not> fu_valid (loaded (next_cpu c))
      else opd_ready (le_store_data q) \<and> rob_entries (next_cpu c) \<noteq> []
        \<and> re_tag (hd (rob_entries (next_cpu c))) = le_destination q)"
    by (simp add: Let_def)
qed

lemma next_traffic_ok: "going_on s c \<Longrightarrow> traffic_ok (next_cpu c)"
  using next_phase next_sent_ok by (auto simp: traffic_ok_def)

end
