(* ===== verification/CoreState.thy ===== *)
theory CoreState
  imports CoreTraffic
begin

text \<open>The committed state after a cycle: registers, memory and the address of the next fetch.\<close>

section \<open>Registers and program counter\<close>

lemma next_registers_right:
  assumes "going_on s c" and "unat r < 32"
  shows "rf_read (register_file (next_cpu c)) r = isa_regs (commit_state s c) r"
proof -
  note g = going_onD [OF assms(1)]
  have now: "rf_read (register_file c) r = isa_regs s r" using g(4) assms(2) by (simp add: state_is_def)
  show ?thesis
  proof (cases "head_commits (rob c)")
    case False
    then show ?thesis using now by (simp add: next_registers(2) [OF g(8)] commit_state_def)
  next
    case True
    obtain d where d: "isa_step s = Step (commit_state s c)" "here s = Some d"
        "entry_at (hd (rob_entries c)) s d" "entry_done (hd (rob_entries c)) s d"
      by (rule head_commit [OF g(2) True g(7)])
    have e: "re_writes_rd (hd (rob_entries c)) = di_writes_rd d" "re_rd (hd (rob_entries c)) = di_rd d"
        "di_writes_rd d \<Longrightarrow> isa_result s = Some (re_value (hd (rob_entries c)))"
      using d(3,4) by (simp_all add: entry_at_def entry_done_def)
    have "di_writes_rd d \<Longrightarrow> di_rd d \<noteq> 0" using decoded_wfD(8) [OF here_wf [OF d(2)]] by simp
    then show ?thesis
      using now True e assms(2) isa_step_StepD(2) [OF d(1,2)]
      by (auto simp: next_registers(2) [OF g(8)])
  qed
qed

lemma commit_state_zero:
  assumes "going_on s c"
  shows "isa_regs (commit_state s c) 0 = 0"
proof (cases "head_commits (rob c)")
  case True
  note g = going_onD [OF assms]
  have "isa_step s = Step (commit_state s c)" by (rule head_commit [OF g(2) True g(7)])
  then show ?thesis using isa_regs_zero g(4) by (simp add: state_is_def)
next
  case False
  then show ?thesis using going_onD(4) [OF assms] by (simp add: commit_state_def state_is_def)
qed

lemma next_pc_right:
  assumes "going_on s c" and "final (Some (commit_state s c)) (rob_entries (next_cpu c)) = Some t"
  shows "current_pc (next_cpu c) = isa_pc t"
proof (cases "flushing c")
  case True
  note g = going_onD [OF assms(1)]
  have "t = commit_state s c" using assms(2) by (simp add: flush_entries [OF assms(1) True])
  then show ?thesis
    using True flush_final(4) [OF g(2,7) True] by (simp add: next_control(1) [OF g(8)])
next
  case False
  note g = going_onD [OF assms(1)]
  have split: "final g0 (xs @ ys) = final (final g0 xs) ys" for g0 and xs ys :: "ROBEntry list"
    by (induction xs arbitrary: g0) simp_all
  have f: "final (final (Some s) (rob_entries c)) (issued_entries c) = Some t"
    using assms(2) kept_path(2) [OF g(2,7) False] by (simp add: next_rob(3) [OF g(8)] split)
  show ?thesis
  proof (cases "issuing c")
    case None
    then have "final (Some s) (rob_entries c) = Some t" using f by (simp add: issued_entries_def)
    then have "current_pc c = isa_pc t" using g(4) by (simp add: state_is_def)
    then show ?thesis using None False by (simp add: next_control(1) [OF g(8)])
  next
    case (Some w)
    have "gnext (final (Some s) (rob_entries c)) (issue_rob_entry (issue_in c w)) = Some t"
      using f Some by (simp add: issued_entries_def)
    then have "isa_pc t = fst (predicted_next_pc c (decode w) (current_pc c))"
      using gnext_SomeD by fastforce
    then show ?thesis using Some False by (simp add: next_control(1) [OF g(8)])
  qed
qed

section \<open>Memory\<close>

text \<open>The cycle in which a store changes the memory.\<close>

definition lands :: "CPU \<Rightarrow> bool" where
  "lands c \<longleftrightarrow> tx_valid (transaction c) \<and> tx_remaining_cycles (transaction c) \<le> 1
     \<and> rq_type (tx_request (transaction c)) = STORE"

lemma nothing_lands:
  assumes "going_on s c" and "\<not> lands c"
  shows "core_memory (next_cpu c) = core_memory c"
    and "\<not> (rsp_valid (response (next_cpu c)) \<and> rsp_is_store (response (next_cpu c)))"
proof -
  note g = going_onD [OF assms(1)]
  have "core_memory (next_cpu c) = core_memory c
     \<and> \<not> (rsp_valid (response (next_cpu c)) \<and> rsp_is_store (response (next_cpu c)))"
  proof (cases "tx_valid (transaction c)")
    case True
    show ?thesis
    proof (cases "1 < tx_remaining_cycles (transaction c)")
      case t: True
      then show ?thesis using port_counts [OF g(8) True t] by simp
    next
      case False
      then have "rq_type (tx_request (transaction c)) = LOAD"
        using assms(2) True by (cases "rq_type (tx_request (transaction c))") (auto simp: lands_def)
      then show ?thesis
        using port_answers [OF g(8) True] False by (simp add: answer_fields)
    qed
  next
    case False
    show ?thesis
    proof (cases "head_sends c")
      case True
      show ?thesis
        using memory_accepts(3,4) [OF False head_request_facts(2,3) [OF g(1) True],
            folded next_memory(1) [OF g(8)]] by (simp add: response_default_def)
    next
      case s: False
      show ?thesis
        using memory_idle(3,4) [OF False no_request [OF s], folded next_memory(1) [OF g(8)]]
        by (simp add: response_default_def)
    qed
  qed
  then show "core_memory (next_cpu c) = core_memory c"
    "\<not> (rsp_valid (response (next_cpu c)) \<and> rsp_is_store (response (next_cpu c)))" by simp_all
qed

lemma landing:
  assumes "going_on s c" and "lands c"
  shows "in_phase Busy c" "head_sent (lsq_entries c)" "le_type (hd (lsq_entries c)) = STORE"
    "\<not> head_commits (rob c)" "\<not> flushing c"
proof -
  note g = going_onD [OF assms(1)]
  obtain p where "in_phase p c" using g(3) by (auto simp: traffic_ok_def)
  then show b: "in_phase Busy c" using assms(2) by (cases p) (auto simp: lands_def)
  then show hs: "head_sent (lsq_entries c)" by simp
  show st: "le_type (hd (lsq_entries c)) = STORE"
    using b assms(2) by (simp add: lands_def request_fields)
  have "memory_waiting (hd (rob_entries c))" by (rule sent_store_head(3) [OF g(1-3) hs st])
  then show "\<not> head_commits (rob c)" "\<not> flushing c"
    by (simp_all add: head_commits_def flushing_def memory_waiting_def)
qed

text \<open>The store that lands is the next instruction of the sequential machine.\<close>

lemma landing_step:
  assumes "going_on s c" and "lands c"
    and "in_bounds (le_address (hd (lsq_entries c))) (width_in_bytes (memory_width (le_op (hd (lsq_entries c)))))"
  shows "\<exists>t. isa_step s = Step t \<and> isa_mem t = core_memory (next_cpu c)"
proof -
  note g = going_onD [OF assms(1)]
  note l = landing [OF assms(1,2)]
  let ?q = "hd (lsq_entries c)" and ?h = "hd (rob_entries c)"
  note h = sent_store_head [OF g(1-3) l(2,3)]
  have ne: "lsq_entries c \<noteq> []" using l(2) by (simp add: head_sent_def)
  have p: "(?h, Some s) \<in> set (path s c)" by (rule head_on_path [OF h(1)])
  have ar: "access_right (path s c) ?q" using g(2) ne by (simp add: flight_right_def)
  have ok: "le_address_ready ?q" "opd_ready (le_store_data ?q)"
    using g(3) l(2,3) by (simp_all add: traffic_ok_def sent_ok_def Let_def)
  have wf: "store_op (le_op ?q)" "opd_ready (le_base ?q)" "le_address ?q = opd_value (le_base ?q) + le_immediate ?q"
    using ar l(3) ok by (simp_all add: access_right_def access_wf_def)
  have "on_path (path s c) (le_destination ?q) (\<lambda>e t d.
          le_op ?q = di_op d \<and> le_immediate ?q = di_immediate d
          \<and> operand_for (pending (path s c)) (isa_rs1 d t) (le_base ?q)
          \<and> (le_type ?q = STORE \<longrightarrow> operand_for (pending (path s c)) (isa_rs2 d t) (le_store_data ?q)))"
    using ar by (simp add: access_right_def)
  from on_pathD [OF this p h(2)] obtain d where d: "here s = Some d" "le_op ?q = di_op d"
      "le_immediate ?q = di_immediate d" "isa_rs1 d s = opd_value (le_base ?q)"
      "isa_rs2 d s = opd_value (le_store_data ?q)"
    using l(3) wf(2) ok(2) by (auto simp: operand_for_def)
  have a: "isa_address d s = le_address ?q" using d wf(3) by (simp add: isa_address_def)
  have "isa_mem s = core_memory c"
    using g(5) h(3) l(1) by (simp add: memory_is_def store_applied_def memory_waiting_def)
  moreover have "core_memory (next_cpu c) = memory_after (make_memory_request ?q) (core_memory c)"
    using port_answers(4) [OF g(8)] l(1) assms(2) by (simp add: lands_def)
  ultimately have "isa_store (di_op d) (isa_mem s) (isa_address d s) (isa_rs2 d s) = Some (core_memory (next_cpu c))"
    using stored_image [of "le_op ?q" "core_memory c" "le_address ?q" "opd_value (le_store_data ?q)"] wf(1) assms(3) l(3) d a
    by (simp add: memory_after_def request_fields)
  then show ?thesis
    using d wf(1) op_class_cases(2) [of "di_op d"] by (simp add: isa_step_here isa_exec_def)
qed

lemma failed_landing:
  assumes "going_on s c" and "lands c"
    and "\<not> in_bounds (le_address (hd (lsq_entries c))) (width_in_bytes (memory_width (le_op (hd (lsq_entries c)))))"
  shows "core_memory (next_cpu c) = core_memory c" "\<not> rsp_success (response (next_cpu c))"
proof -
  note g = going_onD [OF assms(1)]
  note l = landing [OF assms(1,2)]
  have p: "tx_valid (transaction c)" "tx_remaining_cycles (transaction c) \<le> 1"
    using assms(2) by (simp_all add: lands_def)
  have q: "tx_request (transaction c) = make_memory_request (hd (lsq_entries c))" using l(1) by simp
  show "\<not> rsp_success (response (next_cpu c))"
    using port_answers(3) [OF g(8) p] assms(3) by (simp add: q answer_fields request_fields)
  show "core_memory (next_cpu c) = core_memory c"
    using port_answers(4) [OF g(8) p] assms(3) l(3)
    by (simp add: q memory_after_def request_fields store_out_of_bounds)
qed

text \<open>The head of the reorder buffer after a cycle is a finished store only if it was answered.\<close>

lemma next_head_unready:
  assumes "going_on s c" and "head_commits (rob c) \<or> rob_entries c = []"
    and "rob_entries (next_cpu c) \<noteq> []" and "re_is_store (hd (rob_entries (next_cpu c)))"
  shows "\<not> re_ready (hd (rob_entries (next_cpu c)))"
proof -
  note g = going_onD [OF assms(1)]
  let ?h = "hd (rob_entries (next_cpu c))"
  have "kept_entries c = [] \<or> kept_entries c = tl (map (marked c) (rob_entries c))"
    using assms(2) by (auto simp: kept_entries_def)
  then have "?h \<in> set (issued_entries c) \<or> ?h \<in> marked c ` set (tl (rob_entries c))"
    using assms(3) unfolding next_rob(3) [OF g(8)]
    by (cases "kept_entries c") (auto simp: simp flip: map_tl)
  then show ?thesis
  proof
    assume "?h \<in> set (issued_entries c)"
    then obtain w where w: "issuing c = Some w" "?h = issue_rob_entry (issue_in c w)"
      by (cases "issuing c") (auto simp: issued_entries_def)
    have "re_op ?h \<noteq> OP_HALT"
      using issued_entry_wf [OF w(1)] assms(4) op_class_cases(2) unfolding w(2) [symmetric] entry_wf_def by blast
    then show ?thesis using w(2) by simp
  next
    assume "?h \<in> marked c ` set (tl (rob_entries c))"
    then obtain x where x: "x \<in> set (tl (rob_entries c))" "?h = marked c x" by blast
    then show ?thesis using marked_store_tl [OF assms(1) x(1)] assms(4) by simp
  qed
qed

lemma unfinished_head_marked:
  assumes "going_on s c" and "rob_entries c \<noteq> []" and "\<not> re_ready (hd (rob_entries c))"
    and "re_is_store (hd (rob_entries c))"
  shows "re_ready (marked c (hd (rob_entries c))) \<longleftrightarrow> store_finishes c"
proof -
  note g = going_onD [OF assms(1)]
  let ?h = "hd (rob_entries c)"
  have hr: "?h \<in> set (rob_entries c)" using assms(2) by simp
  have "entry_wf ?h" using g(1) hr by (simp add: queues_ok_def list_all_iff)
  then have st: "store_op (re_op ?h)" using assms(4) by (simp add: entry_wf_def)
  have nb: "\<not> (fu_valid (completion c) \<and> re_tag ?h = fu_tag (completion c))"
  proof
    assume v: "fu_valid (completion c) \<and> re_tag ?h = fu_tag (completion c)"
    obtain x where x: "x \<in> set (rob_entries c)" "re_tag x = fu_tag (completion c)" "\<not> store_op (re_op x)"
      using v by (auto intro: completion_entry [OF g(1,2)])
    have "x = ?h" using x(2) v by (intro same_tag [OF g(8) x(1) hr]) simp
    then show False using x(3) st by simp
  qed
  have "store_finishes c \<Longrightarrow> re_tag ?h = le_destination (hd (lsq_entries c))"
    using sent_store_head(2) [OF g(1-3)] finishes_sent(2) [OF assms(1)] by (auto simp: store_finishes_def)
  then show ?thesis
    using marked_ready [OF g(8) hr] nb assms(3,4) by (auto simp: store_finishes_def)
qed

lemma applied_or_finishes:
  assumes "going_on s c" and "rob_entries c \<noteq> []" and "\<not> re_ready (hd (rob_entries c))"
    and "re_is_store (hd (rob_entries c))"
  shows "store_applied c \<longleftrightarrow> store_finishes c"
proof
  note g = going_onD [OF assms(1)]
  have nf: "\<not> flushing c" using assms(3) by (simp add: flushing_def head_commits_def)
  show "store_finishes c" if "store_applied c"
  proof -
    have r: "rsp_valid (response c)" "rsp_is_store (response c)" "rsp_success (response c)"
      using that assms(3) by (auto simp: store_applied_def)
    obtain p where "in_phase p c" using g(3) by (auto simp: traffic_ok_def)
    then have a: "in_phase Answered c" using r by (cases p) auto
    then have "head_finishes c" using phase_response [OF g(1) a nf] r(3) by (simp add: head_finishes_def)
    moreover have "le_type (hd (lsq_entries c)) = STORE" using a r(2) by (simp add: answers_head_def)
    ultimately show ?thesis by (simp add: store_finishes_def)
  qed
  show "store_applied c" if "store_finishes c"
  proof -
    have f: "head_finishes c" "le_type (hd (lsq_entries c)) = STORE" using that by (simp_all add: store_finishes_def)
    have "in_phase Answered c" by (rule finishes_sent(1) [OF assms(1) f(1)])
    then show ?thesis
      using f assms(2,4) by (auto simp: store_applied_def answers_head_def head_finishes_def)
  qed
qed

lemma next_memory_is:
  assumes "going_on s c"
  shows "memory_is (commit_state s c) (next_cpu c)"
proof (cases "lands c")
  case True
  note g = going_onD [OF assms]
  note l = landing [OF assms True]
  let ?q = "hd (lsq_entries c)" and ?h = "hd (rob_entries c)"
  note h = sent_store_head [OF g(1-3) l(2,3)]
  have nr: "\<not> re_ready ?h" using h(3) by (simp add: memory_waiting_def)
  have s: "commit_state s c = s" using l(4) by (simp add: commit_state_def)
  have nfin: "\<not> store_finishes c" using l(1) silent_no_answer by (simp add: store_finishes_def)
  note k = unfinished_head_kept [OF assms l(5) h(1) nr]
  have hd: "re_is_store (hd (rob_entries (next_cpu c)))" "\<not> re_ready (hd (rob_entries (next_cpu c)))"
    using h(5) nfin unfinished_head_marked [OF assms h(1) nr h(5)] by (simp_all add: k(2))
  have p: "tx_valid (transaction c)" "tx_remaining_cycles (transaction c) \<le> 1"
      "tx_request (transaction c) = make_memory_request ?q"
    using True l(1) by (simp_all add: lands_def)
  note a = port_answers [OF g(8) p(1,2), unfolded p(3)]
  have ap: "store_applied (next_cpu c) \<longleftrightarrow> rsp_success (response (next_cpu c))"
    using k(1) hd a(2,3) l(3) by (simp add: store_applied_def answer_fields request_fields)
  show ?thesis
  proof (cases "in_bounds (le_address ?q) (width_in_bytes (memory_width (le_op ?q)))")
    case ok: True
    then have "rsp_success (response (next_cpu c))" using a(3) by (simp add: answer_fields request_fields)
    then show ?thesis using landing_step [OF assms True ok] by (simp add: memory_is_def ap s)
  next
    case bad: False
    have "\<not> store_applied c" using nr l(1) by (simp add: store_applied_def)
    then have "isa_mem s = core_memory c" using g(5) by (simp add: memory_is_def)
    then show ?thesis
      using failed_landing [OF assms True bad] by (simp add: memory_is_def ap s)
  qed
next
  case False
  note g = going_onD [OF assms]
  let ?h = "hd (rob_entries c)"
  note n = nothing_lands [OF assms False]
  have ap: "store_applied (next_cpu c) \<longleftrightarrow> rob_entries (next_cpu c) \<noteq> []
      \<and> re_is_store (hd (rob_entries (next_cpu c))) \<and> re_ready (hd (rob_entries (next_cpu c)))"
    using n(2) by (auto simp: store_applied_def)
  show ?thesis
  proof (cases "head_commits (rob c)")
    case True
    then have ne: "rob_entries c \<noteq> []" "re_ready ?h" by (simp_all add: head_commits_def)
    obtain d where d: "isa_step s = Step (commit_state s c)" "here s = Some d" "entry_at ?h s d"
      by (rule head_commit [OF g(2) True g(7)])
    have "isa_mem (commit_state s c) = core_memory c"
    proof (cases "re_is_store ?h")
      case True
      then have "store_applied c" using ne by (simp add: store_applied_def)
      then show ?thesis using g(5) d(1) by (auto simp: memory_is_def)
    next
      case False
      then have "\<not> store_op (di_op d)"
        using d(3) decoded_wfD(5) [OF here_wf [OF d(2)]] by (simp add: entry_at_def)
      then have "isa_mem (commit_state s c) = isa_mem s" by (rule isa_step_StepD(4) [OF d(1,2)])
      then show ?thesis using g(5) False by (simp add: memory_is_def store_applied_def)
    qed
    moreover have "\<not> store_applied (next_cpu c)"
      using next_head_unready [OF assms] True unfolding ap by blast
    ultimately show ?thesis by (simp add: memory_is_def n(1))
  next
    case nc: False
    then have s: "commit_state s c = s" by (simp add: commit_state_def)
    have "store_applied (next_cpu c) \<longleftrightarrow> store_applied c"
    proof (cases "rob_entries c = []")
      case True
      then show ?thesis using next_head_unready [OF assms] unfolding ap by (auto simp: store_applied_def)
    next
      case ne: False
      have nr: "\<not> re_ready ?h" using nc ne by (simp add: head_commits_def)
      have nf: "\<not> flushing c" using nc by (simp add: flushing_def)
      note k = unfinished_head_kept [OF assms nf ne nr]
      show ?thesis
      proof (cases "re_is_store ?h")
        case True
        then show ?thesis
          using unfinished_head_marked [OF assms ne nr True] applied_or_finishes [OF assms ne nr True] k
          by (simp add: ap)
      next
        case False
        then show ?thesis using k by (simp add: ap store_applied_def)
      qed
    qed
    then show ?thesis using g(5) by (simp add: memory_is_def n(1) s)
  qed
qed

section \<open>One cycle\<close>

lemma next_state_is: "going_on s c \<Longrightarrow> state_is (commit_state s c) (next_cpu c)"
  unfolding state_is_def
  using commit_state_zero next_registers_right next_memory_is next_pc_right by blast

lemma next_related: "going_on s c \<Longrightarrow> related (commit_state s c) (next_cpu c)"
  unfolding related_def
  using next_queues_ok next_flight_right next_traffic_ok next_state_is by blast

end
