(* ===== verification/CoreOrder.thy ===== *)
theory CoreOrder
  imports CoreState
begin

text \<open>
  Who waits for whom: every operand in flight that is not ready waits for an unfinished instruction
  that is older than its own, so the oldest instruction waits for nobody; and the core stops
  fetching only behind a halt instruction.
\<close>

section \<open>Waiting for older instructions\<close>

definition older :: "ROBEntry list \<Rightarrow> RobTag \<Rightarrow> RobTag \<Rightarrow> bool" where
  "older es tag t \<longleftrightarrow> (\<exists>pre e post x. es = pre @ e # post \<and> re_tag e = tag \<and> x \<in> set pre
     \<and> re_tag x = t \<and> re_writes_rd x \<and> \<not> re_ready x)"

definition awaits :: "Operand \<Rightarrow> RobTag \<Rightarrow> bool" where
  "awaits opd t \<longleftrightarrow> \<not> opd_ready opd \<and> opd_tag opd = t"

definition rs_orderly :: "ROBEntry list \<Rightarrow> RSEntry \<Rightarrow> bool" where
  "rs_orderly es x \<longleftrightarrow> (\<forall>t. awaits (rse_lhs x) t \<or> awaits (rse_rhs x) t \<longrightarrow> older es (rse_destination x) t)"

definition access_orderly :: "ROBEntry list \<Rightarrow> LSQEntry \<Rightarrow> bool" where
  "access_orderly es q \<longleftrightarrow> (\<forall>t. awaits (le_base q) t \<or> le_type q = STORE \<and> awaits (le_store_data q) t
     \<longrightarrow> older es (le_destination q) t)"

definition address_settled :: "LSQEntry \<Rightarrow> bool" where
  "address_settled q \<longleftrightarrow> (opd_ready (le_base q) \<longrightarrow> le_address_ready q)"

text \<open>Fetching is stopped exactly behind a halt instruction, which is the youngest in flight.\<close>

definition halt_last :: "bool \<Rightarrow> ROBEntry list \<Rightarrow> bool" where
  "halt_last b es \<longleftrightarrow>
     (if b then es \<noteq> [] \<and> re_op (last es) = OP_HALT \<and> (\<forall>e \<in> set (butlast es). re_op e \<noteq> OP_HALT)
      else \<forall>e \<in> set es. re_op e \<noteq> OP_HALT)"

definition orderly :: "CPU \<Rightarrow> bool" where
  "orderly c \<longleftrightarrow> (\<forall>x \<in># rs_bag (reservation_station c). rs_orderly (rob_entries c) x)
     \<and> (\<forall>q \<in> set (lsq_entries c). access_orderly (rob_entries c) q \<and> address_settled q)
     \<and> halt_last (fetch_stopped c) (rob_entries c)"

lemma older_append: "older es tag t \<Longrightarrow> older (es @ ys) tag t"
  unfolding older_def by (metis append_assoc append_Cons)

lemma older_new: "x \<in> set es \<Longrightarrow> re_tag x = t \<Longrightarrow> re_writes_rd x \<Longrightarrow> \<not> re_ready x \<Longrightarrow> older (es @ [e]) (re_tag e) t"
  unfolding older_def by blast

lemma older_tl:
  assumes "older es tag t" and "re_ready (hd es)"
  shows "older (tl es) tag t"
proof -
  obtain pre e post x where o: "es = pre @ e # post" "re_tag e = tag" "x \<in> set pre" "re_tag x = t"
      "re_writes_rd x" "\<not> re_ready x"
    using assms(1) by (auto simp: older_def)
  obtain h pre' where p: "pre = h # pre'" using o(3) by (cases pre) auto
  have "x \<in> set pre'" using o(1,3,6) p assms(2) by auto
  then show ?thesis using o p unfolding older_def by auto
qed

lemma older_first:
  assumes "older es tag t" and "distinct (map re_tag es)"
  shows "tag \<noteq> re_tag (hd es)"
proof -
  obtain pre e post x where o: "es = pre @ e # post" "re_tag e = tag" "x \<in> set pre"
    using assms(1) by (auto simp: older_def)
  obtain h pre' where "pre = h # pre'" using o(3) by (cases pre) auto
  then show ?thesis using o(1,2) assms(2) by auto
qed

lemma older_map:
  assumes "older es tag t" and "\<And>e. re_tag (f e) = re_tag e"
    and "\<And>x. x \<in> set es \<Longrightarrow> re_tag x = t \<Longrightarrow> re_writes_rd x \<Longrightarrow> \<not> re_ready x \<Longrightarrow> f x = x"
  shows "older (map f es) tag t"
proof -
  obtain pre e post x where o: "es = pre @ e # post" "re_tag e = tag" "x \<in> set pre" "re_tag x = t"
      "re_writes_rd x" "\<not> re_ready x"
    using assms(1) by (auto simp: older_def)
  have fx: "f x = x" using o by (intro assms(3)) auto
  have m: "map f es = map f pre @ f e # map f post" by (simp add: o(1))
  have "x \<in> set (map f pre)" using fx o(3) by (metis image_eqI list.set_map)
  then show ?thesis using m o(2,4-6) assms(2) unfolding older_def by metis
qed

text \<open>Through the first half of a cycle.\<close>

lemma writer_unmarked:
  assumes "queues_ok c" and "x \<in> set (rob_entries c)" and "re_writes_rd x"
    and "\<not> (fu_valid (completion c) \<and> re_tag x = fu_tag (completion c))"
  shows "marked c x = x"
proof -
  have "entry_wf x" using assms(1,2) by (simp add: queues_ok_def list_all_iff)
  then have "\<not> re_is_store x" using assms(3) op_class_cases(2) by (auto simp: entry_wf_def)
  then show ?thesis using assms by (intro unmarked) (auto simp: queues_ok_def)
qed

lemma older_kept:
  assumes "queues_ok c" and "\<not> flushing c" and "older (rob_entries c) tag t"
    and "\<not> (fu_valid (completion c) \<and> t = fu_tag (completion c))"
  shows "older (kept_entries c) tag t"
proof -
  have sh: "shapes c" using assms(1) by (simp add: queues_ok_def)
  have m: "older (map (marked c) (rob_entries c)) tag t"
    using assms(4) by (intro older_map [OF assms(3)] writer_unmarked [OF assms(1)]) auto
  show ?thesis
  proof (cases "head_commits (rob c)")
    case True
    then have ne: "rob_entries c \<noteq> []" "re_ready (hd (rob_entries c))" by (simp_all add: head_commits_def)
    then have "re_ready (hd (map (marked c) (rob_entries c)))"
      using marked_ready [OF sh, of "hd (rob_entries c)"] by (simp add: hd_map)
    then show ?thesis using older_tl [OF m] True assms(2) by (simp add: kept_entries_def)
  qed (use m assms(2) in \<open>simp add: kept_entries_def\<close>)
qed

lemma older_entry: "older es tag t \<Longrightarrow> \<exists>x \<in> set es. re_tag x = t"
  by (auto simp: older_def)

lemma awaits_woken:
  assumes "shapes c"
  shows "awaits (rs_wake_operand opd (co_broadcast (bus c))) t \<longleftrightarrow>
      awaits opd t \<and> \<not> (tag_valid t \<and> fu_valid (completion c) \<and> t = fu_tag (completion c))"
    and "awaits (lsq_wake_operand opd (co_broadcast (bus c))) t \<longleftrightarrow>
      awaits opd t \<and> \<not> (tag_valid t \<and> fu_valid (completion c) \<and> t = fu_tag (completion c))"
  using bus_is_completion(2) [OF assms(1)]
  by (auto simp: awaits_def rs_wake_operand_def lsq_wake_operand_def bus_is_completion(1) [OF assms(1)])

lemma woken_older:
  assumes "queues_ok c" and "\<not> flushing c" and "\<And>t. awaits opd t \<Longrightarrow> older (rob_entries c) tag t"
  shows "awaits (rs_wake_operand opd (co_broadcast (bus c))) t \<Longrightarrow> older (kept_entries c) tag t"
    and "awaits (lsq_wake_operand opd (co_broadcast (bus c))) t \<Longrightarrow> older (kept_entries c) tag t"
proof -
  have sh: "shapes c" using assms(1) by (simp add: queues_ok_def)
  have k: "older (kept_entries c) tag t"
    if a: "awaits opd t" and n: "\<not> (tag_valid t \<and> fu_valid (completion c) \<and> t = fu_tag (completion c))"
  proof -
    obtain x where "x \<in> set (rob_entries c)" "re_tag x = t" using older_entry [OF assms(3) [OF a]] by blast
    then have "tag_valid t" using rob_entry_facts(2) [OF sh, of x] by simp
    then show ?thesis using n by (intro older_kept [OF assms(1,2) assms(3) [OF a]]) simp
  qed
  show "awaits (rs_wake_operand opd (co_broadcast (bus c))) t \<Longrightarrow> older (kept_entries c) tag t"
    "awaits (lsq_wake_operand opd (co_broadcast (bus c))) t \<Longrightarrow> older (kept_entries c) tag t"
  proof -
    assume w: "awaits (rs_wake_operand opd (co_broadcast (bus c))) t"
    then have a: "awaits opd t" by (auto simp: awaits_def rs_wake_operand_def split: if_splits)
    show "older (kept_entries c) tag t" using w k [OF a] awaits_woken(1) [OF sh] by simp
  next
    assume w: "awaits (lsq_wake_operand opd (co_broadcast (bus c))) t"
    then have a: "awaits opd t" by (auto simp: awaits_def lsq_wake_operand_def split: if_splits)
    show "older (kept_entries c) tag t" using w k [OF a] awaits_woken(2) [OF sh] by simp
  qed
qed

text \<open>The operands of a new instruction wait for instructions in flight.\<close>

lemma resolved_awaits:
  assumes "queues_ok c" and "\<not> flushing c" and "awaits (resolve_register r (source_state c r) (co_broadcast (bus c))) t"
  shows "\<exists>x \<in> set (kept_entries c). re_tag x = t \<and> re_writes_rd x \<and> \<not> re_ready x"
proof -
  have sh: "shapes c" using assms(1) by (simp add: queues_ok_def)
  let ?src = "source_state c r"
  have a: "r \<noteq> 0" "tag_valid (ss_producer ?src)" "\<not> ss_producer_ready ?src" "t = ss_producer ?src"
      "\<not> (msg_valid (co_broadcast (bus c)) \<and> tag_valid (msg_tag (co_broadcast (bus c)))
          \<and> msg_tag (co_broadcast (bus c)) = ss_producer ?src)"
    using assms(3) by (auto simp: awaits_def resolve_register_def ready_operand_def split: if_splits)
  have p: "ss_producer ?src = rat_lookup (rename_table c) r"
    using a(1) by (simp add: source_state_def Let_def source_default_def split: option.split)
  then have ren: "ss_producer ?src = renames (rob_entries c) r"
    using assms(1) by (simp add: queues_ok_def)
  have w: "writers r (rob_entries c) \<noteq> []" using a(2) ren by (auto simp: renames_def)
  let ?x = "last (writers r (rob_entries c))"
  have x: "?x \<in> set (rob_entries c)" "re_writes_rd ?x" "re_tag ?x = t"
    using writer_in [OF w] w a(4) ren by (simp_all add: renames_def)
  have "\<not> re_ready ?x"
    using a(1-3) p x(3) a(4) rob_lookup_entry [OF sh x(1)] by (auto simp: source_state_def Let_def)
  moreover have "marked c ?x = ?x"
  proof (rule writer_unmarked [OF assms(1) x(1,2)])
    show "\<not> (fu_valid (completion c) \<and> re_tag ?x = fu_tag (completion c))"
      using a(4,5) x(3) bus_is_completion(1,2) [OF sh] by auto
  qed
  moreover have "?x \<in> set (kept_entries c)" if "\<not> re_ready ?x" "marked c ?x = ?x"
  proof -
    have i: "?x \<in> set (map (marked c) (rob_entries c))" using x(1) that(2) by (metis image_eqI list.set_map)
    show ?thesis
    proof (cases "head_commits (rob c)")
      case True
      then obtain h es where l: "rob_entries c = h # es" "re_ready h"
        by (cases "rob_entries c") (auto simp: head_commits_def)
      have "re_ready (marked c h)" using l marked_ready [OF sh, of h] by simp
      then have "?x \<noteq> marked c h" using that(1) by auto
      then show ?thesis using i True assms(2) l by (auto simp: kept_entries_def)
    qed (use i assms(2) in \<open>simp add: kept_entries_def\<close>)
  qed
  ultimately show ?thesis using x by blast
qed

section \<open>After a cycle\<close>

lemma rs_orderly_kept:
  assumes "going_on s c" and "orderly c" and "\<not> flushing c" and "x \<in># kept_rs c"
  shows "rs_orderly (rob_entries (next_cpu c)) x"
proof -
  note g = going_onD [OF assms(1)]
  let ?m = "co_broadcast (bus c)"
  obtain y where y: "y \<in># rs_bag (reservation_station c)" "x = rs_wake_entry ?m y"
    using assms(3,4) by (auto simp: kept_rs_def dest: in_diffD)
  have o: "rs_orderly (rob_entries c) y" using assms(2) y(1) by (simp add: orderly_def)
  note f = wake_entry_rs_operands [OF rs_entry_busy [OF y(1)]]
  have d: "rse_destination x = rse_destination y" by (simp add: y(2) rs_wake_entry_def)
  have l: "\<And>t. awaits (rse_lhs y) t \<Longrightarrow> older (rob_entries c) (rse_destination y) t"
    and r: "\<And>t. awaits (rse_rhs y) t \<Longrightarrow> older (rob_entries c) (rse_destination y) t"
    using o by (simp_all add: rs_orderly_def)
  have "older (kept_entries c) (rse_destination y) t" if "awaits (rse_lhs x) t \<or> awaits (rse_rhs x) t" for t
    using that woken_older(1) [OF g(1) assms(3), of "rse_lhs y" "rse_destination y" t, OF l]
      woken_older(1) [OF g(1) assms(3), of "rse_rhs y" "rse_destination y" t, OF r]
    by (auto simp: y(2) f)
  then show ?thesis
    by (auto simp: rs_orderly_def d next_rob(3) [OF g(8)] intro: older_append)
qed

lemma access_orderly_kept:
  assumes "going_on s c" and "orderly c" and "\<not> flushing c" and "q \<in> set (kept_lsq c)"
  shows "access_orderly (rob_entries (next_cpu c)) q"
proof -
  note g = going_onD [OF assms(1)]
  let ?w = "lsq_wake_entry (co_broadcast (bus c))"
  have "\<exists>x \<in> set (lsq_entries c). q = ?w x \<or> q = (?w x)\<lparr>le_request_sent := True\<rparr>"
    using assms(3,4) by (cases "lsq_entries c")
      (auto simp: kept_lsq_def Let_def head_sends_def head_finishes_def response_for_head_def split: if_splits)
  then obtain y where y: "y \<in> set (lsq_entries c)" "q = ?w y \<or> q = (?w y)\<lparr>le_request_sent := True\<rparr>" by blast
  have o: "access_orderly (rob_entries c) y" using assms(2) y(1) by (simp add: orderly_def)
  have v: "le_valid y" by (rule lsq_list_valid [OF shapesD(2) [OF g(8)] y(1)])
  note f = wake_entry_operands [OF v]
  have d: "le_destination q = le_destination y" "le_type q = le_type y" "le_base q = le_base (?w y)"
      "le_store_data q = le_store_data (?w y)"
    using y(2) by auto
  have l: "\<And>t. awaits (le_base y) t \<Longrightarrow> older (rob_entries c) (le_destination y) t"
    and r: "\<And>t. le_type y = STORE \<Longrightarrow> awaits (le_store_data y) t \<Longrightarrow> older (rob_entries c) (le_destination y) t"
    using o by (simp_all add: access_orderly_def)
  have "older (kept_entries c) (le_destination y) t"
    if "awaits (le_base q) t \<or> le_type q = STORE \<and> awaits (le_store_data q) t" for t
    using that woken_older(2) [OF g(1) assms(3), of "le_base y" "le_destination y" t, OF l]
      woken_older(2) [OF g(1) assms(3), of "le_store_data y" "le_destination y" t, OF r]
    by (auto simp: d f)
  then show ?thesis
    by (auto simp: access_orderly_def d next_rob(3) [OF g(8)] intro: older_append)
qed

lemma issued_older:
  assumes "going_on s c" and "issuing c = Some w"
    and "awaits (resolve_register r (source_state c r) (co_broadcast (bus c))) t"
  shows "older (rob_entries (next_cpu c)) (next_tag (rob c)) t"
proof -
  note g = going_onD [OF assms(1)]
  obtain x where x: "x \<in> set (kept_entries c)" "re_tag x = t" "re_writes_rd x" "\<not> re_ready x"
    using resolved_awaits [OF g(1) issuingD(2) [OF assms(2)] assms(3)] by blast
  show ?thesis
    using older_new [OF x, of "issue_rob_entry (issue_in c w)"] assms(2)
    by (simp add: next_rob(3) [OF g(8)] issued_entries_def issue_in_simps)
qed

lemma select_awaits: "awaits (select_operand src opd imm pc) t \<Longrightarrow> awaits opd t"
  by (cases src) (simp_all add: select_operand_def awaits_def ready_operand_def)

lemma rs_orderly_issued:
  assumes "going_on s c" and "x \<in># issued_rs c"
  shows "rs_orderly (rob_entries (next_cpu c)) x"
proof -
  obtain w where w: "issuing c = Some w"
      "x = issue_rs_entry (issue_in c w) (rs1_operand (issue_in c w)) (rs2_operand (issue_in c w))"
    using assms(2) by (cases "issuing c") (auto simp: issued_rs_def split: if_splits)
  show ?thesis
    unfolding rs_orderly_def
  proof (intro allI impI)
    fix t assume "awaits (rse_lhs x) t \<or> awaits (rse_rhs x) t"
    then have "awaits (rs1_operand (issue_in c w)) t \<or> awaits (rs2_operand (issue_in c w)) t"
      by (auto simp: w(2) issue_rs_entry_def Let_def dest: select_awaits)
    then have "older (rob_entries (next_cpu c)) (next_tag (rob c)) t"
      using issued_older [OF assms(1) w(1)] by (auto simp: rs1_operand_def rs2_operand_def issue_in_simps)
    then show "older (rob_entries (next_cpu c)) (rse_destination x) t"
      by (simp add: w(2) issue_rs_entry_def Let_def issue_in_simps)
  qed
qed

lemma access_orderly_issued:
  assumes "going_on s c" and "q \<in> set (issued_lsq c)"
  shows "access_orderly (rob_entries (next_cpu c)) q"
proof -
  obtain w where w: "issuing c = Some w"
      "q = issue_lsq_entry (issue_in c w) (rs1_operand (issue_in c w)) (rs2_operand (issue_in c w))"
    using assms(2) by (cases "issuing c") (auto simp: issued_lsq_def split: if_splits)
  show ?thesis
    unfolding access_orderly_def
  proof (intro allI impI)
    fix t assume "awaits (le_base q) t \<or> le_type q = STORE \<and> awaits (le_store_data q) t"
    then have "awaits (rs1_operand (issue_in c w)) t \<or> awaits (rs2_operand (issue_in c w)) t"
      by (auto simp: w(2) issue_lsq_entry_def Let_def awaits_def ready_operand_def split: if_splits)
    then have "older (rob_entries (next_cpu c)) (next_tag (rob c)) t"
      using issued_older [OF assms(1) w(1)] by (auto simp: rs1_operand_def rs2_operand_def issue_in_simps)
    then show "older (rob_entries (next_cpu c)) (le_destination q) t"
      by (simp add: w(2) issue_lsq_entry_def Let_def issue_in_simps)
  qed
qed

lemma address_settled_update: "le_valid q \<Longrightarrow> address_settled (update_address q)"
  by (simp add: address_settled_def update_address_def)

lemma access_orderly_update: "access_orderly es (update_address q) \<longleftrightarrow> access_orderly es q"
  by (simp add: access_orderly_def)

lemma halt_last_map: "(\<And>e. re_op (f e) = re_op e) \<Longrightarrow> halt_last b (map f es) = halt_last b es"
  by (auto simp: halt_last_def last_map simp flip: map_butlast)

lemma halt_last_tl:
  assumes "halt_last b es" and "re_op (hd es) \<noteq> OP_HALT"
  shows "halt_last b (tl es)"
  using assms by (cases es) (auto simp: halt_last_def split: if_splits)

lemma halt_last_append:
  "halt_last False es \<Longrightarrow> halt_last (re_op e = OP_HALT) (es @ [e])"
  by (auto simp: halt_last_def)

lemma next_stopped:
  assumes "going_on s c" and "orderly c"
  shows "halt_last (fetch_stopped (next_cpu c)) (rob_entries (next_cpu c))"
proof (cases "flushing c")
  case True
  then show ?thesis
    by (simp add: next_control(2) [OF going_onD(8) [OF assms(1)]] flush_entries [OF assms(1)] halt_last_def)
next
  case nf: False
  note g = going_onD [OF assms(1)]
  have m: "halt_last (fetch_stopped c) (map (marked c) (rob_entries c))"
    using assms(2) by (simp add: orderly_def halt_last_map)
  have k: "halt_last (fetch_stopped c) (kept_entries c)"
  proof (cases "head_commits (rob c)")
    case True
    then have "re_op (hd (map (marked c) (rob_entries c))) \<noteq> OP_HALT"
      using g(7) by (simp add: commits_halt_def head_commits_def hd_map)
    then show ?thesis using halt_last_tl [OF m] True nf by (simp add: kept_entries_def)
  qed (use m nf in \<open>simp add: kept_entries_def\<close>)
  show ?thesis
  proof (cases "issuing c")
    case (Some w)
    then have "\<not> fetch_stopped c" by (rule issuingD(3))
    then show ?thesis
      using halt_last_append [of "kept_entries c" "issue_rob_entry (issue_in c w)"] k Some nf
      by (simp add: next_control(2) [OF g(8)] next_rob(3) [OF g(8)] issued_entries_def)
  next
    case None
    then show ?thesis
      using k nf by (simp add: next_control(2) [OF g(8)] next_rob(3) [OF g(8)] issued_entries_def)
  qed
qed

lemma next_orderly:
  assumes "going_on s c" and "orderly c"
  shows "orderly (next_cpu c)"
proof -
  note g = going_onD [OF assms(1)]
  have valid: "le_valid q" if "update_address q \<in> set (lsq_entries (next_cpu c))" for q
    using lsq_list_valid [OF shapesD(2) [OF shapes_nextD [OF assms(1)]] that] by simp
  have "\<forall>x \<in># rs_bag (reservation_station (next_cpu c)). rs_orderly (rob_entries (next_cpu c)) x"
  proof (cases "flushing c")
    case True
    then show ?thesis
      using flush_final(2) [OF g(2,7) True] by (simp add: next_rs(2) [OF g(8)] kept_rs_def issued_rs_def)
  next
    case False
    then show ?thesis
      using rs_orderly_kept [OF assms False] rs_orderly_issued [OF assms(1)]
      by (auto simp: next_rs(2) [OF g(8)])
  qed
  moreover have "\<forall>q \<in> set (lsq_entries (next_cpu c)).
      access_orderly (rob_entries (next_cpu c)) q \<and> address_settled q"
  proof (cases "flushing c")
    case True
    then show ?thesis by (simp add: flush_queue [OF g(8,9)])
  next
    case False
    show ?thesis
    proof
      fix q' assume q': "q' \<in> set (lsq_entries (next_cpu c))"
      then obtain q where q: "q' = update_address q" "q \<in> set (kept_lsq c) \<or> q \<in> set (issued_lsq c)"
        by (auto simp: next_lsq(2) [OF g(8,9)])
      have "access_orderly (rob_entries (next_cpu c)) q"
        using q(2) access_orderly_kept [OF assms False] access_orderly_issued [OF assms(1)] by blast
      moreover have "address_settled q'"
        unfolding q(1) using q' by (intro address_settled_update valid) (simp add: q(1))
      ultimately show "access_orderly (rob_entries (next_cpu c)) q' \<and> address_settled q'"
        by (simp add: q(1) access_orderly_update)
    qed
  qed
  ultimately show ?thesis
    using next_stopped [OF assms] by (simp add: orderly_def)
qed

end
