(* ===== verification/CoreRun.thy ===== *)
theory CoreRun
  imports CoreOrder ScheduleCorrect ImageLoadCorrect
begin

text \<open>
  The whole core against the sequential machine: no assertion of a cycle can fail, every cycle
  performs no instruction or one, and a run of the core ends as the sequential machine does.
\<close>

section \<open>No assertion fails\<close>

lemma relatedD:
  assumes "related s c"
  shows "queues_ok c" "flight_right s c" "traffic_ok c" "state_is s c" "shapes c" "sent_answered c"
  using assms sent_answered [of c] by (simp_all add: related_def queues_ok_def)

lemma head_access_op:
  assumes "related s c" and "lsq_entries c \<noteq> []"
  shows "if le_type (hd (lsq_entries c)) = LOAD then load_op (le_op (hd (lsq_entries c)))
    else store_op (le_op (hd (lsq_entries c)))"
  using relatedD(2) [OF assms(1)] assms(2) by (simp add: flight_right_def access_right_def access_wf_def)

theorem related_asserts:
  assumes "related s c"
  shows "cycle_asserts c"
proof -
  note r = relatedD [OF assms]
  let ?q = "hd (lsq_entries c)"
  have fin: "\<not> fu_valid (loaded c)" if "head_finishes c" "le_type ?q = LOAD"
  proof -
    have "in_phase Answered c"
      using that(1) by (intro response_phase [OF r(1,3)]) (simp add: head_finishes_def)
    then show ?thesis using r(3) that(2) by (simp add: traffic_ok_def sent_ok_def Let_def)
  qed
  have unit: "\<And>x. dispatched c = Some x \<Longrightarrow> fu_valid (execute_instruction (make_execute x))"
    by (rule dispatched_result(1) [OF r(1,2)])
  have plan: "lsq_plan_asserts (load_store_queue c) (cv_lsq_observe (cycle_view c))"
  proof -
    note p = lsq_plan_facts [OF shapesD(1,2) [OF r(5)]]
    have hd: "lsq_entries c \<noteq> [] \<Longrightarrow> lsq_cur (load_store_queue c) ! lsq_head (load_store_queue c) = ?q"
      by (rule lsq_head_list [OF shapesD(2) [OF r(5)]])
    have ne: "head_finishes c \<Longrightarrow> lsq_entries c \<noteq> []" "head_sends c \<Longrightarrow> lsq_entries c \<noteq> []"
      by (simp_all add: head_finishes_def response_for_head_def head_sends_def)
    have "extend_load_asserts (le_op ?q)" if "head_finishes c" "le_type ?q = LOAD"
      using head_access_op [OF assms ne(1)] that by (intro extend_load_ok) simp
    moreover have "memory_width_asserts (le_op ?q)" if "head_sends c"
      using head_access_op [OF assms ne(2)] that by (intro memory_width_ok) (auto split: if_splits)
    ultimately show ?thesis
      using p(2,3) ne hd by (auto simp: lsq_plan_asserts_def Let_def simp flip: lsq_dec_def)
  qed
  have mem: "memory_apply_asserts (head_request c) (memory_unit c)"
    "rq_valid (head_request c) \<Longrightarrow> snd (memory_apply (head_request c) (memory_unit c))"
  proof -
    have v: "rq_valid (head_request c) \<longleftrightarrow> head_sends c"
      using head_request_facts(2) [OF r(1)] no_request by blast
    then show "memory_apply_asserts (head_request c) (memory_unit c)"
      using head_request_facts(3) [OF r(1)] by (auto simp: memory_apply_asserts_def)
    assume "rq_valid (head_request c)"
    then have s: "head_sends c" by (simp add: v)
    then have "\<not> tx_valid (transaction c)" by (simp add: head_sends_def data_port_available_def)
    then show "snd (memory_apply (head_request c) (memory_unit c))"
      using head_request_facts(2,3) [OF r(1) s] by (rule memory_accepts(1))
  qed
  have wires: "pw_asserts (cycle_wires c) = lsq_plan_asserts (load_store_queue c) (cv_lsq_observe (cycle_view c))"
    by (simp add: cycle_wires_def planned_def Let_def case_prod_beta)
  have e: "issue_effective (cycle_wires c) \<Longrightarrow> issuing c \<noteq> None"
    using issue_effective_iff [OF r(5)] by simp
  show ?thesis
    unfolding cycle_asserts_def Let_def
  proof (intro conjI impI)
    show "pw_asserts (cycle_wires c)" using plan wires by simp
    show "lsq_apply_asserts (ai_lsq_inputs (cycle_inputs c)) (ai_lsq_decision (cycle_inputs c)) (load_store_queue c)"
      by (rule next_lsq(5) [OF r(5,6) fin])
    show "fu_apply_asserts (ai_execute (cycle_inputs c)) (ai_flush (cycle_inputs c))
        (ai_integer_granted (cycle_inputs c)) (functional_unit c)"
      by (rule next_unit(2) [OF r(5) unit])
    show "memory_apply_asserts (ai_memory_request (cycle_inputs c)) (memory_unit c)"
      using mem(1) by (simp add: next_memory(2) [OF r(5)])
    show "memory_latch_asserts (fst (memory_apply (ai_memory_request (cycle_inputs c)) (memory_unit c)))"
      by (rule scheduled_store_fits)
    show "snd (rob_apply (ai_rob_inputs (cycle_inputs c)) (ai_rob_decision (cycle_inputs c)) (rob c))"
      if "issue_effective (cycle_wires c)"
      by (rule next_rob(4) [OF r(5) e [OF that]])
    show "snd (rs_apply (ai_rs_inputs (cycle_inputs c)) (ai_rs_decision (cycle_inputs c)) (reservation_station c))"
      if "issue_effective (cycle_wires c)" "io_write_rs (pw_issue_outputs (cycle_wires c))"
      using that(2) by (intro next_rs(3) [OF r(5) _ e [OF that(1)]]) (simp add: issue_out_def)
    show "snd (lsq_apply (ai_lsq_inputs (cycle_inputs c)) (ai_lsq_decision (cycle_inputs c)) (load_store_queue c))"
      if "issue_effective (cycle_wires c)" "io_write_lsq (pw_issue_outputs (cycle_wires c))"
      using that(2) by (intro next_lsq(4) [OF r(5,6) _ e [OF that(1)]]) (simp add: issue_out_def)
    show "snd (fu_apply (ai_execute (cycle_inputs c)) (ai_flush (cycle_inputs c))
        (ai_integer_granted (cycle_inputs c)) (functional_unit c))"
      if "rso_dispatch_valid (rsd_outputs (pw_rs_decision (cycle_wires c)))
        \<and> rsi_fu_available (ai_rs_inputs (cycle_inputs c)) \<and> \<not> cv_flush (cycle_view c)"
      by (rule next_unit(3) [OF r(5) unit that])
    show "snd (memory_apply (ai_memory_request (cycle_inputs c)) (memory_unit c))"
      if "rq_valid (lo_memory_request (ld_outputs (pw_lsq_decision (cycle_wires c))))"
      using that mem(2) by (simp add: next_memory(2,3) [OF r(5)])
  qed
qed

section \<open>One cycle against the sequential machine\<close>

text \<open>Instructions are never overwritten between the time they may be fetched and their execution.\<close>

definition code_stable :: "isa_state \<Rightarrow> bool" where
  "code_stable s0 \<longleftrightarrow> (\<forall>s t. isa_reach s0 s \<longrightarrow> isa_reach s t \<longrightarrow>
     read_word (isa_mem s) (isa_pc t) = read_word (isa_mem t) (isa_pc t))"

lemma code_stable_reach: "code_stable s0 \<Longrightarrow> isa_reach s0 s \<Longrightarrow> code_stable s"
  using isa_reach_trans unfolding code_stable_def by blast

lemma stable_fetch:
  assumes "memory_is s c" and "code_stable s"
  shows "fetch_right s c"
  unfolding fetch_right_def
proof (intro allI impI)
  fix t assume t: "final (Some s) (rob_entries c) = Some t"
  show "read_word (core_memory c) (isa_pc t) = read_word (isa_mem t) (isa_pc t)"
  proof (cases "store_applied c")
    case False
    then have "isa_mem s = core_memory c" using assms(1) by (simp add: memory_is_def)
    then show ?thesis
      using assms(2) isa_refl final_reach [OF t] unfolding code_stable_def by metis
  next
    case True
    then obtain u where u: "isa_step s = Step u" "isa_mem u = core_memory c"
      using assms(1) by (auto simp: memory_is_def)
    obtain h es where l: "rob_entries c = h # es" using True by (cases "rob_entries c") (auto simp: store_applied_def)
    obtain v where v: "gnext (Some s) h = Some v" "final (Some v) es = Some t"
      using t l by (cases "gnext (Some s) h") auto
    have "v = u" using gnext_SomeD [OF v(1)] u(1) by simp
    then have "isa_reach u t" using final_reach [OF v(2)] by simp
    then show ?thesis
      using assms(2) isa_reach_step [OF u(1)] u(2) unfolding code_stable_def by metis
  qed
qed

lemma halt_commit:
  assumes "related s c" and "commits_halt c"
  shows "isa_step s = Halted (exit_code (next_cpu c))" "cpu_status (next_cpu c) = CpuHalted"
    "committed_count (next_cpu c) = committed_count c"
proof -
  note r = relatedD [OF assms(1)]
  have h: "head_commits (rob c)" "re_op (hd (rob_entries c)) = OP_HALT"
    using assms(2) by (simp_all add: commits_halt_def)
  have ne: "rob_entries c \<noteq> []" using h(1) by (simp add: head_commits_def)
  have "entry_ok (hd (rob_entries c)) s"
    using r(2) entries_okD [OF _ head_on_path [OF ne]] by (simp add: flight_right_def)
  then obtain d where d: "here s = Some d" "di_op d = OP_HALT"
    using h(2) by (auto simp: entry_ok_def entry_at_def)
  have "rf_read (register_file c) 10 = isa_regs s 10" using r(4) by (simp add: state_is_def)
  then show "isa_step s = Halted (exit_code (next_cpu c))"
    using d h by (simp add: isa_step_here isa_exec_def next_control(4) [OF r(5)])
  show "cpu_status (next_cpu c) = CpuHalted" "committed_count (next_cpu c) = committed_count c"
    using h by (simp_all add: next_control(3,5) [OF r(5)])
qed

text \<open>With an empty reorder buffer the core fetches the next instruction of the sequential machine.\<close>

lemma empty_fetch:
  assumes "related s c" and "rob_entries c = []"
  shows "fetched c = read_word (isa_mem s) (isa_pc s)"
proof -
  note r = relatedD [OF assms(1)]
  have "current_pc c = isa_pc s" using r(4) assms(2) by (simp add: state_is_def)
  moreover have "isa_mem s = core_memory c"
    using r(4) assms(2) by (simp add: state_is_def memory_is_def store_applied_def)
  ultimately show ?thesis by (simp add: fetched_def)
qed

text \<open>
  A failing load behind a control instruction that does not go where it was predicted to go: the
  instructions \<open>pre\<close> lead the sequential machine to the state \<open>t\<close>, in which the control instruction
  \<open>x\<close> goes elsewhere, and the load belongs to a younger entry.
\<close>

definition wrong_path_load :: "isa_state \<Rightarrow> CPU \<Rightarrow> bool" where
  "wrong_path_load s c \<longleftrightarrow> response_for_head c \<and> \<not> rsp_success (response c)
     \<and> le_type (hd (lsq_entries c)) = LOAD
     \<and> (\<exists>pre x mid e post t u. rob_entries c = pre @ x # mid @ e # post
          \<and> re_tag e = le_destination (hd (lsq_entries c)) \<and> is_control_instruction x
          \<and> final (Some s) pre = Some t \<and> isa_step t = Step u \<and> isa_pc u \<noteq> re_predicted_next_pc x)"

text \<open>Where the path ends before an entry.\<close>

lemma path_ends:
  assumes "(e, None) \<in> set (annot (Some s) es)"
  shows "\<exists>pre x mid post t. es = pre @ x # mid @ e # post \<and> final (Some s) pre = Some t \<and> gnext (Some t) x = None"
  using assms
proof (induction es arbitrary: s)
  case (Cons y ys)
  then have e: "(e, None) \<in> set (annot (gnext (Some s) y) ys)" by auto
  show ?case
  proof (cases "gnext (Some s) y")
    case None
    have "e \<in> set ys" by (rule annot_entry [OF e])
    then obtain mid post where "ys = mid @ e # post" by (meson split_list)
    then have "y # ys = [] @ y # mid @ e # post" "final (Some s) [] = Some s" by simp_all
    then show ?thesis using None by blast
  next
    case (Some u)
    obtain pre x mid post t where "ys = pre @ x # mid @ e # post" "final (Some u) pre = Some t" "gnext (Some t) x = None"
      using Cons.IH [of u] e Some by auto
    then have "y # ys = (y # pre) @ x # mid @ e # post" "final (Some s) (y # pre) = Some t" "gnext (Some t) x = None"
      using Some by simp_all
    then show ?thesis by blast
  qed
qed simp

lemma path_at: "es = pre @ x # post \<Longrightarrow> (x, final g pre) \<in> set (annot g es)"
  by (simp add: annot_append_list)

lemma off_path_reason:
  assumes "related s c" and "orderly c" and "(e, None) \<in> set (path s c)"
  shows "(\<exists>t. isa_reach s t \<and> isa_step t = MemFault)
    \<or> (\<exists>pre x mid post t u. rob_entries c = pre @ x # mid @ e # post \<and> is_control_instruction x
          \<and> final (Some s) pre = Some t \<and> isa_step t = Step u \<and> isa_pc u \<noteq> re_predicted_next_pc x)"
proof -
  note r = relatedD [OF assms(1)]
  obtain pre x mid post t where p: "rob_entries c = pre @ x # mid @ e # post" "final (Some s) pre = Some t"
      "gnext (Some t) x = None"
    using path_ends [OF assms(3)] by blast
  have xin: "(x, Some t) \<in> set (path s c)" using path_at [of "rob_entries c" pre x "mid @ e # post" "Some s"] p by simp
  then have ok: "entry_ok x t" using entries_okD [OF _ xin] r(2) by (simp add: flight_right_def)
  then obtain d where d: "here t = Some d" "re_op x = di_op d" "re_is_branch x = di_is_branch d"
      "re_is_jump x = di_is_jump d" "\<not> di_is_branch d \<and> \<not> di_is_jump d \<Longrightarrow> re_predicted_next_pc x = isa_pc t + 4"
    by (auto simp: entry_ok_def entry_at_def)
  have "x \<in> set (butlast (rob_entries c))" using p(1) by (simp add: butlast_append)
  then have nh: "di_op d \<noteq> OP_HALT"
    using assms(2) d(2) by (auto simp: orderly_def halt_last_def dest: in_set_butlastD split: if_splits)
  have "entry_wf x" using r(1) p(1) by (simp add: queues_ok_def)
  then have ni: "di_op d \<noteq> OP_INVALID" using d(2) by (simp add: entry_wf_def)
  show ?thesis
  proof (cases "isa_step t")
    case (Step u)
    then have pc: "isa_pc u \<noteq> re_predicted_next_pc x" using p(3) by (simp split: if_splits)
    have "isa_pc u = isa_next_pc d t" by (rule isa_step_StepD(1) [OF Step d(1)])
    then have "is_control_instruction x"
      using pc d(3-5) isa_next_pc_plain [of d t] decoded_wfD(6,7) [OF here_wf [OF d(1)]]
      by (auto simp: is_control_instruction_def)
    then show ?thesis using p(1,2) Step pc by blast
  next
    case MemFault
    have "isa_reach s t" by (rule annot_reach [OF xin])
    then show ?thesis using MemFault by blast
  qed (use nh ni d(1) in \<open>auto simp: isa_step_here isa_exec_def split: option.splits if_splits\<close>)
qed

lemma failed_access:
  assumes "related s c" and "response_for_head c" and "\<not> rsp_success (response c)" and "orderly c"
  shows "(\<exists>t. isa_reach s t \<and> isa_step t = MemFault) \<or> wrong_path_load s c"
proof -
  note r = relatedD [OF assms(1)]
  let ?q = "hd (lsq_entries c)"
  have ph: "in_phase Answered c" by (rule response_phase [OF r(1,3) assms(2)])
  then have hs: "head_sent (lsq_entries c)" and ne: "lsq_entries c \<noteq> []" by (simp_all add: head_sent_def)
  have bad: "\<not> in_bounds (le_address ?q) (width_in_bytes (memory_width (le_op ?q)))"
    using ph assms(3) by (simp add: answers_head_def)
  have ar: "access_right (path s c) ?q" using r(2) ne by (simp add: flight_right_def)
  have ok: "le_address_ready ?q" "le_type ?q = STORE \<Longrightarrow> opd_ready (le_store_data ?q)"
    using r(3) hs by (simp_all add: traffic_ok_def sent_ok_def Let_def)
  have wf: "if le_type ?q = LOAD then load_op (le_op ?q) else store_op (le_op ?q)"
      "opd_ready (le_base ?q)" "le_address ?q = opd_value (le_base ?q) + le_immediate ?q"
    using ar ok by (simp_all add: access_right_def access_wf_def)
  obtain e where e: "e \<in> set (rob_entries c)" "re_tag e = le_destination ?q"
    using hd_access [OF r(1) ne] by auto
  obtain g where g: "(e, g) \<in> set (path s c)" using annot_exists [OF e(1)] by blast
  have on: "on_path (path s c) (le_destination ?q) (\<lambda>e t d.
          le_op ?q = di_op d \<and> le_immediate ?q = di_immediate d
          \<and> operand_for (pending (path s c)) (isa_rs1 d t) (le_base ?q)
          \<and> (le_type ?q = STORE \<longrightarrow> operand_for (pending (path s c)) (isa_rs2 d t) (le_store_data ?q)))"
    using ar by (simp add: access_right_def)
  have fault: "isa_step t = MemFault" if gt: "g = Some t" and mem: "isa_mem t = core_memory c" for t
  proof -
    obtain d where d: "here t = Some d" "le_op ?q = di_op d" "le_immediate ?q = di_immediate d"
        "isa_rs1 d t = opd_value (le_base ?q)"
      using on_pathD [OF on g [unfolded gt] e(2)] wf(2) by (auto simp: operand_for_def)
    have a: "isa_address d t = le_address ?q" using d wf(3) by (simp add: isa_address_def)
    show ?thesis
    proof (cases "le_type ?q")
      case LOAD
      then have "load_op (di_op d)" using wf(1) d(2) by simp
      then have "isa_load (di_op d) (isa_mem t) (isa_address d t) = None"
        using bad loaded_value [of "di_op d" "isa_mem t" "isa_address d t"] by (simp add: a d(2) read_data_success)
      then show ?thesis
        using \<open>load_op (di_op d)\<close> op_class_cases(1) [of "di_op d"] d(1) by (simp add: isa_step_here isa_exec_def)
    next
      case STORE
      then have "store_op (di_op d)" using wf(1) d(2) by simp
      then have "isa_store (di_op d) (isa_mem t) (isa_address d t) (isa_rs2 d t) = None"
        using bad stored_image [of "di_op d"] by (simp add: a d(2))
      then show ?thesis
        using \<open>store_op (di_op d)\<close> op_class_cases(2) [of "di_op d"] d(1) by (simp add: isa_step_here isa_exec_def)
    qed
  qed
  show ?thesis
  proof (cases "le_type ?q")
    case STORE
    note h = sent_store_head [OF r(1-3) hs STORE]
    have he: "hd (rob_entries c) = e" using h(1,2) e(2) by (intro same_tag [OF r(5) _ e(1)]) simp_all
    have g: "g = Some s"
      using unique_tag [OF distinct_tags [OF shapesD(1) [OF r(5)]] head_on_path [OF h(1)] g] he by simp
    have "\<not> store_applied c" using h(3) assms(3) by (simp add: store_applied_def memory_waiting_def)
    then have "isa_mem s = core_memory c" using r(4) by (simp add: state_is_def memory_is_def)
    then show ?thesis using fault [OF g] isa_refl by blast
  next
    case LOAD
    show ?thesis
    proof (cases g)
      case None
      then show ?thesis
        using off_path_reason [OF assms(1,4)] assms(2,3) LOAD g e(2) unfolding wrong_path_load_def by blast
    next
      case (Some t)
      have "memory_is s c" using r(4) by (simp add: state_is_def)
      then have "isa_mem t = core_memory c"
        using g Some e(2) by (intro load_memory [OF r(1-3) _ hs LOAD]) simp_all
      then show ?thesis using fault [OF Some] annot_reach g Some by blast
    qed
  qed
qed

section \<open>Runs\<close>

text \<open>After \<open>n\<close> instructions of the sequential machine.\<close>

definition tracks :: "isa_state \<Rightarrow> nat \<Rightarrow> isa_state \<Rightarrow> CPU \<Rightarrow> bool" where
  "tracks s0 n s c \<longleftrightarrow> isa_run n s0 = Step s \<and> related s c \<and> committed_count c = of_nat n
     \<and> orderly c \<and> orders_ok c \<and> cpu_status c = CpuRunning"

text \<open>The sequential machine performs \<open>n\<close> instructions and stops with \<open>r\<close> at the next one.\<close>

definition stops_after :: "nat \<Rightarrow> isa_state \<Rightarrow> isa_outcome \<Rightarrow> bool" where
  "stops_after n s0 r \<longleftrightarrow> (\<exists>s. isa_run n s0 = Step s \<and> isa_step s = r) \<and> (\<forall>t. r \<noteq> Step t)"

text \<open>
  How a run of the core may end.  An access fault is noticed when the memory answers, before older
  instructions have committed, so that the count may be smaller than that of the sequential machine.
\<close>

definition ends_right :: "isa_state \<Rightarrow> CPU \<Rightarrow> bool" where
  "ends_right s0 c \<longleftrightarrow>
     (case cpu_status c of
        CpuHalted \<Rightarrow> \<exists>n. stops_after n s0 (Halted (exit_code c)) \<and> committed_count c = of_nat n
      | CpuFetchOutOfBound \<Rightarrow> \<exists>n. stops_after n s0 FetchFault \<and> committed_count c = of_nat n
      | CpuInvalidInstruction \<Rightarrow> \<exists>n. stops_after n s0 Illegal \<and> committed_count c = of_nat n
      | CpuMemoryOutOfBound \<Rightarrow> (\<exists>m t. isa_run m s0 = Step t \<and> committed_count c = of_nat m
          \<and> ((\<exists>n \<ge> m. stops_after n s0 MemFault)
             \<or> (\<exists>n s b. tracks s0 n s b \<and> cycle b = Some c \<and> wrong_path_load s b)))
      | _ \<Rightarrow> False)"

lemma isa_run_Suc: "isa_run n s0 = Step s \<Longrightarrow> isa_run (Suc n) s0 = isa_step s"
proof (induction n arbitrary: s0)
  case 0
  then show ?case by (simp split: isa_outcome.split)
next
  case (Suc n)
  obtain t where t: "isa_step s0 = Step t" "isa_run n t = Step s"
    using Suc.prems by (auto split: isa_outcome.splits)
  then show ?case using Suc.IH [OF t(2)] by simp
qed

lemma isa_run_reach: "isa_run n s0 = Step s \<Longrightarrow> isa_reach s0 s"
proof (induction n arbitrary: s)
  case 0
  then show ?case by (simp add: isa_refl)
next
  case (Suc n)
  have "\<exists>t. isa_run n s0 = Step t"
    using Suc.prems by (induction n arbitrary: s0) (auto split: isa_outcome.splits)
  then obtain t where t: "isa_run n s0 = Step t" by blast
  then show ?case using Suc isa_run_Suc [OF t] by (auto intro: isa_more)
qed

lemma isa_reach_run: "isa_reach s t \<Longrightarrow> \<exists>n. isa_run n s = Step t"
proof (induction rule: isa_reach.induct)
  case (isa_refl s)
  then show ?case by (intro exI [of _ 0]) simp
next
  case (isa_more s t u)
  then show ?case using isa_run_Suc by metis
qed

declare isa_run.simps(2) [simp del]

lemma isa_run_prefix:
  assumes "isa_run (m + n) s0 = Step t"
  shows "\<exists>u. isa_run m s0 = Step u"
  using assms
proof (induction m arbitrary: s0)
  case (Suc m)
  then show ?case by (auto simp: isa_run.simps(2) split: isa_outcome.splits)
qed simp

lemma stops_bound:
  assumes "stops_after n s0 r" and "isa_run m s0 = Step t"
  shows "m \<le> n"
proof (rule ccontr)
  assume "\<not> m \<le> n"
  then have "isa_run (Suc n + (m - Suc n)) s0 = Step t" using assms(2) by simp
  then show False
    using assms(1) isa_run_prefix [of "Suc n" "m - Suc n" s0] isa_run_Suc by (fastforce simp: stops_after_def)
qed

lemma stops_unique:
  assumes "stops_after n s0 r" and "stops_after m s0 q"
  shows "n = m" "r = q"
proof -
  show "n = m"
    using stops_bound [OF assms(1)] stops_bound [OF assms(2)] assms
    by (auto simp: stops_after_def intro: le_antisym)
  then show "r = q" using assms by (auto simp: stops_after_def)
qed

lemma run_stops:
  assumes "isa_run n s0 = r" and "\<forall>t. r \<noteq> Step t"
  shows "\<exists>m < n. stops_after m s0 r"
  using assms(1)
proof (induction n)
  case (Suc n)
  show ?case
  proof (cases "\<exists>s. isa_run n s0 = Step s")
    case True
    then obtain s where s: "isa_run n s0 = Step s" by blast
    then have "stops_after n s0 r" using Suc.prems isa_run_Suc [OF s] assms(2) by (simp add: stops_after_def)
    then show ?thesis by blast
  next
    case False
    then have "isa_run (Suc n) s0 = isa_run n s0"
    proof (induction n arbitrary: s0)
      case (Suc n)
      then show ?case by (cases "isa_step s0") (simp_all add: isa_run.simps(2))
    qed simp
    then show ?thesis using Suc less_SucI by metis
  qed
qed (use assms(2) in auto)

lemma stops_run: "stops_after n s0 r \<Longrightarrow> isa_run (Suc n) s0 = r"
  using isa_run_Suc by (auto simp: stops_after_def)

lemma tracks_ends:
  assumes "tracks s0 n s c" and "code_stable s0" and "cpu_status (next_cpu c) \<noteq> CpuRunning"
    and "cycle c = Some (next_cpu c)"
  shows "ends_right s0 (next_cpu c)"
proof -
  have t: "isa_run n s0 = Step s" "related s c" "committed_count c = of_nat n" "cpu_status c = CpuRunning"
      "orderly c"
    using assms(1) by (simp_all add: tracks_def)
  note r = relatedD [OF t(2)]
  note st = next_control(5) [OF r(5)]
  consider (halt) "commits_halt c"
    | (mem) "\<not> commits_halt c" "response_for_head c" "\<not> rsp_success (response c)"
    | (none) "\<not> commits_halt c" "\<not> (response_for_head c \<and> \<not> rsp_success (response c))" by blast
  then show ?thesis
  proof cases
    case halt
    show ?thesis
      using halt_commit [OF t(2) halt] t(1,3) by (auto simp: ends_right_def stops_after_def)
  next
    case mem
    have s: "cpu_status (next_cpu c) = CpuMemoryOutOfBound"
      using mem st by (simp add: commits_halt_def)
    define m where "m = (if head_commits (rob c) then Suc n else n)"
    have m: "committed_count (next_cpu c) = of_nat m"
      using mem(1) t(3) by (simp add: next_control(3) [OF r(5)] m_def commits_halt_def)
    have "\<exists>u. isa_run m s0 = Step u"
    proof (cases "head_commits (rob c)")
      case True
      have "isa_step s = Step (commit_state s c)" by (rule head_commit [OF r(2) True mem(1)])
      then show ?thesis using isa_run_Suc [OF t(1)] True by (simp add: m_def)
    qed (use t(1) m_def in simp)
    then obtain v where v: "isa_run m s0 = Step v" by blast
    show ?thesis
      using failed_access [OF t(2) mem(2,3) t(5)]
    proof
      assume "\<exists>u. isa_reach s u \<and> isa_step u = MemFault"
      then obtain u where u: "isa_reach s u" "isa_step u = MemFault" by blast
      have "isa_reach s0 u" by (rule isa_reach_trans [OF isa_run_reach [OF t(1)] u(1)])
      then obtain k where "isa_run k s0 = Step u" using isa_reach_run by blast
      then have k: "stops_after k s0 MemFault" using u(2) by (auto simp: stops_after_def)
      then have "m \<le> k" by (rule stops_bound [OF _ v])
      then show ?thesis using k m v by (auto simp: ends_right_def s)
    next
      assume "wrong_path_load s c"
      then show ?thesis using assms(1,4) m v by (auto simp: ends_right_def s)
    qed
  next
    case none
    let ?fetch = "fetching c \<and> rob_entries c = [] \<and> fetched c = None"
    let ?bad = "fetching c \<and> rob_entries c = [] \<and> (\<exists>w. fetched c = Some w \<and> di_op (decode w) = OP_INVALID)"
    have s: "cpu_status (next_cpu c) = (if ?fetch then CpuFetchOutOfBound
        else if ?bad then CpuInvalidInstruction else CpuRunning)"
      unfolding st by (simp only: none(1) [unfolded commits_halt_def] none(2) t(4) if_False)
    have e: "rob_entries c = []" using s assms(3) by (auto split: if_splits)
    then have cnt: "committed_count (next_cpu c) = of_nat n"
      using t(3) by (simp add: next_control(3) [OF r(5)] head_commits_def)
    note f = empty_fetch [OF t(2) e]
    show ?thesis
    proof (cases ?fetch)
      case True
      then have "isa_step s = FetchFault" using f by (simp add: isa_step_def)
      then have "stops_after n s0 FetchFault" using t(1) by (simp add: stops_after_def)
      then show ?thesis using cnt s True by (auto simp: ends_right_def)
    next
      case False
      then have b: ?bad using s assms(3) by (auto split: if_splits)
      then have "isa_step s = Illegal" using f by (auto simp: isa_step_def isa_exec_def)
      then have "stops_after n s0 Illegal" using t(1) by (simp add: stops_after_def)
      then show ?thesis using cnt s False b by (auto simp: ends_right_def)
    qed
  qed
qed

lemma tracks_going_on:
  assumes "tracks s0 n s c" and "code_stable s0" and "cpu_status (next_cpu c) = CpuRunning"
  shows "going_on s c"
proof -
  have t: "isa_run n s0 = Step s" "related s c" using assms(1) by (simp_all add: tracks_def)
  note r = relatedD [OF t(2)]
  have nh: "\<not> commits_halt c" using halt_commit(2) [OF t(2)] assms(3) by auto
  have ok: "response_for_head c \<longrightarrow> rsp_success (response c)"
    using assms(3) nh by (auto simp: next_control(5) [OF r(5)] commits_halt_def split: if_splits)
  have "memory_is s c" using r(4) by (simp add: state_is_def)
  then have "fetch_right s c"
    by (rule stable_fetch) (rule code_stable_reach [OF assms(2) isa_run_reach [OF t(1)]])
  then show ?thesis using t(2) nh ok by (simp add: going_on_def)
qed

lemma tracks_cycle:
  assumes "tracks s0 n s c" and "code_stable s0"
  shows "cycle c = Some (next_cpu c)"
    and "cpu_status (next_cpu c) = CpuRunning \<Longrightarrow>
      if head_commits (rob c) then tracks s0 (Suc n) (commit_state s c) (next_cpu c)
      else tracks s0 n s (next_cpu c)"
    and "cpu_status (next_cpu c) \<noteq> CpuRunning \<Longrightarrow> ends_right s0 (next_cpu c)"
proof -
  have t: "isa_run n s0 = Step s" "related s c" "committed_count c = of_nat n" "orders_ok c" "cpu_status c = CpuRunning"
      "orderly c"
    using assms(1) by (simp_all add: tracks_def)
  note r = relatedD [OF t(2)]
  show cyc: "cycle c = Some (next_cpu c)"
    using related_asserts [OF t(2)] cycle_canonical [OF t(4,5)] by simp
  show "cpu_status (next_cpu c) \<noteq> CpuRunning \<Longrightarrow> ends_right s0 (next_cpu c)"
    by (rule tracks_ends [OF assms _ cyc])
  assume run: "cpu_status (next_cpu c) = CpuRunning"
  note g = tracks_going_on [OF assms run]
  have nh: "\<not> commits_halt c" by (rule going_onD(7) [OF g])
  note nx = next_related [OF g] next_orderly [OF g t(6)]
  show "if head_commits (rob c) then tracks s0 (Suc n) (commit_state s c) (next_cpu c)
      else tracks s0 n s (next_cpu c)"
  proof (cases "head_commits (rob c)")
    case True
    have "isa_step s = Step (commit_state s c)" by (rule head_commit [OF r(2) True nh])
    then have "isa_run (Suc n) s0 = Step (commit_state s c)" using isa_run_Suc [OF t(1)] by simp
    moreover have "committed_count (next_cpu c) = of_nat (Suc n)"
      using True nh t(3) by (simp add: next_control(3) [OF r(5)] commits_halt_def)
    ultimately show ?thesis using nx run orders_ok_next [OF t(4)] True by (simp add: tracks_def)
  next
    case False
    have "commit_state s c = s" using False by (simp add: commit_state_def)
    moreover have "committed_count (next_cpu c) = of_nat n"
      using False t(3) by (simp add: next_control(3) [OF r(5)])
    ultimately show ?thesis using nx run orders_ok_next [OF t(4)] False t(1) by (simp add: tracks_def)
  qed
qed

end
