(* ===== verification/CoreCorrect.thy ===== *)
theory CoreCorrect
  imports CoreRun
begin

text \<open>
  Runs of the whole core: a freshly loaded core is related to the sequential machine at address 0,
  and every bounded run of the loop is behind the sequential machine or has ended as it does.
\<close>

section \<open>A freshly loaded core\<close>

definition start_state :: "CPU \<Rightarrow> isa_state" where
  "start_state c = \<lparr>isa_pc = 0, isa_regs = (\<lambda>_. 0), isa_mem = core_memory c\<rparr>"

lemma reset_records:
  "rob_reset r = reorder_buffer_new" "rs_reset s = reservation_station_new"
  "lsq_reset q = load_store_queue_new" "fu_reset f = functional_unit_new"
  "register_file_reset g = register_file_new" "rat_reset t = rename_table_new"
  by (simp_all add: rob_reset_def reorder_buffer_new_def rs_reset_def reservation_station_new_def
      lsq_reset_def load_store_queue_new_def fu_reset_def functional_unit_new_def
      register_file_reset_def register_file_new_def rat_reset_def rename_table_new_def)

lemma loaded_fields:
  "rob (snd (cpu_load inputs c)) = reorder_buffer_new"
  "reservation_station (snd (cpu_load inputs c)) = reservation_station_new"
  "load_store_queue (snd (cpu_load inputs c)) = load_store_queue_new"
  "functional_unit (snd (cpu_load inputs c)) = functional_unit_new"
  "register_file (snd (cpu_load inputs c)) = register_file_new"
  "rename_table (snd (cpu_load inputs c)) = rename_table_new"
  "current_pc (snd (cpu_load inputs c)) = 0" "fetch_stopped (snd (cpu_load inputs c)) = False"
  "committed_count (snd (cpu_load inputs c)) = 0"
  "transaction (snd (cpu_load inputs c)) = transaction_default"
  "response (snd (cpu_load inputs c)) = response_default"
  "load_ok (fst (cpu_load inputs c)) \<Longrightarrow> cpu_status (snd (cpu_load inputs c)) = CpuRunning"
  by (simp_all add: cpu_load_def Let_def case_prod_beta reset_records memory_load_def memory_reset_def)

lemma new_lists:
  "rob_list reorder_buffer_new = []" "lsq_list load_store_queue_new = []"
  "rs_bag reservation_station_new = {#}" "fu_current_result functional_unit_new = fu_result_default"
  "lsq_cur_load_result load_store_queue_new = fu_result_default"
  "rf_read register_file_new r = 0"
proof -
  show "rob_list reorder_buffer_new = []"
    by (subst rob_list_Nil) (simp add: reorder_buffer_new_def rob_reset_def)
  show "lsq_list load_store_queue_new = []"
    by (subst lsq_list_Nil) (simp add: load_store_queue_new_def lsq_reset_def)
  show "rs_bag reservation_station_new = {#}"
    by (simp add: rs_bag_def reservation_station_new_def rs_reset_def rs_entry_default_def)
  show "fu_current_result functional_unit_new = fu_result_default"
    by (simp add: functional_unit_new_def fu_reset_def)
  show "lsq_cur_load_result load_store_queue_new = fu_result_default"
    by (simp add: load_store_queue_new_def lsq_reset_def)
  show "rf_read register_file_new r = 0"
    by (simp add: rf_read_def register_file_new_def register_file_reset_def Let_def)
qed

lemma lsq_invar_new: "lsq_invar load_store_queue_new"
  by (simp add: lsq_invar_def load_store_queue_new_def lsq_reset_def lsq_kCapacity_def
      ring_ok_clear [of 0 16 "\<lambda>_. le_valid" lsq_entry_default])

lemma loaded_related:
  fixes inputs :: istream and b :: CPU
  defines "c \<equiv> snd (cpu_load inputs b)"
  shows "related (start_state c) c"
proof -
  note f = loaded_fields [of inputs b, folded c_def]
  have "shapes c"
    by (simp add: shapes_def f rob_invar_new lsq_invar_new rs_invar_new)
  then have q: "queues_ok c"
    by (simp add: queues_ok_def f new_lists stores_wait_def unit_accounted_def memory_accounted_def
        result_tags_def fu_result_default_def renames_def writers_def)
  have fl: "flight_right (start_state c) c"
    by (simp add: flight_right_def f new_lists entries_ok_def unit_right_def load_right_def fu_result_default_def)
  have "in_phase Idle c"
    by (simp add: f new_lists transaction_default_def response_default_def all_unsent_def)
  then have t: "traffic_ok c"
    by (auto simp: traffic_ok_def sent_ok_def head_sent_def f new_lists simp del: in_phase.simps)
  have "state_is (start_state c) c"
    by (simp add: state_is_def start_state_def f new_lists memory_is_def store_applied_def)
  then show ?thesis using q fl t by (simp add: related_def)
qed

lemma loaded_orderly: "orderly (snd (cpu_load inputs b))"
  by (simp add: orderly_def loaded_fields new_lists halt_last_def)

lemma loaded_tracks:
  assumes "orders_ok b" and "load_ok (fst (cpu_load inputs b))"
  shows "tracks (start_state (snd (cpu_load inputs b))) 0 (start_state (snd (cpu_load inputs b)))
    (snd (cpu_load inputs b))"
  using loaded_related loaded_orderly loaded_fields(9) [of inputs b] loaded_fields(12) [OF assms(2)]
    cpu_load_orders [OF assms(1)]
  by (simp add: tracks_def)

section \<open>Runs of the loop\<close>

text \<open>The loop of \<open>run\<close>, stopped after \<open>n\<close> cycles at the latest.\<close>

fun cpu_cycles :: "nat \<Rightarrow> CPU \<Rightarrow> CPU option" where
  "cpu_cycles 0 c = Some c"
| "cpu_cycles (Suc n) c =
     (if cpu_status c = CpuRunning
      then (case cycle c of None \<Rightarrow> None | Some d \<Rightarrow> cpu_cycles n d) else Some c)"

lemma cycles_loop: "cpu_cycles n c = Some d \<Longrightarrow> cpu_status d \<noteq> CpuRunning \<Longrightarrow> cpu_loop c = Some d"
proof (induction n arbitrary: c)
  case 0
  then show ?case by (subst cpu_loop.simps) simp
next
  case (Suc n)
  then show ?case by (subst cpu_loop.simps) (auto split: if_splits option.splits)
qed

lemma loop_cycles:
  assumes "cpu_loop c = Some d"
  shows "\<exists>n. cpu_cycles n c = Some d \<and> cpu_status d \<noteq> CpuRunning"
proof (rule cpu_loop.raw_induct [where P = "\<lambda>c d. \<exists>n. cpu_cycles n c = Some d \<and> cpu_status d \<noteq> CpuRunning",
      OF _ assms])
  fix loop c d
  assume IH: "\<And>x y. loop x = Some y \<Longrightarrow> \<exists>n. cpu_cycles n x = Some y \<and> cpu_status y \<noteq> CpuRunning"
    and eq: "(if cpu_status c = CpuRunning
        then (case cycle c of None \<Rightarrow> None | Some c' \<Rightarrow> loop c') else Some c) = Some d"
  show "\<exists>n. cpu_cycles n c = Some d \<and> cpu_status d \<noteq> CpuRunning"
  proof (cases "cpu_status c = CpuRunning")
    case False
    then show ?thesis using eq by (intro exI [of _ 0]) simp
  next
    case True
    then obtain e where e: "cycle c = Some e" "loop e = Some d" using eq by (auto split: option.splits)
    then obtain n where "cpu_cycles n e = Some d" "cpu_status d \<noteq> CpuRunning" using IH by blast
    then show ?thesis using True e(1) by (intro exI [of _ "Suc n"]) simp
  qed
qed

text \<open>Every bounded run is still behind the sequential machine or has ended as it should.\<close>

lemma cycles_track:
  assumes "tracks s0 k s c" and "code_stable s0"
  shows "\<exists>d. cpu_cycles n c = Some d \<and> (if cpu_status d = CpuRunning then \<exists>m t. tracks s0 m t d else ends_right s0 d)"
  using assms(1)
proof (induction n arbitrary: c k s)
  case 0
  then show ?case by (auto simp: tracks_def)
next
  case (Suc n)
  note t = tracks_cycle [OF Suc.prems assms(2)]
  have run: "cpu_status c = CpuRunning" using Suc.prems by (simp add: tracks_def)
  show ?case
  proof (cases "cpu_status (next_cpu c) = CpuRunning")
    case True
    then obtain m u where "tracks s0 m u (next_cpu c)" using t(2) by (metis (full_types))
    then show ?thesis using Suc.IH t(1) run by simp
  next
    case False
    have "cpu_cycles n (next_cpu c) = Some (next_cpu c)" using False by (cases n) simp_all
    then show ?thesis using t(1,3) run False by simp
  qed
qed

end
