(* ===== verification/CoreProgress.thy ===== *)
theory CoreProgress
  imports CoreOrder CoreCorrect
begin

text \<open>
  The core makes progress.  The oldest instruction in flight waits for nobody; wherever its result
  is being computed, a bound on the remaining cycles falls with every cycle until it commits.
\<close>

section \<open>The bus\<close>

abbreviation prefers_load :: "CPU \<Rightarrow> bool" where
  "prefers_load c \<equiv> cdb_prefer_load (common_data_bus c)"

lemma next_preference:
  assumes "shapes c" and "\<not> flushing c"
  shows "prefers_load (next_cpu c) = cd_next_prefer_load (cdb_plan (common_data_bus c)
     \<lparr>ci_integer_result = unit_result c, ci_load_result = loaded c\<rparr>)"
  using assms(2) preview_facts(1) [OF shapesD(1) [OF assms(1)]]
  by (simp add: next_cpu_def Let_def cycle_inputs_def apply_inputs_def cycle_view_def
      cdb_apply_def cdb_latch_def fu_result_def load_result_def)

text \<open>An offered result gets the bus now or in the next cycle.\<close>

lemma unit_bus:
  assumes "shapes c" and "\<not> flushing c" and "fu_valid (unit_result c)" and "tag_valid (fu_tag (unit_result c))"
  shows "co_integer_granted (bus c) \<or> prefers_load c \<and> \<not> prefers_load (next_cpu c)"
  using assms(3,4) bus_plan [OF shapesD(1) [OF assms(1)]] next_preference [OF assms(1,2)] assms(2)
  by (auto simp: cdb_defs valid_candidate_iff cdb_outputs_default_def)

lemma load_bus:
  assumes "shapes c" and "\<not> flushing c" and "fu_valid (loaded c)" and "tag_valid (fu_tag (loaded c))"
  shows "co_load_granted (bus c) \<or> \<not> prefers_load c \<and> prefers_load (next_cpu c)"
  using assms(3,4) bus_plan [OF shapesD(1) [OF assms(1)]] next_preference [OF assms(1,2)] assms(2)
  by (auto simp: cdb_defs valid_candidate_iff cdb_outputs_default_def)

section \<open>The remaining cycles of the oldest instruction\<close>

definition unit_wait :: "CPU \<Rightarrow> nat" where
  "unit_wait c = (if \<not> fu_valid (unit_result c) then 0 else if prefers_load c then 2 else 1)"

definition load_wait :: "CPU \<Rightarrow> nat" where
  "load_wait c = (if prefers_load c then 1 else 2)"

definition access_wait :: "CPU \<Rightarrow> nat" where
  "access_wait c =
     (if le_request_sent (hd (lsq_entries c))
      then (if tx_valid (transaction c) then 3 + tx_remaining_cycles (transaction c) else 3)
      else (if tx_valid (transaction c) then 7 + tx_remaining_cycles (transaction c) else 7))"

text \<open>The oldest instruction can commit after at most \<open>n\<close> cycles.\<close>

definition in_unit :: "CPU \<Rightarrow> RobTag \<Rightarrow> nat \<Rightarrow> bool" where
  "in_unit c t n \<longleftrightarrow> fu_valid (unit_result c) \<and> fu_tag (unit_result c) = t \<and> unit_wait c \<le> n"

definition in_station :: "CPU \<Rightarrow> RobTag \<Rightarrow> nat \<Rightarrow> bool" where
  "in_station c t n \<longleftrightarrow> (\<exists>k. ready_slot (reservation_station c) k
     \<and> rse_destination (rs_cur (reservation_station c) ! k) = t
     \<and> 3 + 3 * slot_distance (reservation_station c) k + unit_wait c \<le> n)"

definition in_load :: "CPU \<Rightarrow> RobTag \<Rightarrow> nat \<Rightarrow> bool" where
  "in_load c t n \<longleftrightarrow> fu_valid (loaded c) \<and> fu_tag (loaded c) = t \<and> load_wait c \<le> n"

definition in_queue :: "CPU \<Rightarrow> RobTag \<Rightarrow> nat \<Rightarrow> bool" where
  "in_queue c t n \<longleftrightarrow> lsq_entries c \<noteq> [] \<and> le_destination (hd (lsq_entries c)) = t \<and> access_wait c \<le> n"

definition due :: "CPU \<Rightarrow> nat \<Rightarrow> bool" where
  "due c n \<longleftrightarrow> rob_entries c \<noteq> [] \<and>
     (let t = re_tag (hd (rob_entries c))
      in re_ready (hd (rob_entries c)) \<or> in_unit c t n \<or> in_station c t n \<or> in_load c t n \<or> in_queue c t n)"

lemma due_head_ready: "rob_entries c \<noteq> [] \<Longrightarrow> re_ready (hd (rob_entries c)) \<Longrightarrow> due c n"
  by (simp add: due_def Let_def)

lemma dueI:
  assumes "rob_entries c \<noteq> []" and "re_tag (hd (rob_entries c)) = t"
    and "in_unit c t n \<or> in_station c t n \<or> in_load c t n \<or> in_queue c t n"
  shows "due c n"
  using assms by (auto simp: due_def Let_def)

section \<open>The oldest instruction is somewhere\<close>

lemma head_waits_for_nobody:
  assumes "queues_ok c" and "orderly c"
  shows "x \<in># rs_bag (reservation_station c) \<Longrightarrow> rse_destination x = re_tag (hd (rob_entries c)) \<Longrightarrow>
      opd_ready (rse_lhs x) \<and> opd_ready (rse_rhs x)"
    and "q \<in> set (lsq_entries c) \<Longrightarrow> le_destination q = re_tag (hd (rob_entries c)) \<Longrightarrow>
      le_address_ready q \<and> (le_type q = STORE \<longrightarrow> opd_ready (le_store_data q))"
proof -
  have d: "distinct (map re_tag (rob_entries c))"
    using assms(1) distinct_tags [OF shapesD(1)] by (simp add: queues_ok_def)
  have no: "\<not> older (rob_entries c) (re_tag (hd (rob_entries c))) t" for t
    using older_first [OF _ d] by blast
  show "opd_ready (rse_lhs x) \<and> opd_ready (rse_rhs x)"
    if "x \<in># rs_bag (reservation_station c)" "rse_destination x = re_tag (hd (rob_entries c))"
  proof -
    have "rs_orderly (rob_entries c) x" using assms(2) that(1) by (simp add: orderly_def)
    then show ?thesis using no that(2) unfolding rs_orderly_def awaits_def by metis
  qed
  show "le_address_ready q \<and> (le_type q = STORE \<longrightarrow> opd_ready (le_store_data q))"
    if "q \<in> set (lsq_entries c)" "le_destination q = re_tag (hd (rob_entries c))"
  proof -
    have q: "access_orderly (rob_entries c) q" "address_settled q" using assms(2) that(1) by (simp_all add: orderly_def)
    then have "opd_ready (le_base q) \<and> (le_type q = STORE \<longrightarrow> opd_ready (le_store_data q))"
      using no that(2) unfolding access_orderly_def awaits_def by metis
    then show ?thesis using q(2) by (simp add: address_settled_def)
  qed
qed

lemma station_slot:
  assumes "shapes c" and "x \<in># rs_bag (reservation_station c)" and "opd_ready (rse_lhs x)" and "opd_ready (rse_rhs x)"
  shows "\<exists>k. ready_slot (reservation_station c) k \<and> rs_cur (reservation_station c) ! k = x"
proof -
  have x: "x \<in> set (rs_cur (reservation_station c))" "rse_busy x" using assms(2) by (simp_all add: rs_bag_def)
  then obtain k where k: "k < length (rs_cur (reservation_station c))" "rs_cur (reservation_station c) ! k = x"
    by (auto simp: in_set_conv_nth)
  then have "k < rs_kCapacity" using shapesD(3) [OF assms(1)] by (simp add: rs_invar_def)
  then show ?thesis using k x assms(3,4) by (auto simp: ready_slot_def)
qed

lemma phase_remaining: "in_phase p c \<Longrightarrow> tx_valid (transaction c) \<Longrightarrow> tx_remaining_cycles (transaction c) \<le> 3"
  by (cases p) simp_all

lemma due_soon:
  assumes "queues_ok c" and "traffic_ok c" and "orderly c" and "rob_entries c \<noteq> []"
  shows "due c 50"
proof -
  let ?h = "hd (rob_entries c)" and ?t = "re_tag (hd (rob_entries c))"
  have sh: "shapes c" using assms(1) by (simp add: queues_ok_def)
  have hr: "?h \<in> set (rob_entries c)" using assms(4) by simp
  have uw: "unit_wait c \<le> 2" and lw: "load_wait c \<le> 2" by (simp_all add: unit_wait_def load_wait_def)
  consider "re_ready ?h" | "unit_waiting ?h" | "memory_waiting ?h"
    by (auto simp: unit_waiting_def memory_waiting_def)
  then show ?thesis
  proof cases
    case 1
    then show ?thesis by (rule due_head_ready [OF assms(4)])
  next
    case 2
    then have "?t \<in># mset (map re_tag (filter unit_waiting (rob_entries c)))" using hr by simp
    then have "?t \<in># image_mset rse_destination (rs_bag (reservation_station c)) + mset (result_tags (unit_result c))"
      using assms(1) by (simp add: queues_ok_def unit_accounted_def)
    then consider (unit) "fu_valid (unit_result c)" "fu_tag (unit_result c) = ?t"
      | (station) x where "x \<in># rs_bag (reservation_station c)" "rse_destination x = ?t"
      by (auto simp: result_tags_def split: if_splits)
    then have "in_unit c ?t 50 \<or> in_station c ?t 50"
    proof cases
      case unit
      then show ?thesis using uw by (simp add: in_unit_def)
    next
      case station
      obtain k where k: "ready_slot (reservation_station c) k" "rs_cur (reservation_station c) ! k = x"
        using head_waits_for_nobody(1) [OF assms(1,3) station] station_slot [OF sh station(1)] by blast
      have "slot_distance (reservation_station c) k < 16" by (simp add: slot_distance_def rs_kCapacity_def)
      then show ?thesis using k station(2) uw by (auto simp: in_station_def intro!: exI [of _ k])
    qed
    then show ?thesis by (intro dueI [OF assms(4) refl]) blast
  next
    case 3
    then obtain ts where "map re_tag (filter memory_waiting (rob_entries c)) = ?t # ts"
      using assms(4) by (cases "rob_entries c") simp_all
    then have eq: "result_tags (loaded c) @ map le_destination (lsq_entries c) = ?t # ts"
      using assms(1) by (simp add: queues_ok_def memory_accounted_def)
    have "in_load c ?t 50 \<or> in_queue c ?t 50"
    proof (cases "fu_valid (loaded c)")
      case True
      then show ?thesis using eq lw by (simp add: result_tags_def in_load_def)
    next
      case False
      obtain p where "in_phase p c" using assms(2) by (auto simp: traffic_ok_def)
      then have "access_wait c \<le> 50" using phase_remaining by (fastforce simp: access_wait_def)
      then show ?thesis
        using eq False by (cases "lsq_entries c") (simp_all add: result_tags_def in_queue_def)
    qed
    then show ?thesis by (intro dueI [OF assms(4) refl]) blast
  qed
qed

section \<open>One cycle of waiting\<close>

lemma waiting_head:
  assumes "going_on s c" and "rob_entries c \<noteq> []" and "\<not> re_ready (hd (rob_entries c))"
  shows "\<not> head_commits (rob c)" "\<not> flushing c" "rob_entries (next_cpu c) \<noteq> []"
    "re_tag (hd (rob_entries (next_cpu c))) = re_tag (hd (rob_entries c))"
    "tag_valid (re_tag (hd (rob_entries c)))"
proof -
  show nc: "\<not> head_commits (rob c)" using assms(3) by (simp add: head_commits_def)
  then show nf: "\<not> flushing c" by (simp add: flushing_def)
  show "rob_entries (next_cpu c) \<noteq> []" "re_tag (hd (rob_entries (next_cpu c))) = re_tag (hd (rob_entries c))"
    using unfinished_head_kept [OF assms(1) nf assms(2,3)] by simp_all
  show "tag_valid (re_tag (hd (rob_entries c)))"
    using rob_entry_facts(2) [OF going_onD(8) [OF assms(1)], of "hd (rob_entries c)"] assms(2) by simp
qed

text \<open>A result that gets the bus finishes its entry.\<close>

lemma completed_head:
  assumes "going_on s c" and "rob_entries c \<noteq> []" and "\<not> re_ready (hd (rob_entries c))"
    and "fu_valid (completion c)" and "fu_tag (completion c) = re_tag (hd (rob_entries c))"
  shows "due (next_cpu c) n"
proof -
  note w = waiting_head [OF assms(1-3)]
  have "re_ready (marked c (hd (rob_entries c)))"
    using assms(2,4,5) marked_ready [OF going_onD(8) [OF assms(1)], of "hd (rob_entries c)"] by simp
  then show ?thesis
    using unfinished_head_kept [OF assms(1) w(2) assms(2,3)] by (intro due_head_ready) simp_all
qed

lemma unit_stays:
  assumes "going_on s c" and "\<not> flushing c" and "fu_valid (unit_result c)" and "\<not> co_integer_granted (bus c)"
  shows "unit_result (next_cpu c) = unit_result c" "prefers_load c" "unit_wait c = 2" "unit_wait (next_cpu c) = 1"
    "\<not> unit_free c"
proof -
  note g = going_onD [OF assms(1)]
  show nfree: "\<not> unit_free c" using assms(3,4) by (simp add: unit_free_def)
  then have "dispatched c = None" by (simp add: dispatched_def)
  then show same: "unit_result (next_cpu c) = unit_result c"
    using assms(2,4) by (simp add: next_unit(1) [OF g(8)])
  obtain e where "e \<in> set (rob_entries c)" "re_tag e = fu_tag (unit_result c)"
    using unit_result_tag [OF g(1) assms(3)] by blast
  then have "tag_valid (fu_tag (unit_result c))" using rob_entry_facts(2) [OF g(8), of e] by simp
  then have "prefers_load c \<and> \<not> prefers_load (next_cpu c)"
    using unit_bus [OF g(8) assms(2,3)] assms(4) by blast
  then show "prefers_load c" "unit_wait c = 2" "unit_wait (next_cpu c) = 1"
    using assms(3) same by (simp_all add: unit_wait_def)
qed

lemma due_in_unit:
  assumes "going_on s c" and "rob_entries c \<noteq> []" and "\<not> re_ready (hd (rob_entries c))"
    and "in_unit c (re_tag (hd (rob_entries c))) (Suc n)"
  shows "due (next_cpu c) n"
proof -
  note w = waiting_head [OF assms(1-3)]
  have u: "fu_valid (unit_result c)" "fu_tag (unit_result c) = re_tag (hd (rob_entries c))" "unit_wait c \<le> Suc n"
    using assms(4) by (simp_all add: in_unit_def)
  show ?thesis
  proof (cases "co_integer_granted (bus c)")
    case True
    then show ?thesis
      using u integer_granted_valid [OF going_onD(8) [OF assms(1)] True] by (intro completed_head [OF assms(1-3)]) simp_all
  next
    case False
    note st = unit_stays [OF assms(1) w(2) u(1) False]
    have "in_unit (next_cpu c) (re_tag (hd (rob_entries c))) n" using u st by (simp add: in_unit_def)
    then show ?thesis by (intro dueI [OF w(3,4)]) blast
  qed
qed

lemma due_in_station:
  assumes "going_on s c" and "rob_entries c \<noteq> []" and "\<not> re_ready (hd (rob_entries c))"
    and "in_station c (re_tag (hd (rob_entries c))) (Suc n)"
  shows "due (next_cpu c) n"
proof -
  note g = going_onD [OF assms(1)]
  note w = waiting_head [OF assms(1-3)]
  let ?s = "reservation_station c" and ?t = "re_tag (hd (rob_entries c))"
  obtain k where k: "ready_slot ?s k" "rse_destination (rs_cur ?s ! k) = ?t"
      "3 + 3 * slot_distance ?s k + unit_wait c \<le> Suc n"
    using assms(4) by (auto simp: in_station_def)
  note i = station_inputs [OF g(8)]
  have inv: "rs_invar ?s" by (rule shapesD(3) [OF g(8)])
  have uw: "unit_wait (next_cpu c) \<le> 2" by (simp add: unit_wait_def)
  have "in_unit (next_cpu c) ?t n \<or> in_station (next_cpu c) ?t n"
  proof (cases "unit_free c")
    case True
    show ?thesis
    proof (cases "select_ready_index ?s = k")
      case sel: True
      have "k \<noteq> rs_kInvalidIndex" using k(1) by (simp add: ready_slot_def rs_kInvalidIndex_def rs_kCapacity_def)
      then have d: "dispatched c = Some (rs_cur ?s ! k)" using True w(2) sel by (simp add: dispatched_def)
      have "in_unit (next_cpu c) ?t n"
        using dispatched_result(1,2) [OF g(1,2) d] d w(2) k(2,3) uw
        by (simp add: in_unit_def next_unit(1) [OF g(8)])
      then show ?thesis by blast
    next
      case other: False
      note st = rs_step_slot [OF inv k(1), of "ai_rs_inputs (cycle_inputs c)", unfolded i(4,5), OF w(2) True i(7) other,
          folded i(8)]
      have "in_station (next_cpu c) ?t n"
        unfolding in_station_def using st(1,2,4) k(2,3) uw by (intro exI [of _ k]) auto
      then show ?thesis by blast
    qed
  next
    case False
    then have u: "fu_valid (unit_result c)" "\<not> co_integer_granted (bus c)" by (simp_all add: unit_free_def)
    note us = unit_stays [OF assms(1) w(2) u]
    note st = rs_step_keeps [OF inv k(1), of "ai_rs_inputs (cycle_inputs c)", unfolded i(4,5), OF w(2) i(7), folded i(8)]
    have "in_station (next_cpu c) ?t n"
      unfolding in_station_def using st(1,2,4) False k(2,3) us by (intro exI [of _ k]) simp
    then show ?thesis by blast
  qed
  then show ?thesis by (intro dueI [OF w(3,4)]) blast
qed

lemma due_in_load:
  assumes "going_on s c" and "rob_entries c \<noteq> []" and "\<not> re_ready (hd (rob_entries c))"
    and "in_load c (re_tag (hd (rob_entries c))) (Suc n)"
  shows "due (next_cpu c) n"
proof -
  note g = going_onD [OF assms(1)]
  note w = waiting_head [OF assms(1-3)]
  have u: "fu_valid (loaded c)" "fu_tag (loaded c) = re_tag (hd (rob_entries c))" "load_wait c \<le> Suc n"
    using assms(4) by (simp_all add: in_load_def)
  show ?thesis
  proof (cases "co_load_granted (bus c)")
    case True
    then show ?thesis
      using u load_granted_valid [OF g(8) True] by (intro completed_head [OF assms(1-3)]) simp_all
  next
    case False
    have "\<not> prefers_load c \<and> prefers_load (next_cpu c)"
      using load_bus [OF g(8) w(2) u(1)] w(5) u(2) False by simp
    moreover have "loaded (next_cpu c) = loaded c"
      using finishes_sent(4) [OF assms(1)] u(1) False w(2) by (auto simp: next_lsq(3) [OF g(8,9)])
    ultimately have "in_load (next_cpu c) (re_tag (hd (rob_entries c))) n"
      using u by (simp add: in_load_def load_wait_def)
    then show ?thesis by (intro dueI [OF w(3,4)]) blast
  qed
qed

lemma due_sent:
  assumes "going_on s c" and "rob_entries c \<noteq> []" and "\<not> re_ready (hd (rob_entries c))"
    and "in_queue c (re_tag (hd (rob_entries c))) (Suc n)" and "le_request_sent (hd (lsq_entries c))"
  shows "due (next_cpu c) n"
proof -
  note g = going_onD [OF assms(1)]
  note w = waiting_head [OF assms(1-3)]
  let ?q = "hd (lsq_entries c)" and ?t = "re_tag (hd (rob_entries c))"
  have q: "lsq_entries c \<noteq> []" "le_destination ?q = ?t" "access_wait c \<le> Suc n"
    using assms(4) by (simp_all add: in_queue_def)
  obtain p where p: "in_phase p c" using g(3) by (auto simp: traffic_ok_def)
  have "\<not> all_unsent (lsq_entries c)" using assms(5) q(1) by (auto simp: all_unsent_def)
  then consider (busy) "in_phase Busy c" | (answered) "in_phase Answered c" using p by (cases p) auto
  then show ?thesis
  proof cases
    case busy
    have hs: "head_sent (lsq_entries c)" and tx: "tx_valid (transaction c)" "1 \<le> tx_remaining_cycles (transaction c)"
      and nr: "\<not> rsp_valid (response c)" using busy by simp_all
    note h = head_sent_next [OF assms(1) w(2) hs silent_no_answer [OF nr]]
    have h': "lsq_entries (next_cpu c) \<noteq> []" "le_request_sent (hd (lsq_entries (next_cpu c)))"
        "le_destination (hd (lsq_entries (next_cpu c))) = ?t"
      using h(1) q(2) by (simp_all add: head_sent_def h(2))
    have "access_wait (next_cpu c) \<le> n"
    proof (cases "1 < tx_remaining_cycles (transaction c)")
      case True
      show ?thesis
        using port_counts [OF g(8) tx(1) True] q(3) assms(5) tx h'(2) True by (simp add: access_wait_def)
    next
      case False
      then have "tx_remaining_cycles (transaction c) \<le> 1" by simp
      then show ?thesis
        using port_answers(1) [OF g(8) tx(1)] q(3) assms(5) tx h'(2) by (simp add: access_wait_def)
    qed
    then show ?thesis using h' by (intro dueI [OF w(3,4)]) (simp add: in_queue_def)
  next
    case answered
    then have fin: "head_finishes c"
      using phase_response [OF g(1) _ w(2)] g(10) by (simp add: head_finishes_def del: in_phase.simps)
    have n: "3 \<le> Suc n" using q(3) answered assms(5) by (simp add: access_wait_def)
    show ?thesis
    proof (cases "le_type ?q")
      case LOAD
      then have "fu_valid (loaded (next_cpu c))" "fu_tag (loaded (next_cpu c)) = ?t"
        using fin w(2) q(2) by (simp_all add: next_lsq(3) [OF g(8,9)])
      then have "in_load (next_cpu c) ?t n" using n by (simp add: in_load_def load_wait_def)
      then show ?thesis by (intro dueI [OF w(3,4)]) blast
    next
      case STORE
      note h = sent_store_head [OF g(1-3) finishes_sent(2) [OF assms(1) fin] STORE]
      have "re_ready (marked c (hd (rob_entries c)))"
        using unfinished_head_marked [OF assms(1-3) h(5)] fin STORE by (simp add: store_finishes_def)
      then show ?thesis
        using unfinished_head_kept [OF assms(1) w(2) assms(2,3)] by (intro due_head_ready) simp_all
    qed
  qed
qed

text \<open>The access of the oldest instruction is sent as soon as the port is free.\<close>

lemma head_access_sends:
  assumes "going_on s c" and "orderly c" and "rob_entries c \<noteq> []" and "\<not> re_ready (hd (rob_entries c))"
    and "lsq_entries c \<noteq> []" and "le_destination (hd (lsq_entries c)) = re_tag (hd (rob_entries c))"
    and "\<not> le_request_sent (hd (lsq_entries c))" and "\<not> tx_valid (transaction c)"
  shows "head_sends c"
proof -
  note g = going_onD [OF assms(1)]
  note w = waiting_head [OF assms(1,3,4)]
  let ?q = "hd (lsq_entries c)" and ?h = "hd (rob_entries c)"
  have qin: "?q \<in> set (lsq_entries c)" and hin: "?h \<in> set (rob_entries c)" using assms(3,5) by simp_all
  note r = head_waits_for_nobody(2) [OF g(1) assms(2) qin assms(6)]
  have ar: "access_right (path s c) ?q" using g(2) qin by (simp add: flight_right_def)
  have nl: "\<not> fu_valid (loaded c)" if "le_type ?q = LOAD"
  proof
    assume v: "fu_valid (loaded c)"
    obtain e where e: "e \<in> set (rob_entries c)" "re_tag e = le_destination ?q" "memory_waiting e"
      using hd_access [OF g(1) assms(5)] by blast
    have "e = ?h" using e(2) assms(6) by (intro same_tag [OF g(8) e(1) hin]) simp
    then obtain ts where "map re_tag (filter memory_waiting (rob_entries c)) = re_tag ?h # ts"
      using e(3) assms(3) by (cases "rob_entries c") simp_all
    then have eq: "result_tags (loaded c) @ map le_destination (lsq_entries c) = re_tag ?h # ts"
      using g(1) by (simp add: queues_ok_def memory_accounted_def)
    have "distinct (result_tags (loaded c) @ map le_destination (lsq_entries c))"
      using g(1) distinct_waiting [OF g(8)] by (simp add: queues_ok_def memory_accounted_def)
    then show False using eq v assms(5,6) by (cases "lsq_entries c") (simp_all add: result_tags_def)
  qed
  have st: "store_waiting c" if "le_type ?q = STORE"
  proof -
    have "re_op ?h = le_op ?q" using ar hin assms(6) by (simp add: access_right_def)
    then have "store_op (re_op ?h)" using ar that by (simp add: access_right_def access_wf_def)
    moreover have "entry_wf ?h" using g(1) hin by (simp add: queues_ok_def list_all_iff)
    ultimately show ?thesis using assms(3,4) by (simp add: store_waiting_def entry_wf_def)
  qed
  show ?thesis
    using assms(5-8) w(2) r nl st
    by (cases "le_type ?q") (simp_all add: head_sends_def data_port_available_def)
qed

lemma due_unsent:
  assumes "going_on s c" and "orderly c" and "rob_entries c \<noteq> []" and "\<not> re_ready (hd (rob_entries c))"
    and "in_queue c (re_tag (hd (rob_entries c))) (Suc n)" and "\<not> le_request_sent (hd (lsq_entries c))"
  shows "due (next_cpu c) n"
proof -
  note g = going_onD [OF assms(1)]
  note w = waiting_head [OF assms(1,3,4)]
  let ?q = "hd (lsq_entries c)" and ?q' = "hd (lsq_entries (next_cpu c))" and ?t = "re_tag (hd (rob_entries c))"
  have q: "lsq_entries c \<noteq> []" "le_destination ?q = ?t" "access_wait c \<le> Suc n"
    using assms(5) by (simp_all add: in_queue_def)
  obtain p where p: "in_phase p c" using g(3) by (auto simp: traffic_ok_def)
  have un: "all_unsent (lsq_entries c)" using p assms(6) by (cases p) (auto simp: head_sent_def)
  have nfin: "\<not> head_finishes c" by (rule unwanted_no_answer [OF g(1,3) un])
  have "lsq_entries (next_cpu c) \<noteq> [] \<and> le_destination ?q' = ?t \<and> access_wait (next_cpu c) \<le> n"
  proof (cases "tx_valid (transaction c)")
    case False
    have s: "head_sends c" by (rule head_access_sends [OF assms(1-4) q(1,2) assms(6) False])
    note nq = next_queue(2) [OF g(8,9) w(2) nfin s]
    have "in_phase Busy (next_cpu c)" using free_port_next [OF assms(1) False] un s by simp
    then have "access_wait (next_cpu c) \<le> 6" by (simp add: access_wait_def head_sent_def)
    moreover have "7 \<le> Suc n" using q(3) assms(6) False by (simp add: access_wait_def)
    ultimately show ?thesis using q(2) by (simp add: nq)
  next
    case True
    note nq = next_queue(3) [OF g(8,9) w(2) nfin busy_sends_nothing [OF True]]
    have q': "lsq_entries (next_cpu c) \<noteq> []" "le_destination ?q' = ?t" "\<not> le_request_sent ?q'"
      using q(1,2) assms(6) by (simp_all add: nq hd_map)
    have r: "1 \<le> tx_remaining_cycles (transaction c)" using p True by (cases p) simp_all
    have "access_wait (next_cpu c) \<le> n"
    proof (cases "1 < tx_remaining_cycles (transaction c)")
      case t: True
      then show ?thesis
        using port_counts [OF g(8) True t] q(3) q'(3) assms(6) True by (simp add: access_wait_def)
    next
      case f: False
      then have "tx_remaining_cycles (transaction c) \<le> 1" by simp
      then show ?thesis
        using port_answers(1) [OF g(8) True] q(3) q'(3) assms(6) True r by (simp add: access_wait_def)
    qed
    then show ?thesis using q' by simp
  qed
  then show ?thesis by (intro dueI [OF w(3,4)]) (simp add: in_queue_def)
qed

lemma due_next:
  assumes "going_on s c" and "orderly c" and "due c (Suc n)" and "\<not> re_ready (hd (rob_entries c))"
  shows "due (next_cpu c) n"
proof -
  have ne: "rob_entries c \<noteq> []" using assms(3) by (simp add: due_def)
  consider "in_unit c (re_tag (hd (rob_entries c))) (Suc n)" | "in_station c (re_tag (hd (rob_entries c))) (Suc n)"
    | "in_load c (re_tag (hd (rob_entries c))) (Suc n)" | "in_queue c (re_tag (hd (rob_entries c))) (Suc n)"
    using assms(3,4) by (auto simp: due_def Let_def)
  then show ?thesis
    using due_in_unit [OF assms(1) ne assms(4)] due_in_station [OF assms(1) ne assms(4)]
      due_in_load [OF assms(1) ne assms(4)] due_sent [OF assms(1) ne assms(4)]
      due_unsent [OF assms(1,2) ne assms(4)]
    by cases blast+
qed

lemma due_now:
  assumes "due c 0" shows "re_ready (hd (rob_entries c))"
  using assms
  by (auto simp: due_def Let_def in_unit_def in_station_def in_load_def in_queue_def unit_wait_def
      load_wait_def access_wait_def split: if_splits)

section \<open>An empty core issues\<close>

lemma empty_issues:
  assumes "tracks s0 n s c" and "rob_entries c = []" and "cpu_status (next_cpu c) = CpuRunning"
  shows "issuing c \<noteq> None"
proof -
  have t: "related s c" "cpu_status c = CpuRunning" "orderly c" using assms(1) by (simp_all add: tracks_def)
  note r = relatedD [OF t(1)]
  have nf: "\<not> flushing c" using assms(2) by (simp add: flushing_def head_commits_def)
  have f: "fetching c"
    using assms(2) t(3) nf by (auto simp: fetching_def orderly_def halt_last_def rob_full_list)
  have nc: "\<not> (head_commits (rob c) \<and> re_op (hd (rob_entries c)) = OP_HALT)"
    using assms(2) by (simp add: head_commits_def)
  have st: "fetched c \<noteq> None" "\<And>w. fetched c = Some w \<Longrightarrow> di_op (decode w) \<noteq> OP_INVALID"
    using assms(2,3) f nc by (auto simp: next_control(5) [OF r(5)] split: if_splits)
  then obtain w where w: "fetched c = Some w" "di_op (decode w) \<noteq> OP_INVALID" by auto
  have "rs_bag (reservation_station c) = {#}"
    using r(1) assms(2) by (simp add: queues_ok_def unit_accounted_def)
  then have "\<not> list_all rse_busy (rs_cur (reservation_station c))"
    using shapesD(3) [OF r(5)]
    by (cases "rs_cur (reservation_station c)") (auto simp: rs_bag_def rs_invar_def rs_kCapacity_def split: if_splits)
  then have "rs_available (reservation_station c)" by (simp add: rs_available_def rs_full_def)
  moreover have "lsq_entries c = []"
    using r(1) assms(2) by (simp add: queues_ok_def memory_accounted_def)
  then have "\<not> lsq_full (load_store_queue c)"
    using lsq_list_Nil [of "load_store_queue c"] by (simp add: lsq_full_def lsq_kCapacity_def)
  ultimately have "can_issue (issue_in c w)"
    using w(2) assms(2) by (auto simp: can_issue_def Let_def issue_in_simps rob_full_list next_tag_valid)
  then show ?thesis using w(1) f by (simp add: issuing_def)
qed

section \<open>Bounded waiting\<close>

lemma cycles_add: "cpu_cycles m c = Some d \<Longrightarrow> cpu_cycles (m + n) c = cpu_cycles n d"
proof (induction m arbitrary: c)
  case (Suc m)
  show ?case
  proof (cases "cpu_status c = CpuRunning")
    case True
    then show ?thesis using Suc by (auto split: option.splits)
  next
    case False
    then have "d = c" using Suc.prems by simp
    moreover have "cpu_cycles k c = Some c" for k using False by (cases k) simp_all
    ultimately show ?thesis by metis
  qed
qed simp

lemma stopped_stays: "cpu_status c \<noteq> CpuRunning \<Longrightarrow> cpu_cycles n c = Some c"
  by (cases n) simp_all

text \<open>Within \<open>n\<close> cycles the core stops or one more instruction has committed.\<close>

definition commits_within :: "nat \<Rightarrow> isa_state \<Rightarrow> nat \<Rightarrow> CPU \<Rightarrow> bool" where
  "commits_within n s0 k c \<longleftrightarrow>
     (\<exists>d. cpu_cycles n c = Some d \<and> cpu_status d \<noteq> CpuRunning)
     \<or> (\<exists>m \<le> n. \<exists>d t. cpu_cycles m c = Some d \<and> tracks s0 (Suc k) t d)"

lemma within_step:
  assumes "cpu_status c = CpuRunning" and "cycle c = Some d" and "commits_within n s0 k d"
  shows "commits_within (Suc n) s0 k c"
proof -
  have st: "cpu_cycles (Suc m) c = cpu_cycles m d" for m using assms(1,2) by simp
  consider e where "cpu_cycles n d = Some e" "cpu_status e \<noteq> CpuRunning"
    | m e t where "m \<le> n" "cpu_cycles m d = Some e" "tracks s0 (Suc k) t e"
    using assms(3) by (auto simp: commits_within_def)
  then show ?thesis
  proof cases
    case 1
    then show ?thesis unfolding commits_within_def using st by metis
  next
    case 2
    then have "Suc m \<le> Suc n" "cpu_cycles (Suc m) c = Some e" using st by simp_all
    then show ?thesis unfolding commits_within_def using 2(3) by blast
  qed
qed

text \<open>One cycle: the core stops, or commits, or only waits.\<close>

lemma one_cycle:
  assumes "tracks s0 k s c" and "code_stable s0"
  obtains "commits_within (Suc n) s0 k c"
  | "going_on s c" "\<not> head_commits (rob c)" "cpu_status (next_cpu c) = CpuRunning"
      "tracks s0 k s (next_cpu c)" "cpu_status c = CpuRunning" "cycle c = Some (next_cpu c)"
proof -
  note t = tracks_cycle [OF assms]
  have run: "cpu_status c = CpuRunning" using assms(1) by (simp add: tracks_def)
  have one: "cpu_cycles (Suc 0) c = Some (next_cpu c)" using t(1) run by simp
  show thesis
  proof (cases "cpu_status (next_cpu c) = CpuRunning")
    case False
    then have "cpu_cycles (Suc n) c = Some (next_cpu c)" using t(1) run stopped_stays by simp
    then show thesis using False that(1) unfolding commits_within_def by blast
  next
    case True
    note g = tracks_going_on [OF assms True]
    show thesis
    proof (cases "head_commits (rob c)")
      case hc: True
      then have "tracks s0 (Suc k) (commit_state s c) (next_cpu c)" using t(2) True by simp
      moreover have "Suc 0 \<le> Suc n" by simp
      ultimately show thesis using that(1) one unfolding commits_within_def by blast
    next
      case nc: False
      then have "tracks s0 k s (next_cpu c)" using t(2) True by simp
      then show thesis using that(2) g nc True run t(1) by blast
    qed
  qed
qed

lemma due_commits:
  "tracks s0 k s c \<Longrightarrow> due c n \<Longrightarrow> code_stable s0 \<Longrightarrow> commits_within (Suc n) s0 k c"
proof (induction n arbitrary: c)
  case (0 c)
  show ?case
  proof (rule one_cycle [OF 0(1,3), of 0])
    assume "\<not> head_commits (rob c)"
    then show ?thesis using due_now [OF 0(2)] 0(2) by (simp add: due_def head_commits_def)
  qed simp
next
  case (Suc n c)
  show ?case
  proof (rule one_cycle [OF Suc.prems(1,3), of "Suc n"])
    assume g: "going_on s c" "\<not> head_commits (rob c)" "cpu_status c = CpuRunning" "cycle c = Some (next_cpu c)"
      and nx: "tracks s0 k s (next_cpu c)"
    have o: "orderly c" using Suc.prems(1) by (simp add: tracks_def)
    have "\<not> re_ready (hd (rob_entries c))"
      using g(2) Suc.prems(2) by (simp add: head_commits_def due_def)
    then have "due (next_cpu c) n" by (rule due_next [OF g(1) o Suc.prems(2)])
    then show ?thesis using Suc.IH [OF nx _ Suc.prems(3)] within_step [OF g(3,4)] by blast
  qed simp
qed

lemma tracks_commits:
  assumes "tracks s0 k s c" and "code_stable s0"
  shows "commits_within 52 s0 k c"
proof -
  have soon: "commits_within 51 s0 k d" if "tracks s0 k s d" "rob_entries d \<noteq> []" for d
  proof -
    have "related s d" "orderly d" using that(1) by (simp_all add: tracks_def)
    then have "due d 50" using relatedD [of s d] that(2) by (intro due_soon) simp_all
    then show ?thesis using due_commits [OF that(1) _ assms(2), of 50] by simp
  qed
  show ?thesis
  proof (rule one_cycle [OF assms, of 51])
    assume "commits_within (Suc 51) s0 k c"
    then show ?thesis by simp
  next
    assume g: "going_on s c" "cpu_status (next_cpu c) = CpuRunning" "\<not> head_commits (rob c)"
        "cpu_status c = CpuRunning" "cycle c = Some (next_cpu c)"
      and nx: "tracks s0 k s (next_cpu c)"
    have "rob_entries (next_cpu c) \<noteq> []"
    proof (cases "rob_entries c = []")
      case True
      then show ?thesis
        using empty_issues [OF assms(1) True g(2)]
        by (cases "issuing c") (simp_all add: next_rob(3) [OF going_onD(8) [OF g(1)]] issued_entries_def)
    next
      case False
      then have "\<not> re_ready (hd (rob_entries c))" using g(3) by (simp add: head_commits_def)
      then show ?thesis by (rule waiting_head(3) [OF g(1) False])
    qed
    then have "commits_within (Suc 51) s0 k c" by (rule within_step [OF g(4,5) soon [OF nx]])
    then show ?thesis by simp
  qed
qed

section \<open>Termination\<close>

text \<open>The core stops within 52 cycles per instruction of a run of the sequential machine that ends.\<close>

lemma tracks_stops:
  assumes "code_stable s0" and "isa_run (k + n) s0 = r" and "\<And>t. r \<noteq> Step t"
    and "tracks s0 k s c"
  shows "\<exists>d. cpu_cycles (52 * n) c = Some d \<and> cpu_status d \<noteq> CpuRunning"
  using assms(2,4)
proof (induction n arbitrary: k s c)
  case 0
  then show ?case using assms(3) by (auto simp: tracks_def)
next
  case (Suc n)
  have "commits_within 52 s0 k c" by (rule tracks_commits [OF Suc.prems(2) assms(1)])
  then consider d where "cpu_cycles 52 c = Some d" "cpu_status d \<noteq> CpuRunning"
    | m d t where "m \<le> 52" "cpu_cycles m c = Some d" "tracks s0 (Suc k) t d"
    by (auto simp: commits_within_def)
  then show ?case
  proof cases
    case 1
    then show ?thesis using cycles_add [OF 1(1), of "52 * n"] stopped_stays by simp
  next
    case 2
    obtain e where e: "cpu_cycles (52 * n) d = Some e" "cpu_status e \<noteq> CpuRunning"
      using Suc.IH [of "Suc k" t d] Suc.prems(1) 2(3) by auto
    have "cpu_cycles (m + 52 * n) c = Some e" using cycles_add [OF 2(2)] e(1) by simp
    then have "cpu_cycles (m + 52 * n + (52 - m)) c = Some e"
      using cycles_add stopped_stays [OF e(2)] by metis
    moreover have "m + 52 * n + (52 - m) = 52 * Suc n" using 2(1) by simp
    ultimately show ?thesis using e(2) by metis
  qed
qed

end
