(* ===== verification/CoreStatistics.thy ===== *)
theory CoreStatistics
  imports CoreProgress
begin

text \<open>
  What the core counts: cycles, committed instructions, and the branches with which it has trained
  its predictor, which are the branches of the sequential execution in their order.  Also the address
  at which the core stops when it cannot fetch or decode.
\<close>

section \<open>The branches of the sequential execution\<close>

text \<open>A branch with its address, its direction and the address that follows.\<close>

type_synonym branch_event = "Address \<times> bool \<times> Address"

definition branch_at :: "isa_state \<Rightarrow> branch_event list" where
  "branch_at s =
     (case here s of
        None \<Rightarrow> []
      | Some d \<Rightarrow>
          if branch_op (di_op d)
          then [(isa_pc s, isa_taken (di_op d) (isa_rs1 d s) (isa_rs2 d s), isa_next_pc d s)] else [])"

fun branch_trace :: "nat \<Rightarrow> isa_state \<Rightarrow> branch_event list" where
  "branch_trace 0 s = []"
| "branch_trace (Suc n) s =
     branch_at s @ (case isa_step s of Step t \<Rightarrow> branch_trace n t | _ \<Rightarrow> [])"

lemma branch_trace_Suc:
  "isa_run n s0 = Step s \<Longrightarrow> branch_trace (Suc n) s0 = branch_trace n s0 @ branch_at s"
proof (induction n arbitrary: s0)
  case 0
  then show ?case by (simp split: isa_outcome.split)
next
  case (Suc n)
  obtain t where t: "isa_step s0 = Step t" "isa_run n t = Step s"
    using Suc.prems by (auto simp: isa_run.simps(2) split: isa_outcome.splits)
  then show ?case using Suc.IH [OF t(2)] by simp
qed

lemma branch_trace_length: "length (branch_trace n s) \<le> n"
proof (induction n arbitrary: s)
  case (Suc n)
  have a: "length (branch_at s) \<le> 1" by (simp add: branch_at_def split: option.split)
  have "length (branch_at s) + length (branch_trace n t) \<le> Suc n" for t
    using add_mono [OF a Suc.IH [of t]] by simp
  then show ?case using a by (cases "isa_step s") simp_all
qed simp

section \<open>The branches that the core commits\<close>

definition commits_branch :: "CPU \<Rightarrow> bool" where
  "commits_branch c \<longleftrightarrow> head_commits (rob c) \<and> re_is_branch (hd (rob_entries c))"

definition branch_commit :: "CPU \<Rightarrow> ROBEntry list" where
  "branch_commit c = (if commits_branch c then [hd (rob_entries c)] else [])"

text \<open>The entries of the branches that commit in the next \<open>k\<close> cycles.\<close>

fun committed_branches :: "nat \<Rightarrow> CPU \<Rightarrow> ROBEntry list" where
  "committed_branches 0 c = []"
| "committed_branches (Suc k) c =
     (if cpu_status c = CpuRunning
      then branch_commit c @ (case cycle c of None \<Rightarrow> [] | Some d \<Rightarrow> committed_branches k d) else [])"

lemma committed_branches_Suc:
  "cpu_cycles k c = Some d \<Longrightarrow> cpu_status d = CpuRunning \<Longrightarrow>
   committed_branches (Suc k) c = committed_branches k c @ branch_commit d"
proof (induction k arbitrary: c)
  case 0
  then show ?case by (simp split: option.split)
next
  case (Suc k)
  show ?case
  proof (cases "cpu_status c = CpuRunning")
    case True
    then obtain e where e: "cycle c = Some e" "cpu_cycles k e = Some d"
      using Suc.prems(1) by (auto split: option.splits)
    then show ?thesis using True Suc.IH [OF e(2) Suc.prems(2)] by simp
  next
    case False
    then show ?thesis using Suc.prems by simp
  qed
qed

definition entry_event :: "ROBEntry \<Rightarrow> branch_event" where
  "entry_event e = (re_pc e, re_branch_taken e, re_actual_next_pc e)"

text \<open>The branch went where the fetch had followed it.\<close>

definition predicted_right :: "ROBEntry \<Rightarrow> bool" where
  "predicted_right e \<longleftrightarrow> re_predicted_next_pc e = re_actual_next_pc e"

section \<open>The updates of the predictor\<close>

definition entry_update :: "ROBEntry \<Rightarrow> BranchPredictorUpdate" where
  "entry_update e = \<lparr>bu_pc = re_pc e, bu_actual_taken = re_branch_taken e,
     bu_predicted_next_pc = re_predicted_next_pc e, bu_actual_next_pc = re_actual_next_pc e, bu_valid = True\<rparr>"

text \<open>A predictor that has been trained with the given branches, in their order, and nothing else.\<close>

definition trained_on :: "ROBEntry list \<Rightarrow> BranchPredictor \<Rightarrow> bool" where
  "trained_on es p \<longleftrightarrow> predictor_is (map entry_update es) p"

abbreviation committed_update :: "CPU \<Rightarrow> BranchPredictorUpdate" where
  "committed_update c \<equiv> commit_predictor_update (ro_commit (rob_plan (rob c)))"

lemma next_predictor:
  assumes "shapes c"
  shows "branch_predictor (next_cpu c) = bp_cycle (committed_update c) (branch_predictor c)"
    and "commits_branch c \<Longrightarrow> committed_update c = entry_update (hd (rob_entries c))"
    and "\<not> commits_branch c \<Longrightarrow> \<not> bu_valid (committed_update c)"
proof -
  have inv: "rob_invar (rob c)" using assms by (simp add: shapes_def)
  note plan = rob_plan_facts [OF inv]
  show "branch_predictor (next_cpu c) = bp_cycle (committed_update c) (branch_predictor c)"
    by (simp add: next_cpu_def Let_def bp_cycle_def cycle_inputs_def apply_inputs_def cycle_decisions [OF assms])
  show "commits_branch c \<Longrightarrow> committed_update c = entry_update (hd (rob_entries c))"
    by (simp add: commits_branch_def commit_predictor_update_def plan(1) plan(2) entry_update_def Let_def)
  show "\<not> commits_branch c \<Longrightarrow> \<not> bu_valid (committed_update c)"
    by (auto simp: commits_branch_def commit_predictor_update_def plan(1) plan(2) predictor_update_default_def)
qed

lemma trained_new: "trained_on [] (bp_reset p)"
  by (simp add: trained_on_def predictor_is_def bp_reset_def predictor_regs_reset_def prediction_count_def
      correct_count_def updates_at_def counter_after_def counter_defs)

lemma trained_next:
  assumes "shapes c" and "trained_on es (branch_predictor c)"
  shows "trained_on (es @ branch_commit c) (branch_predictor (next_cpu c))"
proof (cases "commits_branch c")
  case True
  then show ?thesis
    using predictor_step [of "map entry_update es" "branch_predictor c" "committed_update c"] assms(2)
    by (simp add: trained_on_def branch_commit_def next_predictor(1,2) [OF assms(1)])
next
  case False
  then have "bp_cur (branch_predictor (next_cpu c)) = bp_cur (branch_predictor c)"
    using next_predictor(1,3) [OF assms(1)] by (simp add: bp_cycle_def bp_latch_def bp_apply_def)
  then show ?thesis
    using assms(2) False
    by (simp add: trained_on_def predictor_is_def prediction_count_def correct_count_def branch_commit_def)
qed

lemma trained_counts:
  assumes "trained_on es p"
  shows "prediction_count p = of_nat (length es)"
    and "correct_count p = of_nat (length (filter predicted_right es))"
proof -
  have "filter bu_valid (map entry_update es) = map entry_update es"
    by (simp add: filter_id_conv entry_update_def)
  then show "prediction_count p = of_nat (length es)"
    using assms unfolding trained_on_def predictor_is_def by simp
  have "filter (\<lambda>u. bu_valid u \<and> bu_predicted_next_pc u = bu_actual_next_pc u) (map entry_update es)
      = map entry_update (filter predicted_right es)"
    by (induction es) (simp_all add: entry_update_def predicted_right_def)
  then show "correct_count p = of_nat (length (filter predicted_right es))"
    using assms unfolding trained_on_def predictor_is_def by simp
qed

section \<open>The counters along a run\<close>

definition counted :: "isa_state \<Rightarrow> nat \<Rightarrow> ROBEntry list \<Rightarrow> nat \<Rightarrow> isa_state \<Rightarrow> CPU \<Rightarrow> bool" where
  "counted s0 k es n s c \<longleftrightarrow> tracks s0 n s c \<and> cycle_count c = of_nat k \<and> n \<le> k
     \<and> map entry_event es = branch_trace n s0 \<and> trained_on es (branch_predictor c)"

lemma next_cycle_count [simp]: "cycle_count (next_cpu c) = cycle_count c + 1"
  by (simp add: next_cpu_def Let_def)

lemma loaded_counted:
  assumes "orders_ok b" and "load_ok (fst (cpu_load inputs b))"
  shows "counted (start_state (snd (cpu_load inputs b))) 0 [] 0 (start_state (snd (cpu_load inputs b)))
    (snd (cpu_load inputs b))"
  using loaded_tracks [OF assms] trained_new
  by (simp add: counted_def cpu_load_def Let_def case_prod_beta)

lemma committed_branch:
  assumes "related s c" and "head_commits (rob c)" and "\<not> commits_halt c"
  shows "branch_at s = map entry_event (branch_commit c)"
proof -
  note r = relatedD [OF assms(1)]
  obtain d where d: "here s = Some d" "entry_at (hd (rob_entries c)) s d" "entry_done (hd (rob_entries c)) s d"
    using head_commit [OF r(2) assms(2,3)] by metis
  then show ?thesis
    using assms(2) decoded_wfD(6) [OF here_wf [OF d(1)]]
    by (auto simp: branch_at_def branch_commit_def commits_branch_def entry_event_def entry_at_def entry_done_def)
qed

lemma counted_cycle:
  assumes "counted s0 k es n s c" and "code_stable s0" and "cpu_status (next_cpu c) = CpuRunning"
  shows "\<exists>m t. counted s0 (Suc k) (es @ branch_commit c) m t (next_cpu c)"
proof -
  have t: "tracks s0 n s c" "cycle_count c = of_nat k" "n \<le> k" "map entry_event es = branch_trace n s0"
      "trained_on es (branch_predictor c)"
    using assms(1) by (simp_all add: counted_def)
  have rel: "related s c" and run: "isa_run n s0 = Step s" using t(1) by (simp_all add: tracks_def)
  note r = relatedD [OF rel]
  have nh: "\<not> commits_halt c" by (rule going_onD(7) [OF tracks_going_on [OF t(1) assms(2,3)]])
  note nx = tracks_cycle(2) [OF t(1) assms(2,3)]
  note tr = trained_next [OF r(5) t(5)]
  show ?thesis
  proof (cases "head_commits (rob c)")
    case True
    then have "map entry_event (es @ branch_commit c) = branch_trace (Suc n) s0"
      using t(4) committed_branch [OF rel True nh] branch_trace_Suc [OF run] by simp
    then have "counted s0 (Suc k) (es @ branch_commit c) (Suc n) (commit_state s c) (next_cpu c)"
      using nx True t(2,3) tr by (simp add: counted_def add.commute)
    then show ?thesis by blast
  next
    case False
    then have "branch_commit c = []" by (simp add: branch_commit_def commits_branch_def)
    then have "counted s0 (Suc k) (es @ branch_commit c) n s (next_cpu c)"
      using nx False t(2-4) tr by (simp add: counted_def add.commute)
    then show ?thesis by blast
  qed
qed

text \<open>Either a bounded run goes on, or it ends in a cycle after a last running state.\<close>

lemma cycles_counted:
  assumes "counted s0 k es n s c" and "code_stable s0"
  shows "\<exists>d. cpu_cycles j c = Some d \<and>
    (if cpu_status d = CpuRunning then \<exists>m t. counted s0 (k + j) (es @ committed_branches j c) m t d
     else \<exists>i m t b. i < j \<and> cpu_cycles i c = Some b
       \<and> counted s0 (k + i) (es @ committed_branches i c) m t b \<and> cycle b = Some d \<and> d = next_cpu b)"
  using assms(1)
proof (induction j arbitrary: c k es n s)
  case 0
  then show ?case by (auto simp: counted_def tracks_def)
next
  case (Suc j)
  have t: "tracks s0 n s c" using Suc.prems by (simp add: counted_def)
  have run: "cpu_status c = CpuRunning" using t by (simp add: tracks_def)
  note cyc = tracks_cycle(1) [OF t assms(2)]
  show ?case
  proof (cases "cpu_status (next_cpu c) = CpuRunning")
    case True
    obtain m u where "counted s0 (Suc k) (es @ branch_commit c) m u (next_cpu c)"
      using counted_cycle [OF Suc.prems assms(2) True] by blast
    then obtain d where d: "cpu_cycles j (next_cpu c) = Some d"
        "if cpu_status d = CpuRunning
         then \<exists>m t. counted s0 (Suc k + j) ((es @ branch_commit c) @ committed_branches j (next_cpu c)) m t d
         else \<exists>i m t b. i < j \<and> cpu_cycles i (next_cpu c) = Some b
           \<and> counted s0 (Suc k + i) ((es @ branch_commit c) @ committed_branches i (next_cpu c)) m t b
           \<and> cycle b = Some d \<and> d = next_cpu b"
      using Suc.IH by blast
    show ?thesis
    proof (cases "cpu_status d = CpuRunning")
      case True
      then show ?thesis using d run cyc by auto
    next
      case False
      then obtain i m t b where i: "i < j" "cpu_cycles i (next_cpu c) = Some b"
          "counted s0 (Suc k + i) ((es @ branch_commit c) @ committed_branches i (next_cpu c)) m t b"
          "cycle b = Some d" "d = next_cpu b"
        using d(2) by auto
      then have "Suc i < Suc j \<and> cpu_cycles (Suc i) c = Some b
          \<and> counted s0 (k + Suc i) (es @ committed_branches (Suc i) c) m t b \<and> cycle b = Some d \<and> d = next_cpu b"
        using run cyc by simp
      then have "\<exists>i m t b. i < Suc j \<and> cpu_cycles i c = Some b
          \<and> counted s0 (k + i) (es @ committed_branches i c) m t b \<and> cycle b = Some d \<and> d = next_cpu b" by blast
      then show ?thesis using False d(1) run cyc by (intro exI [of _ d]) simp
    qed
  next
    case False
    have "0 < Suc j \<and> cpu_cycles 0 c = Some c
        \<and> counted s0 (k + 0) (es @ committed_branches 0 c) n s c \<and> cycle c = Some (next_cpu c) \<and> next_cpu c = next_cpu c"
      using Suc.prems cyc by simp
    then have "\<exists>i m t b. i < Suc j \<and> cpu_cycles i c = Some b
        \<and> counted s0 (k + i) (es @ committed_branches i c) m t b \<and> cycle b = Some (next_cpu c) \<and> next_cpu c = next_cpu b"
      by blast
    moreover have "cpu_cycles (Suc j) c = Some (next_cpu c)" using run cyc False stopped_stays by simp
    ultimately show ?thesis using False by (intro exI [of _ "next_cpu c"]) (simp only: if_False simp_thms)
  qed
qed

section \<open>The end of a run\<close>

text \<open>The loop of \<open>run\<close> executes exactly \<open>k\<close> cycles, and stops in the state \<open>d\<close>.\<close>

definition finishes_in :: "nat \<Rightarrow> CPU \<Rightarrow> CPU \<Rightarrow> bool" where
  "finishes_in k c d \<longleftrightarrow> (\<exists>i b. k = Suc i \<and> cpu_cycles i c = Some b \<and> cpu_status b = CpuRunning
     \<and> cycle b = Some d \<and> cpu_status d \<noteq> CpuRunning)"

lemma halted_counts:
  assumes "counted s0 k es n s b" and "cpu_status (next_cpu b) = CpuHalted"
  shows "stops_after n s0 (Halted (exit_code (next_cpu b)))"
    and "cycle_count (next_cpu b) = of_nat (Suc k)" "committed_count (next_cpu b) = of_nat n"
    and "trained_on es (branch_predictor (next_cpu b))" "branch_commit b = []"
proof -
  have t: "isa_run n s0 = Step s" "related s b" "cpu_status b = CpuRunning" "committed_count b = of_nat n"
      "cycle_count b = of_nat k" "trained_on es (branch_predictor b)"
    using assms(1) by (simp_all add: counted_def tracks_def)
  note r = relatedD [OF t(2)]
  have h: "commits_halt b"
    using assms(2) t(3) by (auto simp: next_control(5) [OF r(5)] commits_halt_def split: if_splits)
  note hc = halt_commit [OF t(2) h]
  show "stops_after n s0 (Halted (exit_code (next_cpu b)))" using hc(1) t(1) by (simp add: stops_after_def)
  show "cycle_count (next_cpu b) = of_nat (Suc k)" using t(5) by (simp add: add.commute)
  show "committed_count (next_cpu b) = of_nat n" using hc(3) t(4) by simp
  have e: "head_commits (rob b)" "re_op (hd (rob_entries b)) = OP_HALT"
    using h by (simp_all add: commits_halt_def)
  have "entry_wf (hd (rob_entries b))"
    using r(1) e(1) by (auto simp: queues_ok_def head_commits_def list_all_iff)
  then show nb: "branch_commit b = []"
    using e(2) by (simp add: branch_commit_def commits_branch_def entry_wf_def branch_op_def)
  show "trained_on es (branch_predictor (next_cpu b))" using trained_next [OF r(5) t(6)] nb by simp
qed

lemma stopped_address:
  assumes "tracks s0 n s b" and "cpu_status (next_cpu b) \<in> {CpuFetchOutOfBound, CpuInvalidInstruction}"
  shows "cpu_pc (next_cpu b) = isa_pc s"
proof -
  have rel: "related s b" and run: "cpu_status b = CpuRunning" using assms(1) by (simp_all add: tracks_def)
  note r = relatedD [OF rel]
  have e: "rob_entries b = []" and w: "fetched b = None \<or> (\<exists>w. fetched b = Some w \<and> di_op (decode w) = OP_INVALID)"
    using assms(2) run by (auto simp: next_control(5) [OF r(5)] split: if_splits)
  have "\<not> flushing b" using e by (simp add: flushing_def head_commits_def)
  moreover have "issuing b = None" using w issuingD by (cases "issuing b") fastforce+
  ultimately have "current_pc (next_cpu b) = current_pc b" by (simp add: next_control(1) [OF r(5)])
  then show ?thesis using r(4) e by (simp add: cpu_pc_def state_is_def)
qed

lemma stopped_step:
  assumes "tracks s0 n s b" and "cpu_status (next_cpu b) \<in> {CpuFetchOutOfBound, CpuInvalidInstruction}"
  shows "isa_step s = (if cpu_status (next_cpu b) = CpuFetchOutOfBound then FetchFault else Illegal)"
proof -
  have rel: "related s b" and run: "cpu_status b = CpuRunning" using assms(1) by (simp_all add: tracks_def)
  note r = relatedD [OF rel]
  have e: "rob_entries b = []"
    and w: "if cpu_status (next_cpu b) = CpuFetchOutOfBound then fetched b = None
      else \<exists>w. fetched b = Some w \<and> di_op (decode w) = OP_INVALID"
    using assms(2) run by (auto simp: next_control(5) [OF r(5)] split: if_splits)
  show ?thesis
    using w empty_fetch [OF rel e] by (auto simp: isa_step_def isa_exec_def split: if_splits)
qed

end
