(* ===== verification/CoreProperties.thy ===== *)
theory CoreProperties
  imports CoreStatistics InterpreterCorrect
begin

text \<open>
  The properties of the whole program: the out-of-order core against the sequential machine and
  against the reference interpreter, from the loading of an image to what \<open>main\<close> prints.
\<close>

section \<open>The loaded program\<close>

text \<open>The core of \<open>main\<close> after \<open>load\<close>, for a random engine in state \<open>e\<close>.\<close>

abbreviation loaded_core :: "('e \<Rightarrow> nat list \<Rightarrow> nat list \<times> 'e) \<Rightarrow> 'e \<Rightarrow> istream \<Rightarrow> CPU" where
  "loaded_core shuffle e inputs \<equiv> snd (cpu_load inputs (cpu_new shuffle e))"

text \<open>The state in which the sequential machine starts on an image.\<close>

definition image_start :: "istream \<Rightarrow> isa_state" where
  "image_start inputs = \<lparr>isa_pc = 0, isa_regs = (\<lambda>_. 0),
     isa_mem = snd (image_load inputs \<lparr>bytes = (\<lambda>_. 0), load_byte_count = 0, highest_loaded_address = None\<rparr>)\<rparr>"

definition loads :: "istream \<Rightarrow> bool" where
  "loads inputs \<longleftrightarrow> load_ok (fst (image_load inputs \<lparr>bytes = (\<lambda>_. 0), load_byte_count = 0,
     highest_loaded_address = None\<rparr>))"

lemma image_load_fresh: "image_load inputs m = image_load inputs m'"
  by (simp add: image_load_def image_clear_def)

lemma core_load_image:
  "fst (cpu_load inputs c) = fst (image_load inputs m)"
  "core_memory (snd (cpu_load inputs c)) = snd (image_load inputs m)"
  by (simp_all add: cpu_load_def memory_load_def Let_def case_prod_beta memory_reset_def
      image_load_fresh [of inputs "mu_memory (memory_unit c)" m])

lemma loaded_start: "start_state (snd (cpu_load inputs c)) = image_start inputs"
  by (simp add: start_state_def image_start_def
      core_load_image(2) [of inputs c "\<lparr>bytes = (\<lambda>_. 0), load_byte_count = 0, highest_loaded_address = None\<rparr>"])

lemma loads_core: "load_ok (fst (cpu_load inputs c)) = loads inputs"
  by (simp add: loads_def
      core_load_image(1) [of inputs c "\<lparr>bytes = (\<lambda>_. 0), load_byte_count = 0, highest_loaded_address = None\<rparr>"])

lemma core_tracks:
  assumes "permutes shuffle" and "loads inputs"
  shows "tracks (image_start inputs) 0 (image_start inputs) (loaded_core shuffle e inputs)"
  using loaded_tracks [OF orders_ok_new [OF assms(1)], of inputs e] assms(2)
  by (simp add: loaded_start loads_core)

text \<open>The two ways in which a run of the core can end on an image.\<close>

lemma core_run_ends:
  assumes "permutes shuffle" and "loads inputs" and "code_stable (image_start inputs)"
    and "cpu_run (loaded_core shuffle e inputs) = Some (c, r)"
  shows "ends_right (image_start inputs) c \<and> rr_status r = cpu_status c \<and> rr_value r = exit_code c"
proof -
  let ?l = "loaded_core shuffle e inputs"
  note t = core_tracks [OF assms(1,2), of e]
  have run: "cpu_status ?l = CpuRunning" using t by (simp add: tracks_def)
  then have l: "cpu_loop ?l = Some c" "r = \<lparr>rr_status = cpu_status c, rr_value = exit_code c\<rparr>"
    using assms(4) by (auto simp: cpu_run_def split: option.splits)
  obtain n where n: "cpu_cycles n ?l = Some c" "cpu_status c \<noteq> CpuRunning" using loop_cycles [OF l(1)] by blast
  then show ?thesis using cycles_track [OF t assms(3), of n] l(2) by auto
qed

lemma core_run_stops:
  assumes "permutes shuffle" and "loads inputs" and "code_stable (image_start inputs)"
    and "stops_after n (image_start inputs) q"
  shows "\<exists>c. cpu_cycles (52 * Suc n) (loaded_core shuffle e inputs) = Some c \<and> cpu_status c \<noteq> CpuRunning"
  using tracks_stops [OF assms(3) _ _ core_tracks [OF assms(1,2)], of "Suc n" q e]
    stops_run [OF assms(4)] assms(4) by (auto simp: stops_after_def)

lemma core_run_returns:
  assumes "permutes shuffle" and "loads inputs" and "code_stable (image_start inputs)"
    and "stops_after n (image_start inputs) q"
  shows "\<exists>c r. cpu_run (loaded_core shuffle e inputs) = Some (c, r)"
proof -
  obtain c where "cpu_cycles (52 * Suc n) (loaded_core shuffle e inputs) = Some c" "cpu_status c \<noteq> CpuRunning"
    using core_run_stops [OF assms] by blast
  then have "cpu_loop (loaded_core shuffle e inputs) = Some c" by (rule cycles_loop)
  then show ?thesis by (auto simp: cpu_run_def)
qed

text \<open>Where the sequential machine stops, the core stops in the same way, unless it has met a
  failing load on a mispredicted path before.\<close>

definition speculative_fault :: "istream \<Rightarrow> CPU \<Rightarrow> bool" where
  "speculative_fault inputs c \<longleftrightarrow> cpu_status c = CpuMemoryOutOfBound
     \<and> (\<exists>n s b. tracks (image_start inputs) n s b \<and> cycle b = Some c \<and> wrong_path_load s b)"

fun status_of :: "isa_outcome \<Rightarrow> CpuStatus" where
  "status_of (Halted v) = CpuHalted"
| "status_of FetchFault = CpuFetchOutOfBound"
| "status_of Illegal = CpuInvalidInstruction"
| "status_of MemFault = CpuMemoryOutOfBound"
| "status_of (Step s) = CpuRunning"

lemma ends_as_machine:
  assumes "ends_right s0 c" and "stops_after n s0 q"
    and "\<not> (cpu_status c = CpuMemoryOutOfBound
      \<and> (\<exists>n s b. tracks s0 n s b \<and> cycle b = Some c \<and> wrong_path_load s b))"
  shows "cpu_status c = status_of q" "\<And>v. q = Halted v \<Longrightarrow> exit_code c = v"
    "q \<noteq> MemFault \<Longrightarrow> committed_count c = of_nat n"
proof -
  have "cpu_status c = status_of q \<and> (\<forall>v. q = Halted v \<longrightarrow> exit_code c = v)
     \<and> (q \<noteq> MemFault \<longrightarrow> committed_count c = of_nat n)"
    using assms(1,3)
    by (auto simp: ends_right_def split: CpuStatus.splits
        dest: stops_unique [OF _ assms(2)])
  then show "cpu_status c = status_of q" "\<And>v. q = Halted v \<Longrightarrow> exit_code c = v"
    "q \<noteq> MemFault \<Longrightarrow> committed_count c = of_nat n" by blast+
qed

lemma exec_halted: "isa_exec d s = Halted v \<Longrightarrow> v = isa_regs s 10 AND 0xff"
  by (simp add: isa_exec_def split: if_splits option.splits)

lemma halted_byte:
  assumes "stops_after n s0 (Halted v)"
  shows "v AND 0xff = v"
proof -
  obtain s where "isa_step s = Halted v" using assms by (auto simp: stops_after_def)
  then obtain d where "isa_exec d s = Halted v" by (auto simp: isa_step_here split: option.splits)
  then show ?thesis using exec_halted [of d s v] by (simp add: word_bw_assocs)
qed

text \<open>The last running state of a core that stops, and the state after it.\<close>

lemma core_counted:
  assumes "permutes shuffle" and "loads inputs"
  shows "counted (image_start inputs) 0 [] 0 (image_start inputs) (loaded_core shuffle e inputs)"
  using loaded_counted [OF orders_ok_new [OF assms(1)], of inputs e] assms(2)
  by (simp add: loaded_start loads_core)

lemma core_end:
  assumes "permutes shuffle" and "loads inputs" and "code_stable (image_start inputs)"
    and "stops_after n (image_start inputs) q"
  obtains i m s b where "i < 52 * Suc n"
    "counted (image_start inputs) i (committed_branches i (loaded_core shuffle e inputs)) m s b"
    "cpu_cycles i (loaded_core shuffle e inputs) = Some b" "cpu_status b = CpuRunning"
    "finishes_in (Suc i) (loaded_core shuffle e inputs) (next_cpu b)"
    "cpu_run (loaded_core shuffle e inputs)
       = Some (next_cpu b, \<lparr>rr_status = cpu_status (next_cpu b), rr_value = exit_code (next_cpu b)\<rparr>)"
    "ends_right (image_start inputs) (next_cpu b)"
proof -
  let ?l = "loaded_core shuffle e inputs"
  note k = core_counted [OF assms(1,2), of e]
  obtain c where c: "cpu_cycles (52 * Suc n) ?l = Some c" "cpu_status c \<noteq> CpuRunning"
    using core_run_stops [OF assms] by blast
  then obtain i m s b where b: "i < 52 * Suc n" "cpu_cycles i ?l = Some b"
      "counted (image_start inputs) i (committed_branches i ?l) m s b" "cycle b = Some c" "c = next_cpu b"
    using cycles_counted [OF k assms(3), of "52 * Suc n"] by auto
  have running: "cpu_status b = CpuRunning" using b(3) by (simp add: counted_def tracks_def)
  then have f: "finishes_in (Suc i) ?l c" using b(2,4) c(2) by (auto simp: finishes_in_def)
  have "cpu_status ?l = CpuRunning" using k by (simp add: counted_def tracks_def)
  then have run: "cpu_run ?l = Some (c, \<lparr>rr_status = cpu_status c, rr_value = exit_code c\<rparr>)"
    using cycles_loop [OF c] by (simp add: cpu_run_def)
  then have "ends_right (image_start inputs) c" using core_run_ends [OF assms(1-3)] by blast
  then show ?thesis using that [OF b(1,3,2) running] run f b(5) by simp
qed

text \<open>The architectural state that the core shows, \<open>s\<close> after \<open>n\<close> instructions.\<close>

definition shows_state :: "isa_state \<Rightarrow> nat \<Rightarrow> CPU \<Rightarrow> bool" where
  "shows_state s n c \<longleftrightarrow> committed_count c = of_nat n
     \<and> (\<forall>x. unat x < 32 \<longrightarrow> cpu_register_value c x = isa_regs s x)
     \<and> (core_memory c = isa_mem s \<or> (\<exists>t. isa_step s = Step t \<and> core_memory c = isa_mem t))"

lemma tracks_shows:
  assumes "tracks s0 n s c"
  shows "shows_state s n c"
proof -
  have "state_is s c" using assms relatedD(4) by (auto simp: tracks_def)
  then show ?thesis
    using assms by (auto simp: shows_state_def tracks_def state_is_def memory_is_def cpu_register_value_def
        split: if_splits)
qed

lemma tracks_shows_next:
  assumes "tracks s0 n s c" and "code_stable s0" and "cpu_status (next_cpu c) = CpuRunning"
  shows "shows_state s n (next_cpu c) \<or> (\<exists>t. isa_step s = Step t \<and> shows_state t (Suc n) (next_cpu c))"
proof (cases "head_commits (rob c)")
  case True
  have "related s c" using assms(1) by (simp add: tracks_def)
  then have "isa_step s = Step (commit_state s c)"
    using head_commit [OF _ True] relatedD(2) going_onD(7) [OF tracks_going_on [OF assms]] by blast
  then show ?thesis using tracks_shows tracks_cycle(2) [OF assms] True by auto
next
  case False
  then show ?thesis using tracks_shows tracks_cycle(2) [OF assms] by auto
qed

section \<open>What \<open>main\<close> writes\<close>

lemma main_from_run:
  assumes "loads inputs" and "cpu_run (loaded_core shuffle (seeded 0) inputs) = Some (c, r)"
  shows "cpu_main shuffle seeded inputs = Some
    (if rr_status r = CpuHalted
     then \<lparr>exit_status = 0, standard_output = decimal (unat (rr_value r AND 0xff)) @ newline,
           error_output = statistics_report c\<rparr>
     else \<lparr>exit_status = 1, standard_output = [], error_output = fault_report r c\<rparr>)"
proof -
  have "load_ok (fst (cpu_load inputs (cpu_new shuffle (seeded 0))))" using assms(1) by (simp add: loads_core)
  then show ?thesis
    using assms(2) by (simp add: cpu_main_def case_prod_beta Let_def rr_halted_def)
qed

text \<open>The exit status and the standard output, and what they should be.\<close>

definition visible :: "ProcessResult \<Rightarrow> int \<times> string" where
  "visible r = (exit_status r, standard_output r)"

fun printed_result :: "isa_outcome \<Rightarrow> int \<times> string" where
  "printed_result (Halted v) = (0, decimal (unat v) @ newline)"
| "printed_result _ = (1, [])"

lemma main_result:
  assumes "permutes shuffle" and "loads inputs" and "code_stable (image_start inputs)"
    and "stops_after n (image_start inputs) q"
  shows "\<exists>c r p. cpu_run (loaded_core shuffle (seeded 0) inputs) = Some (c, r) \<and> cpu_main shuffle seeded inputs = Some p
    \<and> visible p = (if speculative_fault inputs c then (1, []) else printed_result q)"
proof -
  obtain c r where run: "cpu_run (loaded_core shuffle (seeded 0) inputs) = Some (c, r)"
    using core_run_returns [OF assms] by blast
  have e: "ends_right (image_start inputs) c" "rr_status r = cpu_status c" "rr_value r = exit_code c"
    using core_run_ends [OF assms(1-3) run] by simp_all
  note m = main_from_run [where seeded = seeded, OF assms(2) run]
  show ?thesis
  proof (cases "speculative_fault inputs c")
    case True
    then have "cpu_status c = CpuMemoryOutOfBound" by (simp add: speculative_fault_def)
    then show ?thesis using True run m e(2) by (auto simp: visible_def)
  next
    case False
    note a = ends_as_machine [OF e(1) assms(4) False [unfolded speculative_fault_def]]
    show ?thesis
      using run m a(1,2) e(2,3) assms(4) halted_byte
      by (cases q) (auto simp: stops_after_def visible_def False)
  qed
qed

text \<open>The text of the statistics, for \<open>k\<close> cycles, \<open>n\<close> instructions and \<open>m\<close> right predictions of \<open>b\<close>
  branches.\<close>

definition statistics_text :: "nat \<Rightarrow> nat \<Rightarrow> nat \<Rightarrow> nat \<Rightarrow> string" where
  "statistics_text k n b m =
     ''cycles: '' @ decimal k @ newline @ ''committed: '' @ decimal n @ newline
       @ ''branches: '' @ decimal b @ newline @ ''correct predictions: '' @ decimal m @ newline
       @ ''accuracy: ''
       @ print_double (if b = 0 then (0, 0) else double_div (double_of_uint m) (double_of_uint b)) @ newline"

lemma statistics_counts:
  assumes "cycle_count c = of_nat k" and "committed_count c = of_nat n"
    and "prediction_count (branch_predictor c) = of_nat b" and "correct_count (branch_predictor c) = of_nat m"
    and "k < 2 ^ 64" and "n < 2 ^ 64" and "b < 2 ^ 64" and "m < 2 ^ 64"
  shows "statistics_report c = statistics_text k n b m"
proof -
  have u: "unat (of_nat x :: CycleCount) = x" if "x < 2 ^ 64" for x
    using that by (simp add: unat_of_nat)
  have "prediction_count (branch_predictor c) = 0 \<longleftrightarrow> b = 0"
    by (simp only: assms(3) u [OF assms(7)] unat_eq_0 [symmetric])
  then show ?thesis
    by (simp only: statistics_report_def statistics_text_def branch_count_def correct_branch_count_def
        branch_accuracy_def accuracy_def assms(1-4) u [OF assms(5)] u [OF assms(6)] u [OF assms(7)] u [OF assms(8)])
qed

lemma main_statistics:
  assumes "permutes shuffle" and "loads inputs" and "code_stable (image_start inputs)"
    and "stops_after n (image_start inputs) (Halted v)" and "52 * (n + 1) < 2 ^ 64"
    and "l = loaded_core shuffle (seeded 0) inputs"
  shows "\<exists>k c r. finishes_in k l c \<and> cpu_run l = Some (c, r)
    \<and> (speculative_fault inputs c
       \<or> n < k \<and> k \<le> 52 * (n + 1)
         \<and> map entry_event (committed_branches k l) = branch_trace n (image_start inputs)
         \<and> cpu_main shuffle seeded inputs = Some
             \<lparr>exit_status = 0, standard_output = decimal (unat v) @ newline,
              error_output = statistics_text k n (length (branch_trace n (image_start inputs)))
                (length (filter predicted_right (committed_branches k l)))\<rparr>)"
proof -
  obtain i j s b where b: "i < 52 * Suc n" "counted (image_start inputs) i (committed_branches i l) j s b"
      "cpu_cycles i l = Some b" "cpu_status b = CpuRunning" "finishes_in (Suc i) l (next_cpu b)"
      "cpu_run l = Some (next_cpu b, \<lparr>rr_status = cpu_status (next_cpu b), rr_value = exit_code (next_cpu b)\<rparr>)"
      "ends_right (image_start inputs) (next_cpu b)"
    by (rule core_end [OF assms(1-4), of "seeded 0"]) (simp add: assms(6))
  show ?thesis
  proof (cases "speculative_fault inputs (next_cpu b)")
    case True
    then show ?thesis using b(5,6) by blast
  next
    case False
    note a = ends_as_machine [OF b(7) assms(4) False [unfolded speculative_fault_def]]
    have h: "cpu_status (next_cpu b) = CpuHalted" "exit_code (next_cpu b) = v" using a(1,2) by simp_all
    note hc = halted_counts [OF b(2) h(1)]
    have j: "j = n" using stops_unique(1) [OF hc(1) assms(4)] .
    let ?es = "committed_branches (Suc i) l" and ?t = "branch_trace n (image_start inputs)"
    have es: "?es = committed_branches i l" by (simp only: committed_branches_Suc [OF b(3,4)] hc(5) append_Nil2)
    have tr: "map entry_event ?es = ?t" "n \<le> i"
      using b(2) by (simp_all only: counted_def j es)
    then have len: "length ?es = length ?t" by (metis length_map)
    note tc = trained_counts [OF hc(4) [folded es], unfolded len]
    have "length (filter predicted_right ?es) \<le> length ?t" "length ?t \<le> n"
      using length_filter_le [of predicted_right ?es] by (simp_all only: len branch_trace_length)
    moreover have "Suc i < 2 ^ 64" "n < 2 ^ 64" using b(1) assms(5) by simp_all
    ultimately have small: "Suc i < 2 ^ 64" "n < 2 ^ 64" "length ?t < 2 ^ 64"
        "length (filter predicted_right ?es) < 2 ^ 64" by linarith+
    have "statistics_report (next_cpu b)
        = statistics_text (Suc i) n (length ?t) (length (filter predicted_right ?es))"
      by (rule statistics_counts [OF hc(2) hc(3) [unfolded j] tc small])
    then have "cpu_main shuffle seeded inputs = Some
        \<lparr>exit_status = 0, standard_output = decimal (unat v) @ newline,
         error_output = statistics_text (Suc i) n (length ?t) (length (filter predicted_right ?es))\<rparr>"
      using main_from_run [where seeded = seeded, OF assms(2) b(6) [unfolded assms(6)]] h halted_byte [OF assms(4)]
      by (simp del: committed_branches.simps)
    moreover have "n < Suc i" "Suc i \<le> 52 * (n + 1)" using tr(2) b(1) by simp_all
    ultimately show ?thesis using b(5,6) tr(1) by blast
  qed
qed

lemma main_fault_address:
  assumes "permutes shuffle" and "loads inputs" and "code_stable (image_start inputs)"
    and "isa_run n (image_start inputs) = Step s" and "isa_step s \<in> {FetchFault, Illegal}"
  shows "\<exists>c r. cpu_run (loaded_core shuffle (seeded 0) inputs) = Some (c, r)
    \<and> (speculative_fault inputs c
       \<or> cpu_main shuffle seeded inputs = Some \<lparr>exit_status = 1, standard_output = [],
           error_output = ''CPU stopped with status '' @ decimal (status_code (status_of (isa_step s)))
             @ '' at pc=0x'' @ hexadecimal (unat (isa_pc s)) @ newline\<rparr>)"
proof -
  have st: "stops_after n (image_start inputs) (isa_step s)" using assms(4,5) by (auto simp: stops_after_def)
  obtain i j t b where b: "counted (image_start inputs) i (committed_branches i (loaded_core shuffle (seeded 0) inputs)) j t b"
      "cpu_run (loaded_core shuffle (seeded 0) inputs)
         = Some (next_cpu b, \<lparr>rr_status = cpu_status (next_cpu b), rr_value = exit_code (next_cpu b)\<rparr>)"
      "ends_right (image_start inputs) (next_cpu b)"
    by (rule core_end [OF assms(1-3) st, of "seeded 0"])
  have tr: "tracks (image_start inputs) j t b" using b(1) by (simp add: counted_def)
  show ?thesis
  proof (cases "speculative_fault inputs (next_cpu b)")
    case True
    then show ?thesis using b(2) by blast
  next
    case False
    note a = ends_as_machine [OF b(3) st False [unfolded speculative_fault_def]]
    have q: "cpu_status (next_cpu b) \<in> {CpuFetchOutOfBound, CpuInvalidInstruction}"
      using a(1) assms(5) by auto
    have t: "isa_step t = isa_step s" "isa_run j (image_start inputs) = Step t"
      using stopped_step [OF tr q] a(1) assms(5) tr by (auto simp: tracks_def)
    then have "stops_after j (image_start inputs) (isa_step s)" using assms(5) by (auto simp: stops_after_def)
    then have "j = n" by (rule stops_unique(1) [OF _ st])
    then have "t = s" using t(2) assms(4) by simp
    then have pc: "cpu_pc (next_cpu b) = isa_pc s" using stopped_address [OF tr q] by simp
    have "cpu_main shuffle seeded inputs = Some \<lparr>exit_status = 1, standard_output = [],
        error_output = ''CPU stopped with status '' @ decimal (status_code (status_of (isa_step s)))
          @ '' at pc=0x'' @ hexadecimal (unat (isa_pc s)) @ newline\<rparr>"
      using main_from_run [where seeded = seeded, OF assms(2) b(2)] q a(1) by (auto simp: fault_report_def pc)
    then show ?thesis using b(2) by blast
  qed
qed

text \<open>Without a branch or a jump on the execution there is no mispredicted path.\<close>

definition straight_line :: "isa_state \<Rightarrow> bool" where
  "straight_line s \<longleftrightarrow> (\<forall>t. isa_reach s t \<longrightarrow>
     \<not> branch_op (fetched_op (isa_mem t) (isa_pc t)) \<and> \<not> jump_op (fetched_op (isa_mem t) (isa_pc t)))"

lemma straight_line_fault:
  assumes "straight_line (image_start inputs)"
  shows "\<not> speculative_fault inputs c"
proof
  assume "speculative_fault inputs c"
  then obtain n s b where t: "tracks (image_start inputs) n s b" and w: "wrong_path_load s b"
    by (auto simp: speculative_fault_def)
  obtain pre x post t where x: "rob_entries b = pre @ x # post" "is_control_instruction x" "final (Some s) pre = Some t"
    using w by (auto simp: wrong_path_load_def)
  have n: "isa_run n (image_start inputs) = Step s" and rel: "related s b" using t by (simp_all add: tracks_def)
  note r = relatedD [OF rel]
  have xin: "(x, Some t) \<in> set (path s b)" using path_at [OF x(1), of "Some s"] x(3) by simp
  then have "entry_ok x t" using entries_okD [OF _ xin] r(2) by (simp add: flight_right_def)
  then obtain d where d: "here t = Some d" "di_is_branch d \<or> di_is_jump d"
    using x(2) by (auto simp: entry_ok_def entry_at_def is_control_instruction_def)
  have "isa_reach (image_start inputs) t"
    using isa_reach_trans [OF isa_run_reach [OF n] annot_reach [OF xin]] .
  then show False
    using assms d decoded_wfD(6,7) [OF here_wf [OF d(1)]]
    by (auto simp: straight_line_def fetched_op_def here_def split: option.splits)
qed

section \<open>The reference interpreter\<close>

abbreviation loaded_interpreter :: "istream \<Rightarrow> Interpreter" where
  "loaded_interpreter inputs \<equiv> fst (interpreter_load inputs interpreter_new)"

lemma interpreter_start:
  assumes "loads inputs"
  shows "isa_of (loaded_interpreter inputs) = image_start inputs"
    and "interp_invar (loaded_interpreter inputs)" "runnable (loaded_interpreter inputs)"
  using assms
  by (simp_all add: interpreter_load_def Let_def case_prod_beta isa_of_def image_start_def fun_eq_iff
      register_value_def interp_invar_def runnable_def loads_def interpreter_new_def)

lemma machine_stops:
  assumes "loads inputs" and "slt_free (image_start inputs)" and "run (loaded_interpreter inputs) = Some j"
  shows "\<exists>n. stops_after n (image_start inputs) (outcome_of j)"
proof -
  note i = interpreter_start [OF assms(1)]
  have r: "run (loaded_interpreter inputs) = run_loop (loaded_interpreter inputs)"
    using i(3) by (auto simp: run_def runnable_def)
  obtain n where "isa_run n (image_start inputs) = outcome_of j" "\<forall>s. outcome_of j \<noteq> Step s"
    using run_loop_sound [OF assms(3) [unfolded r] i(2,3)] assms(2) by (auto simp: i(1))
  then show ?thesis using run_stops by blast
qed

section \<open>A program\<close>

text \<open>\<open>addi a0, x0, 42\<close> and the halt instruction, as an image.\<close>

definition demo_bytes :: "Byte list" where
  "demo_bytes = [0x13, 0x05, 0xa0, 0x02, 0x13, 0x05, 0xf0, 0x0f]"

definition demo_image :: istream where
  "demo_image = \<lparr>is_chars = print_image [(0, demo_bytes)], is_bad = False\<rparr>"

lemma decimal_42: "decimal 42 = ''42''"
  by code_simp

lemma demo_fits: "list_all section_fits [(0, demo_bytes)]"
  by (simp add: section_fits_def demo_bytes_def kMemorySize_def)

lemma demo_loads: "loads demo_image"
  unfolding loads_def demo_image_def by (rule printed_image_loads(1) [OF demo_fits])

lemma demo_words:
  "read_word (isa_mem (image_start demo_image)) 0 = Some 0x02a00513"
  "read_word (isa_mem (image_start demo_image)) 4 = Some 0x0ff00513"
proof -
  have b: "bytes (isa_mem (image_start demo_image)) = place (0, demo_bytes) (\<lambda>_. 0)"
    unfolding image_start_def demo_image_def using printed_image_loads(2) [OF demo_fits] by simp
  show "read_word (isa_mem (image_start demo_image)) 0 = Some 0x02a00513"
    "read_word (isa_mem (image_start demo_image)) 4 = Some 0x0ff00513"
    by (simp_all add: read_word_def b place_def demo_bytes_def in_bounds_def kMemorySize_def Let_def
        push_bit_eq_mult)
qed

lemma demo_decoded:
  "di_op (decode 0x02a00513) = OP_ADDI" "di_rd (decode 0x02a00513) = 10"
  "di_rs1 (decode 0x02a00513) = 0" "di_immediate (decode 0x02a00513) = 42"
  "di_op (decode 0x0ff00513) = OP_HALT"
  by code_simp+

definition demo_second :: isa_state where
  "demo_second = (image_start demo_image)\<lparr>isa_pc := 4, isa_regs := (\<lambda>_. 0)(10 := 42)\<rparr>"

lemma start_fields [simp]: "isa_pc (image_start inputs) = 0" "isa_regs (image_start inputs) = (\<lambda>_. 0)"
  by (simp_all add: image_start_def)

lemma demo_steps:
  "isa_step (image_start demo_image) = Step demo_second" "isa_step demo_second = Halted 42"
proof -
  show "isa_step (image_start demo_image) = Step demo_second"
    by (simp add: isa_step_def demo_words isa_exec_def demo_decoded op_classes isa_next_pc_def
        isa_value_def isa_rs1_def set_reg_def demo_second_def)
  show "isa_step demo_second = Halted 42"
    by (simp add: isa_step_def demo_second_def demo_words isa_exec_def demo_decoded)
qed

lemma demo_reach: "isa_reach (image_start demo_image) t \<Longrightarrow> t = image_start demo_image \<or> t = demo_second"
  by (induction "image_start demo_image" t rule: isa_reach.induct) (auto simp: demo_steps)

lemma demo_same_memory: "isa_mem demo_second = isa_mem (image_start demo_image)"
  by (simp add: demo_second_def)

lemma demo_stable: "code_stable (image_start demo_image)"
proof -
  have "isa_mem t = isa_mem (image_start demo_image)" if "isa_reach (image_start demo_image) t" for t
    using demo_reach [OF that] demo_same_memory by auto
  then show ?thesis unfolding code_stable_def using isa_reach_trans by metis
qed

lemma demo_stops: "stops_after 1 (image_start demo_image) (Halted 42)"
  by (simp add: stops_after_def demo_steps numeral_eq_Suc)

lemma demo_slt_free: "slt_free (image_start demo_image)"
proof -
  have "fetched_op (isa_mem t) (isa_pc t) \<notin> {OP_SLT, OP_SLTU}"
    if "isa_reach (image_start demo_image) t" for t
    using demo_reach [OF that]
    by (auto simp: fetched_op_def demo_second_def demo_words demo_decoded)
  then show ?thesis by (simp add: slt_free_def)
qed

lemma demo_straight: "straight_line (image_start demo_image)"
proof -
  have "\<not> branch_op (fetched_op (isa_mem t) (isa_pc t)) \<and> \<not> jump_op (fetched_op (isa_mem t) (isa_pc t))"
    if "isa_reach (image_start demo_image) t" for t
    using demo_reach [OF that]
    by (auto simp: fetched_op_def demo_second_def demo_words demo_decoded op_classes)
  then show ?thesis by (simp add: straight_line_def)
qed

text \<open>The empty image: the machine stops at once, at an illegal instruction.\<close>

definition empty_image :: istream where
  "empty_image = \<lparr>is_chars = print_image [], is_bad = False\<rparr>"

lemma empty_loads: "loads empty_image"
  unfolding loads_def empty_image_def by (rule printed_image_loads(1)) simp

lemma empty_step: "isa_step (image_start empty_image) = Illegal"
proof -
  have b: "bytes (isa_mem (image_start empty_image)) = (\<lambda>_. 0)"
    unfolding image_start_def empty_image_def using printed_image_loads(2) [of "[]"] by simp
  have "read_word (isa_mem (image_start empty_image)) 0 = Some 0"
    by (simp add: read_word_def b in_bounds_def kMemorySize_def Let_def)
  moreover have "di_op (decode 0) = OP_INVALID" by code_simp
  ultimately show ?thesis by (simp add: isa_step_def isa_exec_def)
qed

lemma empty_reach: "isa_reach (image_start empty_image) t \<Longrightarrow> t = image_start empty_image"
  by (induction "image_start empty_image" t rule: isa_reach.induct) (auto simp: empty_step)

lemma empty_stable: "code_stable (image_start empty_image)"
  using empty_reach unfolding code_stable_def by blast

abbreviation reversing :: "nat \<Rightarrow> nat list \<Rightarrow> nat list \<times> nat" where
  "reversing \<equiv> \<lambda>e xs. (rev xs, e)"

lemma reversing_permutes: "permutes reversing"
  by (simp add: permutes_def)

lemma demo_first_cycle:
  "\<exists>c. cpu_cycles 1 (loaded_core reversing 0 demo_image) = Some c \<and> cpu_status c = CpuRunning"
proof -
  let ?c = "loaded_core reversing 0 demo_image"
  note t = core_tracks [OF reversing_permutes demo_loads, of 0]
  have r: "related (image_start demo_image) ?c" and run: "cpu_status ?c = CpuRunning"
    using t by (simp_all add: tracks_def)
  note l = loaded_fields [of demo_image "cpu_new reversing 0"]
  have e: "rob_entries ?c = []" "lsq_entries ?c = []" by (simp_all add: l new_lists)
  have "fetched ?c = Some 0x02a00513" using empty_fetch [OF r e(1)] demo_words(1) by simp
  then have "cpu_status (next_cpu ?c) = CpuRunning"
    using e run demo_decoded(1) relatedD(5) [OF r]
    by (simp add: next_control(5) head_commits_def response_for_head_def)
  then show ?thesis using tracks_cycle(1) [OF t demo_stable] run by (intro exI [of _ "next_cpu ?c"]) simp
qed

lemma demo_interpreted:
  "\<exists>j. run (loaded_interpreter demo_image) = Some j \<and> outcome_of j = Halted 42"
proof -
  note i = interpreter_start [OF demo_loads]
  have "isa_run 2 (isa_of (loaded_interpreter demo_image)) = Halted 42"
    by (simp add: i(1) demo_steps numeral_eq_Suc)
  then show ?thesis using run_iff [OF i(2,3), of "Halted 42"] demo_slt_free i(1) by auto
qed

section \<open>Properties\<close>

text \<open>C1: the out-of-order core computes what the sequential machine computes.  When \<open>run\<close> returns
  on a loaded image whose code is not overwritten (\<open>code_stable\<close>: no word at which the sequential
  machine arrives has changed before), and \<open>std::shuffle\<close> permutes, the status tells how the sequential machine ends on that image.  \<open>CpuHalted\<close>: it halts
  after exactly \<open>committed_count\<close> instructions, with the low byte of \<open>a0\<close> as the value.
  \<open>CpuFetchOutOfBound\<close> and \<open>CpuInvalidInstruction\<close>: it reaches a fetch outside the memory or an
  illegal instruction after exactly \<open>committed_count\<close> instructions.  \<open>CpuMemoryOutOfBound\<close>: it
  has an access outside the memory after at least \<open>committed_count\<close> instructions, older
  instructions being still in flight in the core, with one exception: the core may also have met a
  failing load on a mispredicted path.\<close>

theorem core_refines_isa:
  assumes "permutes shuffle" and "loads inputs" and "code_stable (image_start inputs)"
    and "cpu_run (loaded_core shuffle e inputs) = Some (c, r)"
  shows "ends_right (image_start inputs) c \<and> rr_status r = cpu_status c \<and> rr_value r = exit_code c"
  by (rule core_run_ends [OF assms])

theorem core_refines_isa_witness:
  "\<exists>c r. cpu_run (loaded_core reversing 0 demo_image) = Some (c, r)
     \<and> ends_right (image_start demo_image) c \<and> rr_status r = cpu_status c"
proof -
  obtain c r where "cpu_run (loaded_core reversing 0 demo_image) = Some (c, r)"
    using core_run_returns [OF reversing_permutes demo_loads demo_stable demo_stops] by blast
  then show ?thesis
    using core_refines_isa [OF reversing_permutes demo_loads demo_stable] by blast
qed

text \<open>C2: the core makes progress.  If, on a loaded image whose code is not overwritten, the
  sequential machine stops after \<open>n\<close> instructions, the core stops within \<open>52 * (n + 1)\<close> cycles: no
  instruction waits for ever in the reservation station, in the load/store queue, for the memory port
  or for the bus.\<close>

theorem core_stops_in_time:
  assumes "permutes shuffle" and "loads inputs" and "code_stable (image_start inputs)"
    and "stops_after n (image_start inputs) q"
  shows "\<exists>c. cpu_cycles (52 * Suc n) (loaded_core shuffle e inputs) = Some c \<and> cpu_status c \<noteq> CpuRunning"
  by (rule core_run_stops [OF assms])

theorem core_stops_in_time_witness:
  "\<exists>c. cpu_cycles 104 (loaded_core reversing 0 demo_image) = Some c \<and> cpu_status c \<noteq> CpuRunning"
  using core_stops_in_time [OF reversing_permutes demo_loads demo_stable demo_stops, of 0] by simp

text \<open>C3: what \<open>main\<close> prints.  On a loaded image whose code is not overwritten and on which the
  sequential machine stops, \<open>main\<close> returns: it prints the low byte of \<open>a0\<close> in decimal and succeeds if
  the machine halts, and it prints nothing on the standard output and fails if the machine faults.
  There is one exception: when the core has met a failing load on a mispredicted path, \<open>main\<close> prints
  nothing and fails, however the machine ends.\<close>

theorem main_prints_result:
  assumes "permutes shuffle" and "loads inputs" and "code_stable (image_start inputs)"
    and "stops_after n (image_start inputs) q"
  shows "\<exists>c r p. cpu_run (loaded_core shuffle (seeded 0) inputs) = Some (c, r) \<and> cpu_main shuffle seeded inputs = Some p
    \<and> visible p = (if speculative_fault inputs c then (1, []) else printed_result q)"
  by (rule main_result [OF assms])

theorem main_prints_result_witness:
  "\<exists>c p. cpu_main reversing id demo_image = Some p
     \<and> visible p = (if speculative_fault demo_image c then (1, []) else (0, ''42'' @ newline))"
  using main_prints_result [OF reversing_permutes demo_loads demo_stable demo_stops, of id]
  by (auto simp: decimal_42)

text \<open>C4: the exact result.  On a loaded image whose code is not overwritten and whose execution
  meets no branch or jump and stops, \<open>main\<close> returns the result of the sequential machine and nothing
  else: the exception of the failing load on a mispredicted path cannot occur.\<close>

theorem main_exact_on_straight_line:
  assumes "permutes shuffle" and "loads inputs" and "code_stable (image_start inputs)"
    and "straight_line (image_start inputs)" and "stops_after n (image_start inputs) q"
  shows "\<exists>p. cpu_main shuffle seeded inputs = Some p \<and> visible p = printed_result q"
  using main_result [OF assms(1-3,5), of seeded] straight_line_fault [OF assms(4)] by auto

theorem main_exact_on_straight_line_witness:
  "\<exists>p. cpu_main reversing id demo_image = Some p \<and> visible p = (0, ''42'' @ newline)"
  using main_exact_on_straight_line [OF reversing_permutes demo_loads demo_stable demo_straight demo_stops, of id]
  by (simp add: decimal_42)

text \<open>C5: the statistics are right.  Let the code of a loaded image not be overwritten, and the
  sequential machine halt on it after \<open>n\<close> instructions, fewer than would overflow the counters.  The
  loop of \<open>run\<close> executes exactly some number \<open>k\<close> of cycles, more than \<open>n\<close> and at most \<open>52 * (n + 1)\<close>;
  the branches that commit in these cycles are, in their order and with their directions and
  successors, the branches of the sequential execution; and \<open>main\<close> reports on the error stream
  this \<open>k\<close>, then \<open>n\<close> committed instructions, the number of these branches, the number of those
  whose successor is the address that the fetch had predicted, and the quotient of the last two.
  The one exception is that the core has met a failing load on a mispredicted path.\<close>

theorem main_reports_statistics:
  assumes "permutes shuffle" and "loads inputs" and "code_stable (image_start inputs)"
    and "stops_after n (image_start inputs) (Halted v)" and "52 * (n + 1) < 2 ^ 64"
    and "l = loaded_core shuffle (seeded 0) inputs"
  shows "\<exists>k c r. finishes_in k l c \<and> cpu_run l = Some (c, r)
    \<and> (speculative_fault inputs c
       \<or> n < k \<and> k \<le> 52 * (n + 1)
         \<and> map entry_event (committed_branches k l) = branch_trace n (image_start inputs)
         \<and> cpu_main shuffle seeded inputs = Some
             \<lparr>exit_status = 0, standard_output = decimal (unat v) @ newline,
              error_output = statistics_text k n (length (branch_trace n (image_start inputs)))
                (length (filter predicted_right (committed_branches k l)))\<rparr>)"
  using assms by (rule main_statistics)

theorem main_reports_statistics_witness:
  "\<exists>k c. finishes_in k (loaded_core reversing 0 demo_image) c
     \<and> (speculative_fault demo_image c
       \<or> 1 < k \<and> k \<le> 104 \<and> cpu_main reversing id demo_image = Some
          \<lparr>exit_status = 0, standard_output = ''42'' @ newline, error_output = statistics_text k 1 0 0\<rparr>)"
proof -
  let ?l = "loaded_core reversing 0 demo_image"
  have b: "branch_trace 1 (image_start demo_image) = []"
    by (simp add: branch_at_def here_def demo_words demo_decoded op_classes demo_steps)
  have "52 * (1 + 1) < (2 :: nat) ^ 64" "?l = loaded_core reversing (id 0) demo_image" by simp_all
  from main_reports_statistics [where seeded = id, OF reversing_permutes demo_loads demo_stable demo_stops this]
  obtain k c where k: "finishes_in k ?l c"
      "speculative_fault demo_image c
       \<or> 1 < k \<and> k \<le> 52 * (1 + 1) \<and> map entry_event (committed_branches k ?l) = []
         \<and> cpu_main reversing id demo_image = Some
             \<lparr>exit_status = 0, standard_output = decimal (unat (42 :: Word)) @ newline,
              error_output = statistics_text k 1 (length ([] :: branch_event list))
                (length (filter predicted_right (committed_branches k ?l)))\<rparr>"
    unfolding b by auto
  show ?thesis
  proof (cases "speculative_fault demo_image c")
    case True
    then show ?thesis using k(1) by blast
  next
    case False
    then have "committed_branches k ?l = []" using k(2) by simp
    then show ?thesis using k False by (intro exI [of _ k] exI [of _ c]) (simp add: decimal_42)
  qed
qed

text \<open>C6: the reported address.  When, on a loaded image whose code is not overwritten, the
  sequential machine reaches a fetch outside the memory or an illegal instruction, the error message of
  \<open>main\<close> tells the status and the address of exactly that instruction, although the core had fetched
  ahead.  The one exception is that the core has met a failing load on a mispredicted path before.\<close>

theorem main_reports_fault_address:
  assumes "permutes shuffle" and "loads inputs" and "code_stable (image_start inputs)"
    and "isa_run n (image_start inputs) = Step s" and "isa_step s \<in> {FetchFault, Illegal}"
  shows "\<exists>c r. cpu_run (loaded_core shuffle (seeded 0) inputs) = Some (c, r)
    \<and> (speculative_fault inputs c
       \<or> cpu_main shuffle seeded inputs = Some \<lparr>exit_status = 1, standard_output = [],
           error_output = ''CPU stopped with status '' @ decimal (status_code (status_of (isa_step s)))
             @ '' at pc=0x'' @ hexadecimal (unat (isa_pc s)) @ newline\<rparr>)"
  using main_fault_address [OF assms] by blast

theorem main_reports_fault_address_witness:
  "\<exists>c. speculative_fault empty_image c
     \<or> cpu_main reversing id empty_image = Some \<lparr>exit_status = 1, standard_output = [],
          error_output = ''CPU stopped with status 5 at pc=0x0'' @ newline\<rparr>"
proof -
  have "decimal 5 = ''5''" "hexadecimal 0 = ''0''" by code_simp+
  then show ?thesis
    using main_reports_fault_address [OF reversing_permutes empty_loads empty_stable, of 0 "image_start empty_image" id]
    by (auto simp: empty_step)
qed

text \<open>C7: the predictor learns from the sequential execution only.  On a loaded image whose code
  is not overwritten, after \<open>k\<close> cycles of a core that is still running, \<open>cycle_count\<close> is \<open>k\<close>, and
  \<open>committed_count\<close> is a number \<open>n \<le> k\<close> of instructions of the sequential machine.  The branches
  that have committed are, with their addresses, directions and successors, those of the first \<open>n\<close>
  instructions in program order; and the two-bit counters and the statistics are those of a predictor
  trained on these branches in this order and on nothing else, so that branches on mispredicted paths
  leave no trace.\<close>

theorem core_trains_predictor:
  assumes "permutes shuffle" and "loads inputs" and "code_stable (image_start inputs)"
    and "l = loaded_core shuffle e inputs"
    and "cpu_cycles k l = Some c" and "cpu_status c = CpuRunning"
  shows "\<exists>n s. n \<le> k \<and> isa_run n (image_start inputs) = Step s \<and> committed_count c = of_nat n
    \<and> cycle_count c = of_nat k
    \<and> map entry_event (committed_branches k l) = branch_trace n (image_start inputs)
    \<and> trained_on (committed_branches k l) (branch_predictor c)"
proof -
  obtain n s where "counted (image_start inputs) (0 + k) ([] @ committed_branches k l) n s c"
    using cycles_counted [OF core_counted [OF assms(1,2)] assms(3), of k e] assms(4-6) by auto
  then show ?thesis by (auto simp: counted_def tracks_def)
qed

theorem core_trains_predictor_witness:
  "\<exists>c n. cpu_cycles 1 (loaded_core reversing 0 demo_image) = Some c \<and> n \<le> 1
     \<and> map entry_event (committed_branches 1 (loaded_core reversing 0 demo_image))
         = branch_trace n (image_start demo_image)
     \<and> trained_on (committed_branches 1 (loaded_core reversing 0 demo_image)) (branch_predictor c)"
proof -
  obtain c where c: "cpu_cycles 1 (loaded_core reversing 0 demo_image) = Some c" "cpu_status c = CpuRunning"
    using demo_first_cycle by blast
  then show ?thesis
    using core_trains_predictor [OF reversing_permutes demo_loads demo_stable refl c] by blast
qed

text \<open>C8: no assertion of the core can fail.  On a loaded image whose code is not overwritten every
  number of cycles can be executed: tags are allocated, requests accepted, results never
  overwritten, and stores scheduled only inside the memory.\<close>

theorem core_assertions_hold:
  assumes "permutes shuffle" and "loads inputs" and "code_stable (image_start inputs)"
  shows "cpu_cycles n (loaded_core shuffle e inputs) \<noteq> None"
  using cycles_track [OF core_tracks [OF assms(1,2)] assms(3), of n] by auto

theorem core_assertions_hold_witness:
  "\<forall>n. cpu_cycles n (loaded_core reversing 0 demo_image) \<noteq> None"
  using core_assertions_hold [OF reversing_permutes demo_loads demo_stable] by blast

text \<open>C9: the state is precise.  On a loaded image whose code is not overwritten, after \<open>k\<close>
  cycles of a core that is still running there is one state of the sequential machine, after
  \<open>n \<le> k\<close> instructions, that the core shows: \<open>committed_count\<close> is \<open>n\<close>, every register holds the value of
  that state, whatever is in flight, and the memory is that of that state or, when a store has
  reached the memory just before its commit, of the next one.  The next cycle, unless it ends the
  program, shows the same state or commits exactly one instruction and shows its successor.\<close>

theorem core_state_is_precise:
  assumes "permutes shuffle" and "loads inputs" and "code_stable (image_start inputs)"
    and "cpu_cycles k (loaded_core shuffle e inputs) = Some c" and "cpu_status c = CpuRunning"
  shows "\<exists>n s d. n \<le> k \<and> isa_run n (image_start inputs) = Step s \<and> shows_state s n c \<and> cycle c = Some d
    \<and> (cpu_status d = CpuRunning \<longrightarrow>
         shows_state s n d \<or> (\<exists>t. isa_step s = Step t \<and> shows_state t (Suc n) d))"
proof -
  obtain es n s where "counted (image_start inputs) (0 + k) es n s c"
    using cycles_counted [OF core_counted [OF assms(1,2), of e] assms(3), of k] assms(4,5) by auto
  then have n: "n \<le> k" and t: "tracks (image_start inputs) n s c" by (simp_all add: counted_def)
  have "cpu_status (next_cpu c) = CpuRunning \<longrightarrow>
      shows_state s n (next_cpu c) \<or> (\<exists>t. isa_step s = Step t \<and> shows_state t (Suc n) (next_cpu c))"
    using tracks_shows_next [OF t assms(3)] by blast
  then show ?thesis
    using n t tracks_shows [OF t] tracks_cycle(1) [OF t assms(3)] by (auto simp: tracks_def)
qed

theorem core_state_is_precise_witness:
  "\<exists>c n s. cpu_cycles 1 (loaded_core reversing 0 demo_image) = Some c \<and> n \<le> 1
     \<and> isa_run n (image_start demo_image) = Step s \<and> shows_state s n c"
proof -
  obtain c where c: "cpu_cycles 1 (loaded_core reversing 0 demo_image) = Some c" "cpu_status c = CpuRunning"
    using demo_first_cycle by blast
  then show ?thesis
    using core_state_is_precise [OF reversing_permutes demo_loads demo_stable c] by blast
qed

text \<open>C10: nothing is lost or duplicated.  On a loaded image whose code is not overwritten, after every
  cycle of a running core each instruction of the reorder buffer that is not finished waits in exactly
  one place: in the reservation station or in the integer unit, or, for memory accesses and in program
  order, as the load result or in the load/store queue; and the rename table names the youngest writer of every register.\<close>

theorem core_accounts_for_instructions:
  assumes "permutes shuffle" and "loads inputs" and "code_stable (image_start inputs)"
    and "cpu_cycles k (loaded_core shuffle e inputs) = Some c" and "cpu_status c = CpuRunning"
  shows "unit_accounted (rs_bag (reservation_station c)) (unit_result c) (rob_entries c)
    \<and> memory_accounted (loaded c) (lsq_entries c) (rob_entries c)
    \<and> rat_lookup (rename_table c) x = renames (rob_entries c) x"
proof -
  obtain n s where "tracks (image_start inputs) n s c"
    using cycles_track [OF core_tracks [OF assms(1,2), of e] assms(3), of k] assms(4,5) by auto
  then show ?thesis by (simp add: tracks_def related_def queues_ok_def)
qed

theorem core_accounts_for_instructions_witness:
  "\<exists>c. cpu_cycles 1 (loaded_core reversing 0 demo_image) = Some c
     \<and> unit_accounted (rs_bag (reservation_station c)) (unit_result c) (rob_entries c)"
proof -
  obtain c where c: "cpu_cycles 1 (loaded_core reversing 0 demo_image) = Some c" "cpu_status c = CpuRunning"
    using demo_first_cycle by blast
  then show ?thesis
    using core_accounts_for_instructions [OF reversing_permutes demo_loads demo_stable c] by blast
qed

text \<open>C11: the core agrees with the reference interpreter.  On a loaded image whose code is not
  overwritten and whose execution meets no \<open>SLT\<close> or \<open>SLTU\<close>, if the interpreter's \<open>run\<close> returns
  then so does the core's, with the same kind of ending and, when halted, the same value.  The one
  exception is that the core has met a failing load on a mispredicted path.\<close>

theorem core_agrees_with_interpreter:
  assumes "permutes shuffle" and "loads inputs" and "code_stable (image_start inputs)"
    and "slt_free (image_start inputs)" and "run (loaded_interpreter inputs) = Some j"
  shows "\<exists>c r. cpu_run (loaded_core shuffle e inputs) = Some (c, r)
    \<and> (rr_status r = status_of (outcome_of j) \<and> (sr_halted (snd j) \<longrightarrow> rr_value r = sr_value (snd j))
       \<or> speculative_fault inputs c)"
proof -
  obtain n where n: "stops_after n (image_start inputs) (outcome_of j)"
    using machine_stops [OF assms(2,4,5)] by blast
  obtain c r where run: "cpu_run (loaded_core shuffle e inputs) = Some (c, r)"
    using core_run_returns [OF assms(1-3) n] by blast
  have e: "ends_right (image_start inputs) c" "rr_status r = cpu_status c" "rr_value r = exit_code c"
    using core_run_ends [OF assms(1-3) run] by simp_all
  have v: "sr_halted (snd j) \<Longrightarrow> outcome_of j = Halted (sr_value (snd j))"
    by (simp add: sr_halted_def outcome_of_def)
  show ?thesis
  proof (cases "speculative_fault inputs c")
    case True
    then show ?thesis using run by blast
  next
    case False
    note a = ends_as_machine [OF e(1) n False [unfolded speculative_fault_def]]
    have "rr_status r = status_of (outcome_of j) \<and> (sr_halted (snd j) \<longrightarrow> rr_value r = sr_value (snd j))"
      using a(1,2) e(2,3) v by simp
    then show ?thesis using run by blast
  qed
qed

theorem core_agrees_with_interpreter_witness:
  "\<exists>j c r. run (loaded_interpreter demo_image) = Some j \<and> outcome_of j = Halted 42
     \<and> cpu_run (loaded_core reversing 0 demo_image) = Some (c, r)
     \<and> (rr_status r = CpuHalted \<or> speculative_fault demo_image c)"
proof -
  obtain j where j: "run (loaded_interpreter demo_image) = Some j" "outcome_of j = Halted 42"
    using demo_interpreted by blast
  obtain c r where "cpu_run (loaded_core reversing 0 demo_image) = Some (c, r)"
      "rr_status r = status_of (outcome_of j) \<or> speculative_fault demo_image c"
    using core_agrees_with_interpreter [OF reversing_permutes demo_loads demo_stable demo_slt_free j(1), of 0]
    by blast
  then show ?thesis using j by auto
qed

text \<open>C12: the endings and their order.  On a loaded image whose code is not overwritten, in every cycle of a
  running core, HALT at the head of the reorder buffer ends the program; otherwise a failed response of
  the memory for the head of the load/store queue does, whether or not that access is on a mispredicted path; otherwise, when nothing is in
  flight, a fetch outside the memory or an illegal instruction; otherwise the core goes on.\<close>

theorem core_ending_priority:
  assumes "permutes shuffle" and "loads inputs" and "code_stable (image_start inputs)"
    and "cpu_cycles k (loaded_core shuffle e inputs) = Some c" and "cpu_status c = CpuRunning"
  shows "\<exists>d. cycle c = Some d \<and> cpu_status d =
     (if head_commits (rob c) \<and> re_op (hd (rob_entries c)) = OP_HALT then CpuHalted
      else if response_for_head c \<and> \<not> rsp_success (response c) then CpuMemoryOutOfBound
      else if fetching c \<and> rob_entries c = [] \<and> fetched c = None then CpuFetchOutOfBound
      else if fetching c \<and> rob_entries c = []
        \<and> (\<exists>w. fetched c = Some w \<and> di_op (decode w) = OP_INVALID) then CpuInvalidInstruction
      else CpuRunning)"
proof -
  obtain n s where t: "tracks (image_start inputs) n s c"
    using cycles_track [OF core_tracks [OF assms(1,2), of e] assms(3), of k] assms(4,5) by auto
  then have "shapes c" using relatedD(5) by (auto simp: tracks_def)
  note status = next_control(5) [OF this, unfolded assms(5)]
  show ?thesis by (intro exI conjI) (rule tracks_cycle(1) [OF t assms(3)], rule status)
qed

theorem core_ending_priority_witness:
  "\<exists>c d. cpu_cycles 1 (loaded_core reversing 0 demo_image) = Some c \<and> cycle c = Some d
     \<and> cpu_status d \<notin> {CpuNotLoaded, CpuLoadError, CpuInternalError}"
proof -
  obtain c where c: "cpu_cycles 1 (loaded_core reversing 0 demo_image) = Some c" "cpu_status c = CpuRunning"
    using demo_first_cycle by blast
  obtain d where "cycle c = Some d" "cpu_status d \<notin> {CpuNotLoaded, CpuLoadError, CpuInternalError}"
    using core_ending_priority [OF reversing_permutes demo_loads demo_stable c] by (auto split: if_splits)
  then show ?thesis using c by blast
qed

end
