(* ===== verification/Evaluation.thy ===== *)
theory Evaluation
  imports CycleOrder ImageLoadCorrect
begin

text \<open>
  The cycles of the core on a small program, evaluated in the logic.  Bounds checks are evaluated on
  integers, so that the size of the memory is never counted down.
\<close>

section \<open>The programs\<close>

text \<open>\<open>lw x1, 0(x0); addi x1, x1, 1; bne x1, x0, 8; lw x2, -1(x0)\<close> and the halt instruction: the
  branch is taken and jumps over the second load, whose address is outside the memory.\<close>

definition wrong_bytes :: "Byte list" where
  "wrong_bytes = [0x83, 0x20, 0x00, 0x00, 0x93, 0x80, 0x10, 0x00, 0x63, 0x94, 0x00, 0x00,
     0x03, 0x21, 0xf0, 0xff, 0x13, 0x05, 0xf0, 0x0f]"

text \<open>\<open>sw x0, 4(x0)\<close> and the halt instruction, which the store overwrites.\<close>

definition patched_bytes :: "Byte list" where
  "patched_bytes = [0x23, 0x22, 0x00, 0x00, 0x13, 0x05, 0xf0, 0x0f]"

section \<open>Evaluation\<close>

text \<open>
  The canonical cycle with its wires and inputs as arguments, so that each is evaluated once.
\<close>

definition asserts_with :: "CPU \<Rightarrow> PlanWires \<Rightarrow> ApplyInputs \<Rightarrow> bool" where
  "asserts_with c w i \<longleftrightarrow>
     pw_asserts w
     \<and> lsq_apply_asserts (ai_lsq_inputs i) (ai_lsq_decision i) (load_store_queue c)
     \<and> fu_apply_asserts (ai_execute i) (ai_flush i) (ai_integer_granted i) (functional_unit c)
     \<and> memory_apply_asserts (ai_memory_request i) (memory_unit c)
     \<and> (issue_effective w \<longrightarrow>
          snd (rob_apply (ai_rob_inputs i) (ai_rob_decision i) (rob c))
          \<and> (io_write_rs (pw_issue_outputs w) \<longrightarrow>
               snd (rs_apply (ai_rs_inputs i) (ai_rs_decision i) (reservation_station c)))
          \<and> (io_write_lsq (pw_issue_outputs w) \<longrightarrow>
               snd (lsq_apply (ai_lsq_inputs i) (ai_lsq_decision i) (load_store_queue c))))
     \<and> (rso_dispatch_valid (rsd_outputs (pw_rs_decision w)) \<and> rsi_fu_available (ai_rs_inputs i)
          \<and> \<not> cv_flush (cycle_view c) \<longrightarrow>
          snd (fu_apply (ai_execute i) (ai_flush i) (ai_integer_granted i) (functional_unit c)))
     \<and> (rq_valid (lo_memory_request (ld_outputs (pw_lsq_decision w))) \<longrightarrow>
          snd (memory_apply (ai_memory_request i) (memory_unit c)))
     \<and> memory_latch_asserts (fst (memory_apply (ai_memory_request i) (memory_unit c)))"

definition next_pc_with :: "CPU \<Rightarrow> PlanWires \<Rightarrow> Address" where
  "next_pc_with c w =
     (if ro_flush (pw_rob_decision w) then ro_redirect_pc (pw_rob_decision w)
      else if issue_effective w then re_predicted_next_pc (io_rob_entry (pw_issue_outputs w))
      else current_pc c)"

definition next_stopped_with :: "CPU \<Rightarrow> PlanWires \<Rightarrow> bool" where
  "next_stopped_with c w =
     (if ro_flush (pw_rob_decision w) then False
      else if issue_effective w \<and> re_op (io_rob_entry (pw_issue_outputs w)) = OP_HALT then True
      else fetch_stopped c)"

definition status_with :: "CPU \<Rightarrow> PlanWires \<Rightarrow> CpuStatus" where
  "status_with c w =
     (if rc_halted (ro_commit (pw_rob_decision w)) then CpuHalted
      else if lo_memory_error (ld_outputs (pw_lsq_decision w)) then CpuMemoryOutOfBound
      else if io_status (pw_issue_outputs w) = InvalidAllocation then CpuInternalError
      else if io_status (pw_issue_outputs w) = InvalidInstruction \<and> rob_empty (rob c)
        then CpuInvalidInstruction
      else if pw_fetch_error w \<and> rob_empty (rob c) then CpuFetchOutOfBound
      else cpu_status c)"

definition next_with :: "CPU \<Rightarrow> PlanWires \<Rightarrow> ApplyInputs \<Rightarrow> CPU" where
  "next_with c w i =
     \<lparr>memory_unit = memory_latch (fst (memory_apply (ai_memory_request i) (memory_unit c))),
      register_file = rf_latch (rf_apply (ai_register_write i) (register_file c)),
      rename_table = rat_latch (rat_apply (ai_rat_write i) (ai_rat_commit i) (ai_rob_flush i) (rename_table c)),
      rob = rob_latch (fst (rob_apply (ai_rob_inputs i) (ai_rob_decision i) (rob c))),
      reservation_station = rs_latch (fst (rs_apply (ai_rs_inputs i) (ai_rs_decision i) (reservation_station c))),
      load_store_queue = lsq_latch (fst (lsq_apply (ai_lsq_inputs i) (ai_lsq_decision i) (load_store_queue c))),
      functional_unit = fu_latch (fst (fu_apply (ai_execute i) (ai_flush i) (ai_integer_granted i)
        (functional_unit c))),
      common_data_bus = cdb_latch (cdb_apply (ai_cdb_decision i) (common_data_bus c)),
      branch_predictor = bp_latch (bp_apply (ai_predictor_update i) (branch_predictor c)),
      current_pc = next_pc_with c w, next_pc = next_pc_with c w,
      fetch_stopped = next_stopped_with c w, next_fetch_stopped = next_stopped_with c w,
      cpu_status = status_with c w, cycle_count = cycle_count c + 1,
      committed_count =
        (if rc_valid (ro_commit (pw_rob_decision w)) \<and> re_op (rc_entry (ro_commit (pw_rob_decision w))) \<noteq> OP_HALT
         then committed_count c + 1 else committed_count c),
      exit_code = (if rc_halted (ro_commit (pw_rob_decision w)) then rf_read (register_file c) 10 AND 0xff
        else exit_code c),
      plan_orders = plan_orders c, apply_orders = apply_orders c, latch_orders = latch_orders c\<rparr>"

definition cycle_with :: "CPU \<Rightarrow> PlanWires \<Rightarrow> ApplyInputs \<Rightarrow> CPU option" where
  "cycle_with c w i = (if asserts_with c w i then Some (next_with c w i) else None)"

definition cycle_from :: "CPU \<Rightarrow> CycleView \<Rightarrow> PlanWires \<Rightarrow> CPU option" where
  "cycle_from c v w = cycle_with c w (apply_inputs c v w)"

definition cycle_seen :: "CPU \<Rightarrow> CycleView \<Rightarrow> CPU option" where
  "cycle_seen c v = cycle_from c v (planned c v)"

lemma cycle_seen: "cycle_seen c (cycle_view c) = (if cycle_asserts c then Some (next_cpu c) else None)"
proof -
  let ?w = "cycle_wires c" and ?i = "cycle_inputs c"
  have "next_with c ?w ?i = next_cpu c"
    by (rule CPU.equality)
       (simp_all add: next_with_def next_cpu_def Let_def pc_after_def stopped_after_def status_after_def
          next_pc_with_def next_stopped_with_def status_with_def)
  moreover have "asserts_with c ?w ?i = cycle_asserts c"
    by (simp only: asserts_with_def cycle_asserts_def Let_def)
  ultimately show ?thesis
    by (simp add: cycle_seen_def cycle_from_def cycle_with_def cycle_inputs_def cycle_wires_def)
qed

text \<open>The core after \<open>n\<close> canonical cycles, or where it has stopped; \<open>None\<close> when an assertion fails.\<close>

fun advance :: "nat \<Rightarrow> CPU \<Rightarrow> CPU option" where
  "advance 0 c = Some c"
| "advance (Suc n) c =
     (if cpu_status c = CpuRunning
      then (case cycle_seen c (cycle_view c) of None \<Rightarrow> None | Some d \<Rightarrow> advance n d) else Some c)"

text \<open>A core loaded with the given bytes at address 0, without its tables, for any values of the two
  fields of the memory image that only the loader uses.\<close>

definition image_core :: "Byte list \<Rightarrow> nat \<Rightarrow> Address option \<Rightarrow> CPU" where
  "image_core bs n a =
     \<lparr>memory_unit = memory_unit_new\<lparr>mu_memory := \<lparr>bytes = place (0, bs) (\<lambda>_. 0),
        load_byte_count = n, highest_loaded_address = a\<rparr>\<rparr>,
      register_file = register_file_new, rename_table = rename_table_new, rob = reorder_buffer_new,
      reservation_station = reservation_station_new, load_store_queue = load_store_queue_new,
      functional_unit = functional_unit_new, common_data_bus = common_data_bus_new,
      branch_predictor = branch_predictor_new, current_pc = 0, next_pc = 0,
      fetch_stopped = False, next_fetch_stopped = False, cpu_status = CpuRunning,
      cycle_count = 0, committed_count = 0, exit_code = 0,
      plan_orders = [], apply_orders = [], latch_orders = []\<rparr>"

text \<open>Comparing addresses as integers keeps the evaluation of the bounds checks short.\<close>

lemma unat_le_diff:
  assumes "w \<le> n"
  shows "unat a \<le> n - w \<longleftrightarrow> uint a \<le> int n - int w"
proof -
  have "unat a \<le> n - w \<longleftrightarrow> unat a + w \<le> n" by (rule Nat.le_diff_conv2 [OF assms])
  also have "\<dots> \<longleftrightarrow> int (unat a + w) \<le> int n" by (simp only: of_nat_le_iff)
  finally show ?thesis by auto
qed

lemma in_bounds_code [code]: "in_bounds a w \<longleftrightarrow> int w \<le> 1048576 \<and> uint a \<le> 1048576 - int w"
proof -
  have k: "int kMemorySize = 1048576" by (simp add: kMemorySize_def)
  then have "int w \<le> 1048576 \<longleftrightarrow> w \<le> kMemorySize" by linarith
  then show ?thesis using unat_le_diff [of w kMemorySize a] by (auto simp: in_bounds_def Let_def k)
qed

text \<open>The load behind the branch fails before the branch commits.\<close>

lemma wrong_status:
  "map_option cpu_status (advance 11 (image_core wrong_bytes n a)) = Some CpuMemoryOutOfBound"
  by code_simp

text \<open>The core has fetched the halt instruction before the store replaces it.\<close>

lemma patched_status:
  "map_option (\<lambda>c. (cpu_status c, exit_code c)) (advance 8 (image_core patched_bytes n a)) = Some (CpuHalted, 0)"
  by code_simp

end
