(* ===== verification/Deviations.thy ===== *)
theory Deviations
  imports CoreProperties Evaluation
begin

text \<open>
  The hypotheses and exceptions of the simulation are needed.  A program that halts in the sequential
  semantics is ended by the core with an access fault, because a load behind a mispredicted branch is
  answered before the branch commits; and a program that overwrites its next instruction executes
  the old one.  The cycles of both are evaluated in \<open>Evaluation\<close>.
\<close>

section \<open>Evaluated cycles and loaded images\<close>

lemma advance_cycles: "orders_ok c \<Longrightarrow> cpu_cycles n c = advance n c"
  by (induction n arbitrary: c) (simp_all add: cycle_seen cycle_canonical orders_ok_next)

lemma advance_orders: "advance n (with_orders c d) = map_option (\<lambda>x. with_orders x d) (advance n c)"
  by (induction n arbitrary: c)
     (simp_all add: cycle_seen with_orders_next with_orders_asserts with_orders_fields)

definition bytes_image :: "Byte list \<Rightarrow> istream" where
  "bytes_image bs = \<lparr>is_chars = print_image [(0, bs)], is_bad = False\<rparr>"

lemma image_loaded:
  assumes "section_fits (0, bs)"
  shows "loads (bytes_image bs)"
    and "bytes (isa_mem (image_start (bytes_image bs))) = place (0, bs) (\<lambda>_. 0)"
    and "\<exists>n a. loaded_core shuffle e (bytes_image bs)
       = with_orders (image_core bs n a) (loaded_core shuffle e (bytes_image bs))"
proof -
  have fits: "list_all section_fits [(0, bs)]" using assms by simp
  have ok: "load_ok (fst (image_load (bytes_image bs) u))" for u
    unfolding bytes_image_def by (rule printed_image_loads(1) [OF fits])
  have b: "bytes (snd (image_load (bytes_image bs) u)) = place (0, bs) (\<lambda>_. 0)" for u
    unfolding bytes_image_def using printed_image_loads(2) [OF fits] by simp
  show "loads (bytes_image bs)" unfolding loads_def by (rule ok)
  show "bytes (isa_mem (image_start (bytes_image bs))) = place (0, bs) (\<lambda>_. 0)"
    by (simp add: image_start_def b)
  let ?l = "snd (image_load (bytes_image bs) (mu_memory memory_unit_new))"
  have m: "?l = \<lparr>bytes = place (0, bs) (\<lambda>_. 0), load_byte_count = load_byte_count ?l,
      highest_loaded_address = highest_loaded_address ?l\<rparr>"
    by (rule MemoryImage.equality) (simp_all add: b)
  have "loaded_core shuffle e (bytes_image bs)
      = with_orders (image_core bs (load_byte_count ?l) (highest_loaded_address ?l))
          (loaded_core shuffle e (bytes_image bs))"
    unfolding image_core_def m [symmetric]
    by (simp add: with_orders_def cpu_load_def cpu_new_def initialize_execution_orders_def Let_def
        case_prod_beta memory_load_def memory_unit_new_def memory_reset_def ok reset_records
        cdb_reset_def common_data_bus_new_def bp_reset_def branch_predictor_new_def)
  then show "\<exists>n a. loaded_core shuffle e (bytes_image bs)
       = with_orders (image_core bs n a) (loaded_core shuffle e (bytes_image bs))" by blast
qed

text \<open>What the evaluation says of the loaded core, whatever the shuffles.\<close>

lemma evaluated_run:
  assumes "permutes shuffle" and "section_fits (0, bs)"
    and "\<And>n a. map_option f (advance k (image_core bs n a)) = Some v"
    and "\<And>c d. f (with_orders c d) = f c"
  shows "\<exists>c. cpu_cycles k (loaded_core shuffle e (bytes_image bs)) = Some c \<and> f c = v"
proof -
  let ?l = "loaded_core shuffle e (bytes_image bs)"
  obtain n a where l: "?l = with_orders (image_core bs n a) ?l"
    using image_loaded(3) [OF assms(2), of shuffle e] by blast
  obtain x where x: "advance k (image_core bs n a) = Some x" "f x = v" using assms(3) [of n a] by auto
  have "orders_ok ?l" by (rule cpu_load_orders [OF orders_ok_new [OF assms(1)]])
  then have "cpu_cycles k ?l = advance k ?l" by (rule advance_cycles)
  also have "\<dots> = Some (with_orders x ?l)" by (subst l) (simp add: advance_orders x(1))
  finally show ?thesis using x(2) assms(4) by auto
qed

section \<open>A load behind a mispredicted branch\<close>

abbreviation wrong_image :: istream where
  "wrong_image \<equiv> bytes_image wrong_bytes"

lemma wrong_fits: "section_fits (0, wrong_bytes)"
  by (simp add: section_fits_def wrong_bytes_def kMemorySize_def)

lemmas wrong_loaded = image_loaded [OF wrong_fits]

lemma wrong_words:
  "read_word (isa_mem (image_start wrong_image)) 0 = Some 0x00002083"
  "read_word (isa_mem (image_start wrong_image)) 4 = Some 0x00108093"
  "read_word (isa_mem (image_start wrong_image)) 8 = Some 0x00009463"
  "read_word (isa_mem (image_start wrong_image)) 16 = Some 0x0ff00513"
  unfolding read_word_def wrong_loaded(2)
  by (simp_all add: place_def wrong_bytes_def in_bounds_def kMemorySize_def
      Let_def push_bit_eq_mult)

lemma wrong_decoded:
  "di_op (decode 0x00002083) = OP_LW" "di_rd (decode 0x00002083) = 1"
  "di_rs1 (decode 0x00002083) = 0" "di_immediate (decode 0x00002083) = 0"
  "di_op (decode 0x00108093) = OP_ADDI" "di_rd (decode 0x00108093) = 1"
  "di_rs1 (decode 0x00108093) = 1" "di_immediate (decode 0x00108093) = 1"
  "di_op (decode 0x00009463) = OP_BNE" "di_rs1 (decode 0x00009463) = 1"
  "di_rs2 (decode 0x00009463) = 0" "di_immediate (decode 0x00009463) = 8"
  "di_op (decode 0x0ff00513) = OP_HALT"
  by code_simp+

definition wrong_state :: "Address \<Rightarrow> Word \<Rightarrow> isa_state" where
  "wrong_state pc v = (image_start wrong_image)\<lparr>isa_pc := pc, isa_regs := (\<lambda>_. 0)(1 := v)\<rparr>"

lemma wrong_steps:
  "isa_step (image_start wrong_image) = Step (wrong_state 4 0x2083)"
  "isa_step (wrong_state 4 0x2083) = Step (wrong_state 8 0x2084)"
  "isa_step (wrong_state 8 0x2084) = Step (wrong_state 16 0x2084)"
  "isa_step (wrong_state 16 0x2084) = Halted 0"
  by (simp_all add: isa_step_def wrong_state_def wrong_words isa_exec_def wrong_decoded op_classes
      isa_next_pc_def isa_value_def isa_address_def isa_rs1_def isa_rs2_def set_reg_def)

lemma wrong_reach:
  "isa_reach (image_start wrong_image) t \<Longrightarrow> t \<in> {image_start wrong_image, wrong_state 4 0x2083,
     wrong_state 8 0x2084, wrong_state 16 0x2084}"
  by (induction "image_start wrong_image" t rule: isa_reach.induct) (auto simp: wrong_steps)

lemma wrong_stable: "code_stable (image_start wrong_image)"
proof -
  have "isa_mem t = isa_mem (image_start wrong_image)" if "isa_reach (image_start wrong_image) t" for t
    using wrong_reach [OF that] by (auto simp: wrong_state_def)
  then show ?thesis unfolding code_stable_def using isa_reach_trans by metis
qed

lemma wrong_stops: "stops_after 3 (image_start wrong_image) (Halted 0)"
  by (simp add: stops_after_def wrong_steps numeral_eq_Suc)

lemma wrong_cycles:
  assumes "permutes shuffle"
  shows "\<exists>c. cpu_cycles 11 (loaded_core shuffle e wrong_image) = Some c \<and> cpu_status c = CpuMemoryOutOfBound"
  by (rule evaluated_run [OF assms wrong_fits wrong_status]) (simp add: with_orders_fields)

section \<open>A store into the next instruction\<close>

abbreviation patched_image :: istream where
  "patched_image \<equiv> bytes_image patched_bytes"

lemma patched_fits: "section_fits (0, patched_bytes)"
  by (simp add: section_fits_def patched_bytes_def kMemorySize_def)

lemmas patched_loaded = image_loaded [OF patched_fits]

lemma patched_words: "read_word (isa_mem (image_start patched_image)) 0 = Some 0x00002223"
  unfolding read_word_def patched_loaded(2)
  by (simp add: place_def patched_bytes_def in_bounds_def
      kMemorySize_def Let_def push_bit_eq_mult)

lemma patched_decoded:
  "di_op (decode 0x00002223) = OP_SW" "di_rs1 (decode 0x00002223) = 0"
  "di_rs2 (decode 0x00002223) = 0" "di_immediate (decode 0x00002223) = 4" "di_op (decode 0) = OP_INVALID"
  by code_simp+

lemma patched_stops: "stops_after 1 (image_start patched_image) Illegal"
proof -
  let ?s = "image_start patched_image"
  let ?m = "fst (write_word (isa_mem ?s) 4 0)"
  let ?t = "?s\<lparr>isa_pc := 4, isa_mem := ?m\<rparr>"
  have w: "snd (write_word (isa_mem ?s) 4 0)" "read_word ?m 4 = Some 0"
    by (simp_all add: write_word_def read_word_def in_bounds_def kMemorySize_def Let_def)
  have "isa_step ?s = Step ?t"
    by (simp add: isa_step_def patched_words isa_exec_def patched_decoded op_classes isa_next_pc_def
        isa_address_def isa_rs1_def isa_rs2_def w(1))
  moreover have "isa_step ?t = Illegal" by (simp add: isa_step_def w(2) isa_exec_def patched_decoded)
  ultimately show ?thesis by (simp add: stops_after_def)
qed

section \<open>Properties\<close>

text \<open>C13: the exception in the properties of the core is real.  This program halts after three
  instructions in the sequential semantics, but the core stops after 11 cycles with an access fault
  from the load that the branch jumps over, and \<open>main\<close> fails.\<close>

theorem wrong_path_load_stops_core:
  assumes "permutes shuffle"
  shows "stops_after 3 (image_start wrong_image) (Halted 0)
    \<and> (\<exists>c p. cpu_cycles 11 (loaded_core shuffle (seeded 0) wrong_image) = Some c \<and> speculative_fault wrong_image c
         \<and> cpu_main shuffle seeded wrong_image = Some p \<and> visible p = (1, []))"
proof -
  let ?l = "loaded_core shuffle (seeded 0) wrong_image"
  obtain c where c: "cpu_cycles 11 ?l = Some c" "cpu_status c = CpuMemoryOutOfBound"
    using wrong_cycles [OF assms] by blast
  have "cpu_status ?l = CpuRunning" using core_tracks [OF assms wrong_loaded(1)] by (simp add: tracks_def)
  then have run: "cpu_run ?l = Some (c, \<lparr>rr_status = cpu_status c, rr_value = exit_code c\<rparr>)"
    using cycles_loop [OF c(1)] c(2) by (simp add: cpu_run_def)
  then have "ends_right (image_start wrong_image) c"
    using core_run_ends [OF assms wrong_loaded(1) wrong_stable] by blast
  moreover have "\<nexists>n. stops_after n (image_start wrong_image) MemFault"
    using stops_unique(2) [OF wrong_stops] by blast
  ultimately have "speculative_fault wrong_image c" by (auto simp: ends_right_def speculative_fault_def c(2))
  moreover have "\<exists>p. cpu_main shuffle seeded wrong_image = Some p \<and> visible p = (1, [])"
    using main_from_run [where seeded = seeded, OF wrong_loaded(1) run] c(2) by (simp add: visible_def)
  ultimately show ?thesis using wrong_stops c(1) by blast
qed

theorem wrong_path_load_stops_core_witness:
  "\<exists>c. cpu_cycles 11 (loaded_core reversing 0 wrong_image) = Some c \<and> speculative_fault wrong_image c"
  using wrong_path_load_stops_core [OF reversing_permutes, of id] by auto

text \<open>C14: the hypothesis on the code is needed.  The program overwrites its halt instruction with an
  illegal one: the sequential machine stops at the illegal instruction, but the core, which fetches
  without waiting for the stores in flight, executes the old instruction, halts, and \<open>main\<close> succeeds.\<close>

theorem overwritten_code_is_stale:
  assumes "permutes shuffle"
  shows "stops_after 1 (image_start patched_image) Illegal
    \<and> (\<exists>p. cpu_main shuffle seeded patched_image = Some p \<and> visible p = (0, ''0'' @ newline))"
proof -
  let ?l = "loaded_core shuffle (seeded 0) patched_image"
  obtain c where c: "cpu_cycles 8 ?l = Some c" "cpu_status c = CpuHalted" "exit_code c = 0"
    using evaluated_run [OF assms patched_fits patched_status, of "seeded 0"]
    by (auto simp: with_orders_def)
  have "cpu_status ?l = CpuRunning" using core_tracks [OF assms patched_loaded(1)] by (simp add: tracks_def)
  then have "cpu_run ?l = Some (c, \<lparr>rr_status = cpu_status c, rr_value = exit_code c\<rparr>)"
    using cycles_loop [OF c(1)] c(2) by (simp add: cpu_run_def)
  moreover have "decimal 0 = ''0''" by code_simp
  ultimately show ?thesis
    using main_from_run [where seeded = seeded, OF patched_loaded(1)] c(2,3) patched_stops
    by (simp add: visible_def)
qed

theorem overwritten_code_is_stale_witness:
  "\<exists>p. cpu_main reversing id patched_image = Some p \<and> visible p = (0, ''0'' @ newline)"
  using overwritten_code_is_stale [OF reversing_permutes] by blast

end
