(* ===== verification/Spec2Isabelle.thy ===== *)
theory Spec2Isabelle
  imports CircularQueue Encoding InterpreterCorrect ExecuteCorrect ImageLoadCorrect MemoryCorrect
    ModulesCorrect QueueRuns AccessPaths ScheduleCorrect Deviations
begin

text \<open>
  A simulator of an RV32I processor with out-of-order execution (Tomasulo's algorithm with a
  reorder buffer), and a reference interpreter of the same instructions.

  \<^bold>\<open>The program.\<close>  \<open>src/src/main.cpp\<close> reads a memory image from its standard input, runs the core
  until it stops, prints the low byte of register \<open>a0\<close> and reports statistics.  The core (\<open>tomasulo/cpu.cpp\<close>) connects
  ten modules.  An instruction is fetched and decoded at \<open>current_pc\<close>; the issue unit gives it an
  entry of the reorder buffer, an entry of the reservation station (integer and control
  instructions) or of the load/store queue (loads and stores), and renames its destination.  It
  waits until its operands have been broadcast on the common data bus; the integer unit or the
  memory port computes its result, which the bus delivers to the reorder buffer; and it commits when
  it is the oldest entry.  A mispredicted branch or jump flushes everything at its commit.  All
  modules are clocked: during a cycle the others read the current state, \<open>apply\<close> prepares the next
  state, and \<open>latch\<close> installs it.  The order of the modules inside a phase is taken from tables that
  the constructor shuffles.

  \<^bold>\<open>The model\<close>, one theory for one source file, in the order of the code:

  \<^item> \<open>Prelude\<close>, \<open>Types\<close>: \<open>common/types.hpp\<close> and \<open>common/config.hpp\<close>.  A \<open>uint32_t\<close> is a
    \<open>32 word\<close> and the other integers are words of their width; \<open>std::optional\<close> is \<open>option\<close>;
    positions in arrays are natural numbers below the capacity.
  \<^item> \<open>CircularQueue\<close>: \<open>common/circular_queue.hpp\<close>.
  \<^item> \<open>Instruction\<close>, \<open>Decoder\<close>: \<open>isa/instruction.hpp\<close>, \<open>isa/decoder.cpp\<close>.
  \<^item> \<open>Image\<close>, \<open>ImageLoad\<close>: \<open>memory/image.cpp\<close>.  The byte array is a function from indices, used only
    behind the bounds checks of the code; the input stream is its characters and its error flag.
  \<^item> \<open>MemoryUnit\<close>: \<open>memory/memory_unit.cpp\<close>, the fetch port and the data port with its latency.
  \<^item> \<open>Interpreter\<close>: \<open>reference/interpreter.cpp\<close>.
  \<^item> \<open>Signals\<close>, \<open>RegisterFile\<close>, \<open>RenameTable\<close>, \<open>CommonDataBus\<close>, \<open>BranchPredictor\<close>,
    \<open>FunctionalUnit\<close>, \<open>ReservationStation\<close>, \<open>ReorderBuffer\<close>, \<open>LoadStoreQueue\<close>, \<open>IssueUnit\<close>: the files
    of the same names under \<open>tomasulo/\<close>.  A class is a record of its current and next fields; an
    operation returns the updated record, and with it the reference arguments that it sets.
  \<^item> \<open>Cpu\<close>: \<open>tomasulo/cpu.cpp\<close>.  \<open>cycle\<close> runs the four phases with the modules in the order of the
    tables; \<open>cpu_run\<close> is the loop of \<open>run\<close>.
  \<^item> \<open>Program\<close>: \<open>main.cpp\<close>; \<open>cpu_main\<close> is the exit code and the text on both output streams.
    \<open>Report\<close> holds what this uses of the C++ library: the output operators for unsigned integers
    and for \<open>double\<close>, and the rounding of \<open>double\<close> in the quotient of two counters.

  Every \<open>assert\<close> of the code is a definition \<open>..._asserts\<close>; a cycle in which one fails has the result
  \<open>None\<close>, as the program aborts.  The loops that may run for ever, \<open>run_loop\<close> and \<open>cpu_loop\<close>, are
  partial functions, so that not returning is \<open>None\<close> as well, and that they return is proved.

  \<^bold>\<open>Contracts between the components\<close> (locales, each interpreted on the code's definitions):
  \<open>two_phase\<close> (\<open>TwoPhase\<close>) is the discipline of apply and latch that every clocked module keeps;
  \<open>bounded_fifo\<close> (\<open>CircularQueue\<close>) what the circular queue promises; \<open>byte_memory\<close> (\<open>Image\<close>) what
  reads and writes of each width promise; \<open>wakeup\<close> (\<open>Wakeup\<close>) how operands become ready, for the
  reservation station and the load/store queue; \<open>result_holder\<close> (\<open>ModulesCorrect\<close>) how a result
  waits for the bus.  \<open>Ring\<close> holds the lemmas on ring positions that the circular buffers share.

  \<^bold>\<open>The specifications.\<close>
  \<open>Isa\<close> is the sequential semantics: \<open>isa_step\<close> executes one instruction or tells why it
  cannot (halted, fetch outside the memory, illegal instruction, access outside the memory),
  \<open>isa_run\<close> several, and \<open>isa_reach\<close> relates a state to those it leads to.  \<open>Encoding\<close> is the
  instruction format, a datatype with fields of their exact width and their encoding.  The queues
  are specified by lists and bags, the rename table by the youngest writer of each register.

  \<^bold>\<open>What is proved.\<close>
  \<^item> \<open>Encoding\<close>, \<open>DecodeWf\<close>: the decoder inverts the encoding, and its flags agree with its operation.
  \<^item> \<open>InterpreterCorrect\<close>: the interpreter is the sequential semantics, except for \<open>SLT\<close> and \<open>SLTU\<close>,
    which compare with the immediate 0 instead of \<open>rs2\<close>.
  \<^item> \<open>Arithmetic\<close>, \<open>ExecuteCorrect\<close>: the integer unit computes the value, the next address and the
    direction of the semantics.
  \<^item> \<open>ImageLoadCorrect\<close>, \<open>MemoryCorrect\<close>: the loader and the memory with its two ports.
  \<^item> \<open>RobCorrect\<close>, \<open>RsCorrect\<close>, \<open>LsqCorrect\<close>, \<open>IssueCorrect\<close>, \<open>ModulesCorrect\<close>, \<open>QueueRuns\<close>: each
    module over whole runs, against lists, bags and maps.
  \<^item> \<open>CycleOrder\<close>, \<open>ScheduleCorrect\<close>: the shuffled orders make no difference.
  \<^item> \<open>AccessPaths\<close>: operands, loads and stores against the semantics.

  \<^bold>\<open>The core against the sequential semantics\<close> is a simulation, from \<open>CycleFacts\<close> to
  \<open>CoreProperties\<close>.  \<open>CycleFacts\<close> and \<open>CoreStep\<close> state a cycle over lists and bags.  \<open>Ghost\<close>
  annotates each entry of the reorder buffer with the state of the sequential machine in which its
  instruction executes, or with \<open>None\<close> from the first mispredicted instruction on.
  \<open>CoreInvariant\<close> defines \<open>related s c\<close>: the queues are well formed and every unfinished instruction
  waits in exactly one place; every operand, address and result in flight is that of its annotation
  or waits for the right tag; at most one access is under way at the memory, and its answer is taken
  only for the head of the load/store queue; and the registers, the memory (up to a store that
  has reached it just before its commit) and the address of the next fetch are those of \<open>s\<close>.
  \<open>CoreComplete\<close>, \<open>CoreResults\<close>, \<open>CoreIssue\<close>, \<open>CoreFlight\<close>, \<open>CoreQueues\<close>, \<open>CoreTraffic\<close> and
  \<open>CoreState\<close> prove that a cycle preserves it, with the machine making one step when an instruction
  commits and none otherwise.  \<open>CoreOrder\<close> shows that an instruction waits only for older ones.
  \<open>CoreRun\<close> and \<open>CoreCorrect\<close> lift this to runs: no assertion fails, and a run ends as the machine
  does.  \<open>CoreProgress\<close> shows that the oldest instruction commits within 52 cycles, and
  \<open>CoreStatistics\<close> that the counters and the branch predictor follow the sequential execution: the
  branches that commit (\<open>committed_branches\<close>) are those that the machine executes.

  \<open>ends_right\<close> says what the status of a stopped core means.  The count of committed instructions is
  exact when the core has halted or stopped at a fetch or an illegal instruction.  An access fault
  is noticed as soon as the memory answers, so that older instructions may not have committed and the
  count is only a lower bound of the number of instructions that the machine performs.

  \<^bold>\<open>Bounds.\<close>  \<open>cpu_cycles n\<close> is the loop of \<open>run\<close> cut off after \<open>n\<close> cycles, used to state
  how long a run takes: \<open>52 * (n + 1)\<close> cycles suffice for \<open>n\<close> instructions.  The largest of the
  waiting times is that of a ready instruction in the reservation station: up to fifteen others are
  dispatched before it, each taking at most three cycles because its result may have to give way to
  a load's on the bus.  The commit counter is a 64-bit word, so the statements say \<open>of_nat n\<close>; the
  generations of the tags are 32-bit words and wrap, which is harmless because a tag is compared
  only with those of the 32 slots and of the access under way.

  \<^bold>\<open>Hypotheses of the properties of the core.\<close>
  \<^item> \<open>permutes shuffle\<close>: \<open>std::shuffle\<close> returns a permutation of its range.  It and the engine
    \<open>std::mt19937\<close> are parameters; nothing else is assumed of them.
  \<^item> \<open>loads inputs\<close>: the image is accepted by the loader.
  \<^item> \<open>code_stable\<close>: along the sequential execution, no word at which the machine arrives later
    changes.  The fetch reads the memory without waiting for the stores in flight, so that a
    program that writes its own code may execute the old code, as one in \<open>Deviations\<close> does.
  \<^item> \<open>slt_free\<close>, for the comparison with the interpreter only: the execution meets no \<open>SLT\<close> or \<open>SLTU\<close>.

  The core deviates from the sequential semantics in one case, which \<open>wrong_path_load\<close> describes and
  \<open>speculative_fault\<close> names in the statements: a load on a mispredicted path whose address is outside
  the memory ends the program, although the load would have been squashed.  It cannot happen
  on an execution without branches and jumps, where the result is exact; \<open>Deviations\<close> shows
  that it does happen, on a program of five instructions.  The cycles of the core on such programs
  are evaluated in \<open>Evaluation\<close> by the simplifier, for the canonical order of the modules, to which
  every other order is equal.

  \<^bold>\<open>Not modelled.\<close>  The type \<open>FetchPacket\<close> and the accessors that expose the fields of a module to
  the tests, which the program never uses; a \<open>double\<close> that is negative, infinite, not a number or
  subnormal, which a quotient of two counters never is; the unit tests, the sample programs and the
  build files, which hold no logic of the simulator.
\<close>

end
